(* ===== verification/Prelude.thy ===== *)
theory Prelude
  imports
    Complex_Main
    "HOL-Library.Word"
    "HOL-Library.Char_ord"
    "HOL-Library.List_Lexorder"
    "HOL-Library.Sublist"
    "HOL-Library.Log_Nat"
begin

text \<open>
  Shared vocabulary of the development: the operations of the C++ standard library that the
  engine's sources call, and the generic lemmas the component theories rest on.

  \<^item> A \<^verbatim>\<open>std::string\<close> is a \<^typ>\<open>string\<close>: Isabelle's \<^typ>\<open>char\<close> is an 8-bit value, so a
    string is a sequence of bytes exactly as in the sources.  \<^verbatim>\<open>npos\<close> is \<^term>\<open>None\<close>.
  \<^item> A \<^verbatim>\<open>std::map<std::string, V>\<close> is an association list with strictly increasing keys,
    which is the order in which the C++ container iterates.
  \<^item> \<^verbatim>\<open><cctype>\<close> functions are those of the C locale (the engine never calls
    \<^verbatim>\<open>setlocale\<close>); \<^verbatim>\<open>atoi\<close>, \<^verbatim>\<open>strtod\<close>, \<^verbatim>\<open>%lld\<close> and \<^verbatim>\<open>%.17g\<close> follow the C standard with
    correct rounding, as glibc implements them.
  \<^item> A \<^verbatim>\<open>double\<close> is a rational or an infinity.  The two zeros are one value: the engine's only
    operations on a double (comparison, conversion to an integer, printing an integral value
    with \<^verbatim>\<open>%lld\<close>) do not tell them apart.  NaN does not arise: every double is parsed from
    a token over \<^verbatim>\<open>[0-9.eE+-]\<close> or converted from an integer.
  \<^item> Conversions of a double to an integer type that cannot hold it follow the x86-64
    instruction of the released builds, which yields the smallest integer.
\<close>

named_theorems cxx_string \<open>facts on the C++ string operations\<close>
named_theorems char_codes \<open>facts on character codes\<close>

section \<open>Characters\<close>

type_synonym bytes = string

definition byte_of :: "char \<Rightarrow> nat" where
  "byte_of c = of_char c"

definition is_digit :: "char \<Rightarrow> bool" where
  "is_digit c \<longleftrightarrow> 48 \<le> byte_of c \<and> byte_of c \<le> 57"

definition is_space :: "char \<Rightarrow> bool" where
  "is_space c \<longleftrightarrow> byte_of c = 32 \<or> (9 \<le> byte_of c \<and> byte_of c \<le> 13)"

definition to_lower :: "char \<Rightarrow> char" where
  "to_lower c = (if 65 \<le> byte_of c \<and> byte_of c \<le> 90 then char_of (byte_of c + 32) else c)"

definition digit_char :: "nat \<Rightarrow> char" where
  "digit_char d = char_of (48 + d)"

definition digit_val :: "char \<Rightarrow> nat" where
  "digit_val c = byte_of c - 48"

text \<open>The hexadecimal digit test that the sources spell out three times
  (\<^verbatim>\<open>Parser::hex4\<close>, \<^verbatim>\<open>hex_val\<close> and \<^verbatim>\<open>dechunk\<close>).\<close>

definition hex_digit :: "char \<Rightarrow> nat option" where
  "hex_digit c =
     (if 48 \<le> byte_of c \<and> byte_of c \<le> 57 then Some (byte_of c - 48)
      else if 97 \<le> byte_of c \<and> byte_of c \<le> 102 then Some (byte_of c - 97 + 10)
      else if 65 \<le> byte_of c \<and> byte_of c \<le> 70 then Some (byte_of c - 65 + 10)
      else None)"

definition hex_char :: "nat \<Rightarrow> char" where
  "hex_char d = (if d < 10 then char_of (48 + d) else char_of (87 + d))"

lemma byte_of_less_256 [simp, char_codes]: "byte_of c < 256"
  using nat_of_char_less_256 [of c] by (simp add: byte_of_def)

lemma byte_of_char_of [char_codes]: "n < 256 \<Longrightarrow> byte_of (char_of n) = n"
  by (simp add: byte_of_def)

lemma char_of_byte_of [simp, char_codes]: "char_of (byte_of c) = c"
  by (simp add: byte_of_def)

lemma byte_of_inject [simp, char_codes]: "byte_of c = byte_of d \<longleftrightarrow> c = d"
  by (metis char_of_byte_of)

lemma byte_of_digit_char [simp]: "d < 10 \<Longrightarrow> byte_of (digit_char d) = 48 + d"
  by (simp add: digit_char_def byte_of_char_of)

lemma is_digit_digit_char [simp]: "d < 10 \<Longrightarrow> is_digit (digit_char d)"
  by (simp add: is_digit_def)

lemma digit_val_digit_char [simp]: "d < 10 \<Longrightarrow> digit_val (digit_char d) = d"
  by (simp add: digit_val_def)

lemma digit_val_less: "is_digit c \<Longrightarrow> digit_val c < 10"
  by (auto simp: is_digit_def digit_val_def)

lemma hex_digit_hex_char [simp]: "d < 16 \<Longrightarrow> hex_digit (hex_char d) = Some d"
  by (auto simp: hex_digit_def hex_char_def byte_of_char_of)

lemma hex_digit_less: "hex_digit c = Some d \<Longrightarrow> d < 16"
  by (auto simp: hex_digit_def split: if_splits)

section \<open>String search\<close>

text \<open>\<^verbatim>\<open>s.find(needle, from)\<close>, and \<^verbatim>\<open>s.substr(pos, n)\<close>.\<close>

fun find_sub :: "string \<Rightarrow> string \<Rightarrow> nat option" where
  "find_sub n [] = (if n = [] then Some 0 else None)"
| "find_sub n (c # cs) =
     (if prefix n (c # cs) then Some 0 else map_option Suc (find_sub n cs))"

definition str_find :: "string \<Rightarrow> string \<Rightarrow> nat \<Rightarrow> nat option" where
  "str_find s n from =
     (if from \<le> length s then map_option ((+) from) (find_sub n (drop from s)) else None)"

definition substr :: "string \<Rightarrow> nat \<Rightarrow> nat \<Rightarrow> string" where
  "substr s pos n = take n (drop pos s)"

lemma find_sub_Some_iff:
  "find_sub n s = Some k \<longleftrightarrow>
     k \<le> length s \<and> prefix n (drop k s) \<and> (\<forall>j<k. \<not> prefix n (drop j s))"
proof (induction s arbitrary: k)
  case Nil
  then show ?case by auto
next
  case (Cons c cs)
  show ?case
  proof (cases "prefix n (c # cs)")
    case True
    then show ?thesis by (auto simp: gr0_conv_Suc intro: gr0I)
  next
    case False
    then show ?thesis
      by (cases k) (auto simp: Cons.IH less_Suc_eq_0_disj)
  qed
qed

lemma find_sub_None_iff: "find_sub n s = None \<longleftrightarrow> (\<forall>j\<le>length s. \<not> prefix n (drop j s))"
proof (induction s)
  case Nil
  then show ?case by auto
next
  case (Cons c cs)
  have split: "(\<forall>j\<le>length (c # cs). \<not> prefix n (drop j (c # cs))) \<longleftrightarrow>
      \<not> prefix n (c # cs) \<and> (\<forall>j\<le>length cs. \<not> prefix n (drop j cs))"
    by (metis Suc_le_mono drop0 drop_Suc_Cons le0 length_Cons not0_implies_Suc)
  show ?case by (simp only: split) (simp add: Cons.IH)
qed

lemma find_sub_self [simp]: "find_sub n (n @ s) = Some 0"
  by (simp add: find_sub_Some_iff)

lemma find_sub_bound: "find_sub n s = Some k \<Longrightarrow> k + length n \<le> length s"
proof -
  assume "find_sub n s = Some k"
  then have "k \<le> length s" "prefix n (drop k s)" by (auto simp: find_sub_Some_iff)
  then show ?thesis by (metis diff_diff_cancel diff_is_0_eq le_diff_conv2 length_drop nat_le_linear
        ordered_cancel_comm_monoid_diff_class.add_diff_inverse prefix_length_le add.commute)
qed

lemma map_option_plus_zero [simp]: "map_option ((+) (0::nat)) x = x"
  by (cases x) simp_all

text \<open>The first byte of the needle does not occur before the match.\<close>

lemma find_sub_skip:
  assumes "n \<noteq> []" "hd n \<notin> set pre"
  shows "find_sub n (pre @ s) = map_option ((+) (length pre)) (find_sub n s)"
  using assms(2)
proof (induction pre)
  case Nil
  then show ?case by (simp add: option.map_ident)
next
  case (Cons c pre)
  then have "\<not> prefix n (c # pre @ s)"
    using assms(1) by (cases n) auto
  with Cons show ?case
    by (simp add: option.map_comp comp_def)
qed

lemma find_sub_absent: "n \<noteq> [] \<Longrightarrow> hd n \<notin> set s \<Longrightarrow> find_sub n s = None"
  using find_sub_skip [of n s "[]"] by simp

lemma find_sub_past:
  assumes "find_sub n pre = None" "list_all (\<lambda>i. \<not> prefix (drop i pre) n) [0..<length pre]"
  shows "find_sub n (pre @ s) = map_option ((+) (length pre)) (find_sub n s)"
  using assms
proof (induction pre)
  case Nil
  show ?case by (simp add: option.map_ident)
next
  case (Cons c pre)
  have "\<not> prefix (c # pre) n" using Cons.prems(2) unfolding list_all_iff by force
  then have "\<not> prefix n ((c # pre) @ s)"
    using Cons.prems(1) prefix_same_cases [of n "(c # pre) @ s" "c # pre"] by (auto split: if_splits)
  moreover have "list_all (\<lambda>i. \<not> prefix (drop i pre) n) [0..<length pre]"
    unfolding list_all_iff
  proof
    fix i assume "i \<in> set [0..<length pre]"
    then have "Suc i \<in> set [0..<length (c # pre)]" by auto
    then have "\<not> prefix (drop (Suc i) (c # pre)) n" using Cons.prems(2) unfolding list_all_iff by blast
    then show "\<not> prefix (drop i pre) n" by simp
  qed
  then have "find_sub n (pre @ s) = map_option ((+) (length pre)) (find_sub n s)"
    using Cons.prems(1) by (intro Cons.IH) (auto split: if_splits)
  moreover have "Suc \<circ> (+) (length pre) = (+) (length (c # pre))" by auto
  ultimately show ?case by (simp only: append_Cons find_sub.simps if_False option.map_comp)
qed

lemma find_sub_stays: "find_sub n pre = Some k \<Longrightarrow> find_sub n (pre @ s) = Some k"
proof (induction pre arbitrary: k)
  case (Cons c pre)
  show ?case
  proof (cases "prefix n (c # pre)")
    case True
    then have "prefix n ((c # pre) @ s)" by (rule prefix_prefix)
    then show ?thesis using Cons.prems True by simp
  next
    case False
    then obtain j where j: "find_sub n pre = Some j" "k = Suc j" using Cons.prems by auto
    then have "length n \<le> length (c # pre)" using find_sub_bound by fastforce
    then have "\<not> prefix n ((c # pre) @ s)" using False by (metis prefixI prefix_length_prefix)
    then show ?thesis using Cons.IH [OF j(1)] j(2) by simp
  qed
qed (cases s; simp split: if_splits)

lemma str_find_append [cxx_string]:
  "str_find (pre @ s) n (length pre) = map_option ((+) (length pre)) (find_sub n s)"
  by (simp add: str_find_def)

lemma str_find_zero [cxx_string]: "str_find s n 0 = find_sub n s"
  by (simp add: str_find_def)

lemma str_find_ge: "str_find s n from = Some k \<Longrightarrow> from \<le> k \<and> k + length n \<le> length s"
  by (auto simp: str_find_def split: if_splits dest!: find_sub_bound)

lemma substr_append [cxx_string]: "substr (pre @ s) (length pre) n = take n s"
  by (simp add: substr_def)

section \<open>Ordered maps\<close>

text \<open>A \<^verbatim>\<open>std::map\<close> keyed by strings: \<^verbatim>\<open>operator<\<close> on \<^verbatim>\<open>std::string\<close> compares bytes as
  unsigned values, which is the lexicographic order of \<^verbatim>\<open>HOL-Library\<close> on \<^typ>\<open>string\<close>.\<close>

type_synonym 'v omap = "(string \<times> 'v) list"

definition sorted_keys :: "'v omap \<Rightarrow> bool" where
  "sorted_keys m \<longleftrightarrow> sorted_wrt (<) (map fst m)"

fun map_put :: "string \<Rightarrow> 'v \<Rightarrow> 'v omap \<Rightarrow> 'v omap" where
  "map_put k v [] = [(k, v)]"
| "map_put k v ((k', v') # m) =
     (if k < k' then (k, v) # (k', v') # m
      else if k = k' then (k, v) # m
      else (k', v') # map_put k v m)"

lemma map_of_map_put [simp]: "map_of (map_put k v m) = (map_of m)(k \<mapsto> v)"
  by (induction m rule: map_put.induct) (auto simp: fun_eq_iff)

lemma fst_set_map_put: "fst ` set (map_put k v m) = insert k (fst ` set m)"
  by (induction k v m rule: map_put.induct) auto

lemma set_map_put_subset: "set (map_put k v m) \<subseteq> insert (k, v) (set m)"
  by (induction k v m rule: map_put.induct) auto

lemma sorted_keys_Nil [simp]: "sorted_keys []"
  by (simp add: sorted_keys_def)

lemma sorted_keys_map_put: "sorted_keys m \<Longrightarrow> sorted_keys (map_put k v m)"
proof (induction k v m rule: map_put.induct)
  case (2 k v k' v' m)
  then show ?case
    using fst_set_map_put [of k v m]
    by (fastforce simp: sorted_keys_def)
qed (simp add: sorted_keys_def)

lemma map_put_append: "sorted_keys (m @ [(k, v)]) \<Longrightarrow> map_put k v m = m @ [(k, v)]"
proof (induction m)
  case (Cons a m)
  then have "fst a < k" and "sorted_keys (m @ [(k, v)])"
    by (auto simp: sorted_keys_def)
  with Cons.IH show ?case by (cases a) auto
qed simp

lemma map_put_same: "sorted_keys m \<Longrightarrow> map_of m k = Some v \<Longrightarrow> map_put k v m = m"
proof (induction k v m rule: map_put.induct)
  case (2 k v k' v' m)
  show ?case
  proof (cases "k = k'")
    case False
    with 2(3) have "map_of m k = Some v" by simp
    then have "k \<in> fst ` set m" by (force dest: map_of_SomeD)
    with 2(2) have "k' < k" by (auto simp: sorted_keys_def)
    with 2 False show ?thesis by (auto simp: sorted_keys_def)
  qed (use 2 in auto)
qed simp

section \<open>32-bit words and their bytes\<close>

unbundle bit_operations_syntax

text \<open>\<^verbatim>\<open>static_cast<char>\<close> of an unsigned value keeps its low eight bits.\<close>

definition to_byte :: "32 word \<Rightarrow> char" where
  "to_byte w = char_of (unat w)"

lemma unat_of_nat32: "n < 2 ^ 32 \<Longrightarrow> unat (of_nat n :: 32 word) = n"
  by (simp add: unat_of_nat)

lemma drop_bit_of_nat32:
  assumes "n < 2 ^ 32"
  shows "drop_bit k (of_nat n :: 32 word) = of_nat (n div 2 ^ k)"
proof (rule word_unat_eq_iff [THEN iffD2])
  have "n div 2 ^ k < 2 ^ 32" using assms by (meson div_le_dividend order.strict_trans1)
  then show "unat (drop_bit k (of_nat n :: 32 word)) = unat (of_nat (n div 2 ^ k) :: 32 word)"
    using assms by (subst unat_drop_bit_eq) (simp add: unat_of_nat32 drop_bit_eq_div)
qed

lemma le_of_nat32: "a < 2 ^ 32 \<Longrightarrow> b < 2 ^ 32 \<Longrightarrow> (of_nat a :: 32 word) \<le> of_nat b \<longleftrightarrow> a \<le> b"
  by (simp add: word_le_nat_alt unat_of_nat)

lemma push_or_add:
  fixes v :: "'a::len word"
  assumes "d < 2 ^ n" shows "push_bit n v OR of_nat d = v * 2 ^ n + of_nat d"
proof -
  have "push_bit n v AND of_nat d = 0"
  proof (rule bit_eqI)
    fix k
    have "\<not> bit d k" if "n \<le> k" using that assms
      by (metis bit_nat_iff bit_take_bit_iff not_le take_bit_nat_eq_self)
    then show "bit (push_bit n v AND of_nat d) k = bit (0 :: 'a word) k"
      by (auto simp: bit_and_iff bit_push_bit_iff bit_of_nat_iff)
  qed
  then have "push_bit n v OR of_nat d = push_bit n v + of_nat d"
    by (simp add: disjunctive_add_eq_or)
  then show ?thesis by (simp add: push_bit_eq_mult)
qed

text \<open>A leading byte: the marker bits and a small payload do not overlap.\<close>

lemma to_byte_marker:
  assumes "d < 2 ^ k" "v * 2 ^ k + d < 256"
  shows "to_byte (push_bit k (of_nat v) OR of_nat d) = char_of (v * 2 ^ k + d)"
proof -
  have "push_bit k (of_nat v) OR of_nat d = (of_nat (v * 2 ^ k + d) :: 32 word)"
    using push_or_add [OF assms(1), of "of_nat v :: 32 word"] by simp
  then show ?thesis
    using assms(2) by (simp only: to_byte_def) (simp add: unat_of_nat del: of_nat_add of_nat_mult)
qed

section \<open>Step relations\<close>

text \<open>
  What the machines of the development share.  \<open>step_invariant\<close> is a step relation with an invariant
  each step keeps.  \<open>resource_owner\<close> adds a release operation and the counts of what is still held:
  released in a quiet state, nothing is left.
\<close>

locale step_invariant =
  fixes step :: "'s \<Rightarrow> 's \<Rightarrow> bool" and inv :: "'s \<Rightarrow> bool"
  assumes preserved: "step s s' \<Longrightarrow> inv s \<Longrightarrow> inv s'"
begin

lemma steps: "step\<^sup>*\<^sup>* s s' \<Longrightarrow> inv s \<Longrightarrow> inv s'"
  by (induction rule: rtranclp_induct) (auto intro: preserved)

end

locale resource_owner = step_invariant step inv
  for step :: "'s \<Rightarrow> 's \<Rightarrow> bool" and inv :: "'s \<Rightarrow> bool" +
  fixes quiet :: "'s \<Rightarrow> bool" and release :: "'s \<Rightarrow> 'r" and held :: "'r \<Rightarrow> int list"
  assumes released: "inv s \<Longrightarrow> quiet s \<Longrightarrow> set (held (release s)) \<subseteq> {0}"
begin

lemma nothing_left: "step\<^sup>*\<^sup>* s s' \<Longrightarrow> inv s \<Longrightarrow> quiet s' \<Longrightarrow> set (held (release s')) \<subseteq> {0}"
  using steps released by blast

end

text \<open>A fold is a run of the steps its function makes.\<close>

definition by_calls :: "('e \<Rightarrow> 's \<Rightarrow> 's) \<Rightarrow> 's \<Rightarrow> 's \<Rightarrow> bool" where
  "by_calls f s s' \<longleftrightarrow> (\<exists>e. s' = f e s)"

lemma fold_by_calls: "(by_calls f)\<^sup>*\<^sup>* s (fold f es s)"
proof (induction es arbitrary: s)
  case (Cons e es)
  have "by_calls f s (f e s)" by (auto simp: by_calls_def)
  then show ?case using Cons [of "f e s"] by (simp add: converse_rtranclp_into_rtranclp)
qed simp

end
