(* ===== verification/Numbers.thy ===== *)
theory Numbers
  imports Prelude
begin

text \<open>
  The numeric conversions of the C and C++ libraries that the engine uses: decimal printing
  (\<^verbatim>\<open>std::to_string\<close>, \<^verbatim>\<open>%lld\<close>), \<^verbatim>\<open>atoi\<close>, binary64 rounding, \<^verbatim>\<open>strtod\<close>, \<^verbatim>\<open>%.17g\<close>, and the
  conversions between \<^verbatim>\<open>double\<close> and the integer types.
\<close>

named_theorems numbers \<open>facts on decimal and binary64 conversions\<close>

section \<open>Decimal integers\<close>

fun dec_digits :: "nat \<Rightarrow> string" where
  "dec_digits n =
     (if n < 10 then [digit_char n] else dec_digits (n div 10) @ [digit_char (n mod 10)])"

declare dec_digits.simps [simp del]

definition num_of :: "string \<Rightarrow> nat" where
  "num_of ds = foldl (\<lambda>a c. a * 10 + digit_val c) 0 ds"

definition to_string :: "int \<Rightarrow> string" where
  "to_string n = (if n < 0 then CHR ''-'' # dec_digits (nat (- n)) else dec_digits (nat n))"

definition sign_split :: "string \<Rightarrow> bool \<times> string" where
  "sign_split s =
     (case s of [] \<Rightarrow> (False, [])
      | c # cs \<Rightarrow> if c = CHR ''-'' then (True, cs) else if c = CHR ''+'' then (False, cs) else (False, s))"

text \<open>\<^verbatim>\<open>atoi(s)\<close> is \<^verbatim>\<open>(int) strtol(s, NULL, 10)\<close>: \<^verbatim>\<open>strtol\<close> saturates at 64 bits, the cast keeps
  the low 32.\<close>

definition wrap32 :: "int \<Rightarrow> int" where
  "wrap32 v = (v + 2 ^ 31) mod 2 ^ 32 - 2 ^ 31"

definition atoi :: "string \<Rightarrow> int" where
  "atoi s =
     (let (neg, s2) = sign_split (dropWhile is_space s);
          n = int (num_of (takeWhile is_digit s2))
      in wrap32 (if neg then max (- (2 ^ 63)) (- n) else min (2 ^ 63 - 1) n))"

lemma num_of_snoc [simp]: "num_of (ds @ [c]) = num_of ds * 10 + digit_val c"
  by (simp add: num_of_def)

lemma num_of_Nil [simp]: "num_of [] = 0"
  by (simp add: num_of_def)

lemma dec_digits_not_Nil [simp]: "dec_digits n \<noteq> []"
  by (subst dec_digits.simps) simp

lemma num_of_dec_digits [simp, numbers]: "num_of (dec_digits n) = n"
proof (induction n rule: dec_digits.induct)
  case (1 n)
  then show ?case
    by (subst dec_digits.simps) (auto simp: num_of_def)
qed

lemma dec_digits_digits: "c \<in> set (dec_digits n) \<Longrightarrow> is_digit c"
proof (induction n rule: dec_digits.induct)
  case (1 n)
  then show ?case
    by (cases "n < 10") (auto simp: dec_digits.simps [of n])
qed

lemma takeWhile_dec_digits [simp]: "takeWhile is_digit (dec_digits n) = dec_digits n"
  and dropWhile_dec_digits [simp]: "dropWhile is_digit (dec_digits n) = []"
  by (simp_all add: dec_digits_digits takeWhile_eq_all_conv)

lemma dec_digits_hd: "\<exists>d ds. dec_digits n = d # ds \<and> is_digit d"
  by (metis dec_digits_digits dec_digits_not_Nil list.exhaust list.set_intros(1))

lemma not_is_digit [simp]:
  "\<not> is_digit (CHR ''-'')" "\<not> is_digit (CHR ''+'')" "\<not> is_digit (CHR ''.'')"
  "\<not> is_digit (CHR ''e'')" "\<not> is_digit (CHR ''E'')"
  by (simp_all add: is_digit_def byte_of_def)

lemma is_digit_not_space: "is_digit c \<Longrightarrow> \<not> is_space c"
  by (auto simp: is_digit_def is_space_def)

lemma sign_split_dec_digits [simp]: "sign_split (dec_digits n) = (False, dec_digits n)"
  using dec_digits_hd [of n] by (auto simp: sign_split_def)

lemma wrap32_small: "- (2 ^ 31) \<le> v \<Longrightarrow> v < 2 ^ 31 \<Longrightarrow> wrap32 v = v"
  by (simp add: wrap32_def)

lemma wrap32_range: "- (2 ^ 31) \<le> wrap32 v \<and> wrap32 v < 2 ^ 31"
  using pos_mod_bound [of "2 ^ 32" "v + 2 ^ 31"] pos_mod_sign [of "2 ^ 32" "v + 2 ^ 31"]
  unfolding wrap32_def by (simp del: pos_mod_bound pos_mod_sign)

lemma atoi_range: "- (2 ^ 31) \<le> atoi s \<and> atoi s < 2 ^ 31"
  unfolding atoi_def Let_def case_prod_beta by (rule wrap32_range)

lemma dropWhile_space_dec [simp]: "dropWhile is_space (dec_digits n) = dec_digits n"
  using dec_digits_hd [of n] by (auto dest: is_digit_not_space)

lemma atoi_dec_digits [numbers]: "n < 2 ^ 31 \<Longrightarrow> atoi (dec_digits n) = int n"
  by (simp add: atoi_def wrap32_small)

lemma to_string_not_Nil [simp]: "to_string n \<noteq> []"
  by (simp add: to_string_def)

lemma atoi_to_string [numbers]:
  assumes "- (2 ^ 31) \<le> n" "n < 2 ^ 31"
  shows "atoi (to_string n) = n"
proof (cases "n < 0")
  case True
  then have "sign_split (dropWhile is_space (to_string n)) = (True, dec_digits (nat (- n)))"
    by (simp add: to_string_def sign_split_def is_space_def byte_of_def)
  with True assms show ?thesis
    by (simp add: atoi_def wrap32_small)
next
  case False
  with assms show ?thesis by (simp add: to_string_def atoi_dec_digits)
qed

section \<open>Binary64\<close>

datatype double = Fin rat | PInf | NInf

definition ilog2 :: "rat \<Rightarrow> int" where
  "ilog2 x =
     (let (n, d) = quotient_of x; k = bitlen n - bitlen d
      in if 2 powi k \<le> x then k else k - 1)"

definition round_half_even :: "rat \<Rightarrow> int" where
  "round_half_even x =
     (let f = \<lfloor>x\<rfloor>; r = x - of_int f
      in if r < 1 / 2 then f else if 1 / 2 < r then f + 1 else if even f then f else f + 1)"

definition ulp_exp :: "rat \<Rightarrow> int" where
  "ulp_exp x = max (ilog2 \<bar>x\<bar> - 52) (- 1074)"

definition round_double :: "rat \<Rightarrow> double" where
  "round_double x =
     (if x = 0 then Fin 0
      else let y = of_int (round_half_even (x / 2 powi ulp_exp x)) * 2 powi ulp_exp x
           in if \<bar>y\<bar> < 2 ^ 1024 then Fin y else if 0 < x then PInf else NInf)"

definition double_of_int :: "int \<Rightarrow> double" where
  "double_of_int n = round_double (of_int n)"

text \<open>\<^verbatim>\<open>strtod(tok, &end)\<close> followed by the sources' test that \<^verbatim>\<open>end\<close> is the end of the token:
  the whole token must be a decimal floating literal.\<close>

definition strtod_exp :: "string \<Rightarrow> int option" where
  "strtod_exp s =
     (case s of [] \<Rightarrow> Some 0
      | c # cs \<Rightarrow>
          if c = CHR ''e'' \<or> c = CHR ''E'' then
            (let (neg, ds) = sign_split cs
             in if ds = [] \<or> \<not> list_all is_digit ds then None
                else Some (if neg then - int (num_of ds) else int (num_of ds)))
          else None)"

definition strtod_full :: "string \<Rightarrow> double option" where
  "strtod_full tok =
     (let (neg, s1) = sign_split tok;
          ip = takeWhile is_digit s1;
          s2 = dropWhile is_digit s1;
          (fp, s3) = (case s2 of [] \<Rightarrow> ([], [])
                      | c # cs \<Rightarrow> if c = CHR ''.'' then (takeWhile is_digit cs, dropWhile is_digit cs)
                                   else ([], s2))
      in if ip = [] \<and> fp = [] then None
         else (case strtod_exp s3 of None \<Rightarrow> None
               | Some e \<Rightarrow>
                   let m = rat_of_nat (num_of (ip @ fp)) * 10 powi (e - int (length fp))
                   in Some (round_double (if neg then - m else m))))"

text \<open>\<^verbatim>\<open>static_cast<int>\<close> and \<^verbatim>\<open>static_cast<uint64_t>\<close> of a double: truncation towards zero.\<close>

definition trunc :: "rat \<Rightarrow> int" where
  "trunc x = (if 0 \<le> x then \<lfloor>x\<rfloor> else \<lceil>x\<rceil>)"

fun cast_int :: "double \<Rightarrow> int" where
  "cast_int (Fin x) = (if - (2 ^ 31) \<le> trunc x \<and> trunc x < 2 ^ 31 then trunc x else - (2 ^ 31))"
| "cast_int _ = - (2 ^ 31)"

fun cast_i64 :: "double \<Rightarrow> int" where
  "cast_i64 (Fin x) = (if - (2 ^ 63) \<le> trunc x \<and> trunc x < 2 ^ 63 then trunc x else - (2 ^ 63))"
| "cast_i64 _ = - (2 ^ 63)"

text \<open>For an unsigned target the generated code converts values below \<open>2 ^ 63\<close> as signed ones and
  shifts larger values down first.\<close>

fun cast_u64 :: "double \<Rightarrow> 64 word" where
  "cast_u64 (Fin x) =
     (if x < 2 ^ 63 then word_of_int (cast_i64 (Fin x))
      else word_of_int (cast_i64 (Fin (x - 2 ^ 63))) + 2 ^ 63)"
| "cast_u64 PInf = word_of_int (- (2 ^ 63)) + 2 ^ 63"
| "cast_u64 NInf = word_of_int (- (2 ^ 63))"

section \<open>Printing a double with seventeen significant digits\<close>

definition ilog10 :: "rat \<Rightarrow> int" where
  "ilog10 x =
     (let (n, d) = quotient_of x;
          k = int (length (dec_digits (nat n))) - int (length (dec_digits (nat d)))
      in if 10 powi k \<le> x then k else k - 1)"

definition strip_zeros :: "string \<Rightarrow> string" where
  "strip_zeros ds = rev (dropWhile (\<lambda>c. c = CHR ''0'') (rev ds))"

definition with_point :: "string \<Rightarrow> string \<Rightarrow> string" where
  "with_point ip fp = (let f = strip_zeros fp in ip @ (if f = [] then [] else CHR ''.'' # f))"

definition exp_suffix :: "int \<Rightarrow> string" where
  "exp_suffix e =
     (let ds = dec_digits (nat \<bar>e\<bar>)
      in CHR ''e'' # (if e < 0 then CHR ''-'' else CHR ''+'') # (if length ds < 2 then CHR ''0'' # ds else ds))"

text \<open>Seventeen digits and the decimal exponent of the leading one.\<close>

definition digits17 :: "rat \<Rightarrow> nat \<times> int" where
  "digits17 x =
     (let e = ilog10 x; m = nat (round_half_even (x / 10 powi (e - 16)))
      in if m = 10 ^ 17 then (10 ^ 16, e + 1) else (m, e))"

definition fmt_pos :: "rat \<Rightarrow> string" where
  "fmt_pos x =
     (let (m, e) = digits17 x; ds = dec_digits m
      in if e < - 4 \<or> 17 \<le> e then with_point (take 1 ds) (drop 1 ds) @ exp_suffix e
         else if 0 \<le> e then with_point (take (nat e + 1) ds) (drop (nat e + 1) ds)
         else with_point ''0'' (replicate (nat (- e) - 1) (CHR ''0'') @ ds))"

fun fmt_g17 :: "double \<Rightarrow> string" where
  "fmt_g17 (Fin x) = (if x = 0 then ''0'' else if x < 0 then CHR ''-'' # fmt_pos (- x) else fmt_pos x)"
| "fmt_g17 PInf = ''inf''"
| "fmt_g17 NInf = ''-inf''"

section \<open>Integers survive the round trip through binary64\<close>


lemma power_int_mono_iff2: fixes i j :: int shows "(2::rat) powi i \<le> 2 powi j \<longleftrightarrow> i \<le> j"
  by (meson linorder_not_le one_less_numeral_iff power_int_increasing power_int_strict_increasing semiring_norm(76) order.strict_iff_not less_imp_le)

lemma rat_pos_quotient:
  assumes "0 < x" "quotient_of x = (n, d)"
  shows "0 < n" "0 < d" "x = of_int n / of_int d"
proof -
  show d: "0 < d" using assms(2) by (rule quotient_of_denom_pos)
  show x: "x = of_int n / of_int d" using assms(2) by (rule quotient_of_div)
  show "0 < n" using assms(1) d unfolding x by (simp add: zero_less_divide_iff)
qed

lemma bitlen_powi:
  assumes "0 < n"
  shows "(2::rat) powi (bitlen n - 1) \<le> of_int n" "(of_int n :: rat) < 2 powi bitlen n"
proof -
  have b: "0 < bitlen n" using assms by (simp add: bitlen_nonneg order_less_le bitlen_eq_zero_iff)
  have lo: "2 ^ nat (bitlen n - 1) \<le> n" and hi: "n < 2 ^ nat (bitlen n)"
    using bitlen_bounds [OF assms] by auto
  show "(2::rat) powi (bitlen n - 1) \<le> of_int n"
  proof -
    have "rat_of_int (2 ^ nat (bitlen n - 1)) \<le> of_int n" using lo by (simp only: of_int_le_iff)
    then show ?thesis using b by (simp add: power_int_def)
  qed
  show "(of_int n :: rat) < 2 powi bitlen n"
  proof -
    have "rat_of_int n < of_int (2 ^ nat (bitlen n))" using hi by (simp only: of_int_less_iff)
    then show ?thesis using b by (simp add: power_int_def)
  qed
qed

text \<open>Digit counts of numerator and denominator bracket the magnitude of a quotient.\<close>

lemma quotient_log_bounds:
  fixes b n d :: rat
  assumes "1 < b" "0 < n" "0 < d"
    and "b powi (nl - 1) \<le> n" "n < b powi nl" "b powi (dl - 1) \<le> d" "d < b powi dl"
  shows "b powi (nl - dl - 1) \<le> n / d" "n / d < b powi (nl - dl + 1)"
proof -
  have b: "b \<noteq> 0" "0 < b" using assms(1) by auto
  have "b powi (nl - dl - 1) = b powi (nl - 1) / b powi dl"
    by (simp add: b flip: power_int_diff) (simp add: algebra_simps)
  also have "\<dots> \<le> n / d" using assms b by (intro frac_le) auto
  finally show "b powi (nl - dl - 1) \<le> n / d" .
  have "n / d < b powi nl / b powi (dl - 1)" using assms b by (intro frac_less) auto
  also have "\<dots> = b powi (nl - dl + 1)"
    by (simp add: b flip: power_int_diff) (simp add: algebra_simps)
  finally show "n / d < b powi (nl - dl + 1)" .
qed

lemma ilog2_bounds:
  assumes "0 < x"
  shows "2 powi ilog2 x \<le> x" "x < 2 powi (ilog2 x + 1)"
proof -
  obtain n d where q: "quotient_of x = (n, d)" by (cases "quotient_of x")
  note nd = rat_pos_quotient [OF assms q]
  define k where "k = bitlen n - bitlen d"
  have "2 powi (k - 1) \<le> x" "x < 2 powi (k + 1)"
    using quotient_log_bounds [of 2 "of_int n" "of_int d"] bitlen_powi [OF nd(1)] bitlen_powi [OF nd(2)] nd
    by (auto simp: k_def nd(3))
  then show "2 powi ilog2 x \<le> x" "x < 2 powi (ilog2 x + 1)"
    by (auto simp: ilog2_def q Let_def k_def)
qed

lemma round_half_even_int [simp]: "round_half_even (of_int k) = k"
  by (simp add: round_half_even_def)

lemma round_double_int [numbers]:
  assumes "\<bar>n\<bar> < 2 ^ 53"
  shows "round_double (of_int n) = Fin (of_int n)"
proof (cases "n = 0")
  case True
  then show ?thesis by (simp add: round_double_def)
next
  case False
  define e where "e = ulp_exp (of_int n)"
  have pos: "0 < \<bar>rat_of_int n\<bar>" using False by simp
  have "2 powi ilog2 \<bar>rat_of_int n\<bar> < (2::rat) powi 53"
  proof -
    have "2 powi ilog2 \<bar>rat_of_int n\<bar> \<le> \<bar>rat_of_int n\<bar>" by (rule ilog2_bounds(1) [OF pos])
    also have "\<dots> < rat_of_int (2 ^ 53)" using assms by (simp only: of_int_less_iff flip: of_int_abs)
    also have "\<dots> = 2 ^ 53" by simp
    finally show ?thesis by (simp add: power_int_def)
  qed
  then have "ilog2 \<bar>rat_of_int n\<bar> \<le> 52"
    using power_int_mono_iff2 [of 53 "ilog2 \<bar>rat_of_int n\<bar>"] by linarith
  then have e0: "e \<le> 0" by (simp add: e_def ulp_exp_def)
  have "(2::rat) powi e = inverse (2 ^ nat (- e))"
    using e0 by (cases "e = 0") (auto simp: power_int_def power_one_over inverse_eq_divide)
  then have scaled: "rat_of_int n / 2 powi e = of_int (n * 2 ^ nat (- e))"
    by (simp add: divide_inverse)
  have unscaled: "rat_of_int (n * 2 ^ nat (- e)) * 2 powi e = of_int n"
    using scaled by (metis nonzero_eq_divide_eq power_int_not_zero zero_neq_numeral)
  have "\<bar>rat_of_int n\<bar> < 2 ^ 1024"
  proof -
    have "\<bar>rat_of_int n\<bar> < rat_of_int (2 ^ 53)" using assms by (simp only: of_int_less_iff flip: of_int_abs)
    also have "\<dots> < 2 ^ 1024" by simp
    finally show ?thesis .
  qed
  then show ?thesis
    using False unfolding round_double_def e_def [symmetric]
    by (simp only: scaled round_half_even_int unscaled Let_def) simp
qed

lemma strtod_to_string [numbers]:
  assumes "\<bar>n\<bar> < 2 ^ 53"
  shows "strtod_full (to_string n) = Some (Fin (of_int n))"
proof -
  have r: "round_double (of_int n) = Fin (of_int n)" using assms by (rule round_double_int)
  show ?thesis
  proof (cases "n < 0")
    case True
    then have "sign_split (to_string n) = (True, dec_digits (nat (- n)))"
      by (simp add: to_string_def sign_split_def)
    with True r show ?thesis by (simp add: strtod_full_def strtod_exp_def of_nat_nat)
  next
    case False
    with r show ?thesis by (simp add: to_string_def strtod_full_def strtod_exp_def of_nat_nat)
  qed
qed

lemma trunc_of_int [simp]: "trunc (of_int n) = n"
  by (simp add: trunc_def)

lemma cast_int_of_int [numbers]: "- (2 ^ 31) \<le> n \<Longrightarrow> n < 2 ^ 31 \<Longrightarrow> cast_int (Fin (of_int n)) = n"
  by simp

lemma cast_int_range: "- (2 ^ 31) \<le> cast_int d \<and> cast_int d < 2 ^ 31"
  by (cases d) auto

lemma double_of_int_small [numbers]: "\<bar>n\<bar> < 2 ^ 53 \<Longrightarrow> double_of_int n = Fin (of_int n)"
  by (simp add: double_of_int_def round_double_int)

lemma cast_int_double_of_int [numbers]:
  "- (2 ^ 31) \<le> n \<Longrightarrow> n < 2 ^ 31 \<Longrightarrow> cast_int (double_of_int n) = n"
  by (simp add: double_of_int_small)

lemma cast_u64_of_nat [numbers]: "n < 2 ^ 63 \<Longrightarrow> cast_u64 (Fin (of_nat n)) = of_nat n"
proof -
  assume n: "n < 2 ^ 63"
  then have "rat_of_nat n < rat_of_nat (2 ^ 63)" by (simp only: of_nat_less_iff)
  then have "rat_of_nat n < 2 ^ 63" by simp
  moreover have "trunc (rat_of_nat n) = int n" by (metis of_int_of_nat_eq trunc_of_int)
  ultimately show ?thesis using n by simp
qed

section \<open>Seventeen digits determine a binary64 value\<close>

lemma powi_2_add_nat: "(2::rat) powi (e + int k) = 2 ^ k * 2 powi e"
  by (simp add: power_int_add mult.commute)

lemma ulp_exp_upper:
  assumes "0 < x" shows "x < 2 powi (ulp_exp x + 53)"
proof -
  have "x < 2 powi (ilog2 x + 1)" using ilog2_bounds(2) [OF assms] .
  also have "\<dots> \<le> 2 powi (ulp_exp x + 53)"
    using assms by (subst power_int_mono_iff2) (simp add: ulp_exp_def)
  finally show ?thesis .
qed

lemma ulp_exp_lower:
  assumes "0 < x" "- 1074 < ulp_exp x" shows "2 powi (ulp_exp x + 52) \<le> x"
proof -
  have "ulp_exp x + 52 = ilog2 x" using assms by (auto simp: ulp_exp_def)
  then show ?thesis using ilog2_bounds(1) [OF assms(1)] by simp
qed

lemma ulp_exp_ge: "- 1074 \<le> ulp_exp x"
  by (simp add: ulp_exp_def)

lemma ulp_exp_le:
  assumes "0 < x" "x < 2 powi (e + 53)" "- 1074 \<le> e" shows "ulp_exp x \<le> e"
proof (rule ccontr)
  assume "\<not> ulp_exp x \<le> e"
  then have "2 powi (ulp_exp x + 52) \<le> x" using ulp_exp_lower assms by auto
  moreover have "(2::rat) powi (e + 53) \<le> 2 powi (ulp_exp x + 52)"
    using \<open>\<not> ulp_exp x \<le> e\<close> by (subst power_int_mono_iff2) simp
  ultimately show False using assms(2) by simp
qed

lemma ulp_exp_ge_if:
  assumes "0 < x" "2 powi (e + 52) \<le> x" shows "e \<le> ulp_exp x"
proof (rule ccontr)
  assume "\<not> e \<le> ulp_exp x"
  then have "(2::rat) powi (ulp_exp x + 53) \<le> 2 powi (e + 52)"
    by (subst power_int_mono_iff2) simp
  then show False using ulp_exp_upper [OF assms(1)] assms(2) by simp
qed

lemma round_half_even_near:
  assumes "\<bar>x - of_int k\<bar> < 1 / 2" shows "round_half_even x = k"
proof -
  have "\<lfloor>x\<rfloor> = k \<or> \<lfloor>x\<rfloor> = k - 1"
    using assms by linarith
  then show ?thesis
    using assms by (auto simp: round_half_even_def Let_def abs_if split: if_splits)
qed

text \<open>A representable positive number is an integral multiple of its unit in the last place.\<close>

lemma round_double_fixed:
  assumes "0 < x" "round_double x = Fin x"
  obtains M where "x = of_int M * 2 powi ulp_exp x" "0 < M" "M < 2 ^ 53" "x < 2 ^ 1024"
proof -
  define M where "M = round_half_even (x / 2 powi ulp_exp x)"
  have x: "x = of_int M * 2 powi ulp_exp x" and b: "x < 2 ^ 1024"
    using assms by (auto simp: round_double_def M_def Let_def split: if_splits)
  have "0 < of_int M * (2::rat) powi ulp_exp x" using assms(1) x by simp
  then have "0 < M" using zero_less_mult_pos2 [of "rat_of_int M" "2 powi ulp_exp x"] by simp
  have "of_int M * (2::rat) powi ulp_exp x < 2 ^ 53 * 2 powi ulp_exp x"
    using ulp_exp_upper [OF assms(1)] x powi_2_add_nat [of "ulp_exp x" 53] by simp
  then have "rat_of_int M < rat_of_int (2 ^ 53)" by simp
  then have "M < 2 ^ 53" by (simp only: of_int_less_iff)
  with x b \<open>0 < M\<close> show thesis by (intro that)
qed

lemma round_double_scaled:
  assumes "0 < y" "ulp_exp y = e" "\<bar>y - of_int M * 2 powi e\<bar> < 2 powi e / 2"
    "of_int M * 2 powi e < (2::rat) ^ 1024" "0 < M"
  shows "round_double y = Fin (of_int M * 2 powi e)"
proof -
  have "y / 2 powi e - of_int M = (y - of_int M * 2 powi e) / 2 powi e"
    by (simp add: diff_divide_distrib)
  then have "\<bar>y / 2 powi e - of_int M\<bar> = \<bar>y - of_int M * 2 powi e\<bar> / 2 powi e"
    by (simp add: abs_divide)
  also have "\<dots> < 1 / 2"
    using assms(3) by (simp add: divide_less_eq)
  finally have "round_half_even (y / 2 powi e) = M" by (rule round_half_even_near)
  then show ?thesis
    using assms by (simp add: round_double_def)
qed


text \<open>Just below a power of two the spacing of the representable numbers halves.\<close>

lemma round_double_below:
  assumes p: "p = 2 powi e" and x: "x = 2 ^ 52 * p" "x < 2 ^ 1024"
    and y: "0 < y" "\<bar>y - x\<bar> < p / 4" "ulp_exp y < e"
  shows "round_double y = Fin x"
proof -
  have p0: "0 < p" by (simp add: p)
  have half: "2 powi (e - 1) = p / 2" by (simp add: p power_int_diff)
  have "2 powi (e - 1 + int 52) = 2 ^ 52 * (p / 2)" by (simp only: powi_2_add_nat half)
  moreover have "x < y + p" using y(2) p0 by linarith
  then have "2 ^ 52 * (p / 2) \<le> y" using p0 by (simp add: x(1))
  ultimately have "2 powi (e - 1 + 52) \<le> y" by simp
  then have e1: "ulp_exp y = e - 1" using ulp_exp_ge_if [OF y(1), of "e - 1"] y(3) by simp
  show ?thesis
    using round_double_scaled [OF y(1) e1, of "2 ^ 53"] y(2) x by (simp add: half)
qed

text \<open>A number within \<open>x / (2 * 10 ^ 16)\<close> of a representable \<open>x\<close> is rounded back to \<open>x\<close>: seventeen
  significant digits determine a binary64 value.\<close>

lemma round_double_near:
  assumes x: "0 < x" "round_double x = Fin x" and y: "\<bar>y - x\<bar> \<le> x / (2 * 10 ^ 16)"
  shows "round_double y = Fin x"
proof -
  define e where "e = ulp_exp x"
  define p where "p = (2::rat) powi e"
  have p: "0 < p" by (simp add: p_def)
  obtain M where M: "x = of_int M * p" "0 < M" "M < 2 ^ 53" "x < 2 ^ 1024"
    using round_double_fixed [OF x] unfolding e_def p_def by metis
  have scale: "2 powi (e + int k) = 2 ^ k * p" for k
    by (simp add: p_def powi_2_add_nat)
  have "x < 2 ^ 53 * p"
    using ulp_exp_upper [OF x(1)] scale [of 53] by (simp add: e_def)
  then have "x / (2 * 10 ^ 16) < p * (46 / 100)" using p by simp
  then have d: "\<bar>y - x\<bar> < p * (46 / 100)" using y by linarith
  have "x \<ge> p" using M(1,2) p by simp
  then have y0: "0 < y" using d p by linarith
  have "rat_of_int M \<le> rat_of_int (2 ^ 53 - 1)" using M(3) by (simp only: of_int_le_iff)
  then have "x \<le> (2 ^ 53 - 1) * p" using M(1) p by simp
  then have "x + p \<le> 2 ^ 53 * p" by (simp add: left_diff_distrib)
  moreover have near: "y < x + p" "x < y + p" using d p by linarith+
  ultimately have "y < 2 ^ 53 * p" by (meson order.strict_trans2)
  then have le: "ulp_exp y \<le> e"
    using ulp_exp_le [OF y0, of e] scale [of 53] ulp_exp_ge [of x] by (simp add: e_def)
  show ?thesis
  proof (cases "ulp_exp y = e")
    case True
    have "\<bar>y - x\<bar> < p / 2" using d p by linarith
    then show ?thesis
      using round_double_scaled [OF y0 True, of M] M by (simp add: p_def)
  next
    case False
    with le have lt: "ulp_exp y < e" by simp
    then have "- 1074 < ulp_exp x" using ulp_exp_ge [of y] by (simp add: e_def)
    then have x52: "2 ^ 52 * p \<le> x" using ulp_exp_lower [OF x(1)] scale [of 52] by (simp add: e_def)
    have y52: "y < 2 ^ 52 * p" using ulp_exp_ge_if [OF y0, of e] scale [of 52] lt by (cases "2 ^ 52 * p \<le> y") auto
    have "of_int M * p < (2 ^ 52 + 1) * p"
      using y52 near(2) by (simp add: M(1) [symmetric] distrib_right)
    then have "rat_of_int M < rat_of_int (2 ^ 52 + 1)" using p by simp
    then have "M < 2 ^ 52 + 1" by (simp only: of_int_less_iff)
    moreover have "rat_of_int (2 ^ 52) \<le> rat_of_int M" using x52 p by (simp add: M(1))
    then have "2 ^ 52 \<le> M" by (simp only: of_int_le_iff)
    ultimately have Meq: "M = 2 ^ 52" by simp
    have "\<bar>y - x\<bar> < p / 4" using y p by (simp add: M(1) Meq)
    then show ?thesis
      using round_double_below [OF p_def _ M(4) y0 _ lt] M(1) Meq by simp
  qed
qed



lemma num_of_Cons: "num_of (c # ds) = digit_val c * 10 ^ length ds + num_of ds"
proof (induction ds rule: rev_induct)
  case Nil
  then show ?case by (simp add: num_of_def)
next
  case (snoc d ds)
  have "num_of (c # ds @ [d]) = num_of (c # ds) * 10 + digit_val d"
    by (metis append_Cons num_of_snoc)
  then show ?case by (simp add: snoc algebra_simps)
qed

lemma num_of_append: "num_of (a @ b) = num_of a * 10 ^ length b + num_of b"
  by (induction a) (simp_all add: num_of_Cons power_add algebra_simps)

lemma num_of_zeros [simp]: "num_of (replicate k (CHR ''0'')) = 0"
  by (induction k) (simp_all add: num_of_Cons digit_val_def byte_of_def)

lemma dec_digits_bounds:
  assumes "0 < n"
  shows "10 ^ (length (dec_digits n) - 1) \<le> n \<and> n < 10 ^ length (dec_digits n)"
  using assms
proof (induction n rule: dec_digits.induct)
  case (1 n)
  show ?case
  proof (cases "n < 10")
    case True
    with 1 show ?thesis by (simp add: dec_digits.simps [of n])
  next
    case False
    define l where "l = length (dec_digits (n div 10))"
    have "0 < l" by (simp add: l_def)
    from False 1 have b: "10 ^ (l - 1) \<le> n div 10" "n div 10 < 10 ^ l" by (simp_all add: l_def)
    have "length (dec_digits n) = Suc l" using False by (simp add: dec_digits.simps [of n] l_def)
    moreover have "10 ^ l \<le> n"
    proof -
      have "(10::nat) ^ l = 10 * 10 ^ (l - 1)" using \<open>0 < l\<close> by (cases l) auto
      then show ?thesis using b(1) by linarith
    qed
    moreover have "n < 10 ^ Suc l" using b(2) by (simp add: div_less_iff_less_mult)
    ultimately show ?thesis by simp
  qed
qed

lemma dec_digits_powi:
  assumes "0 < n"
  shows "(10::rat) powi (int (length (dec_digits n)) - 1) \<le> of_nat n"
    "(of_nat n :: rat) < 10 powi int (length (dec_digits n))"
proof -
  note b = dec_digits_bounds [OF assms]
  have lo: "rat_of_nat (10 ^ (length (dec_digits n) - 1)) \<le> of_nat n"
    using b by (simp only: of_nat_le_iff)
  have hi: "rat_of_nat n < rat_of_nat (10 ^ length (dec_digits n))"
    using b by (simp only: of_nat_less_iff)
  have eq: "int (length (dec_digits n)) - 1 = int (length (dec_digits n) - 1)"
    by (cases "dec_digits n") simp_all
  show "(10::rat) powi (int (length (dec_digits n)) - 1) \<le> of_nat n"
    unfolding eq using lo by (simp only: power_int_of_nat of_nat_power of_nat_numeral)
  show "(of_nat n :: rat) < 10 powi int (length (dec_digits n))" using hi by simp
qed

lemma ilog10_bounds:
  assumes "0 < x"
  shows "10 powi ilog10 x \<le> x" "x < 10 powi (ilog10 x + 1)"
proof -
  obtain n d where q: "quotient_of x = (n, d)" by (cases "quotient_of x")
  note nd = rat_pos_quotient [OF assms q]
  have "0 < nat n" "0 < nat d" using nd by auto
  note bounds = dec_digits_powi [OF this(1)] dec_digits_powi [OF this(2)]
  define k where "k = int (length (dec_digits (nat n))) - int (length (dec_digits (nat d)))"
  have "10 powi (k - 1) \<le> x" "x < 10 powi (k + 1)"
    using quotient_log_bounds [of 10 "of_int n" "of_int d"] bounds nd
    by (auto simp: k_def nd(3))
  then show "10 powi ilog10 x \<le> x" "x < 10 powi (ilog10 x + 1)"
    by (auto simp: ilog10_def q Let_def k_def)
qed

lemma round_half_even_dist: "\<bar>of_int (round_half_even x) - x\<bar> \<le> 1 / 2"
proof -
  define f where "f = rat_of_int \<lfloor>x\<rfloor>"
  have "f \<le> x" "x < f + 1" unfolding f_def by linarith+
  then show ?thesis by (simp add: round_half_even_def Let_def abs_if flip: f_def) linarith?
qed

lemma round_half_even_ge: "of_int k \<le> x \<Longrightarrow> k \<le> round_half_even x"
  by (auto simp: round_half_even_def Let_def le_floor_iff add_increasing2)

lemma round_half_even_le: "x \<le> of_int k \<Longrightarrow> round_half_even x \<le> k"
proof -
  assume "x \<le> of_int k"
  moreover have "of_int (round_half_even x) - x \<le> 1 / 2"
    using round_half_even_dist by (rule abs_le_D1)
  ultimately have "rat_of_int (round_half_even x) < of_int (k + 1)" by simp
  then have "round_half_even x < k + 1" by (simp only: of_int_less_iff)
  then show ?thesis by simp
qed

lemma digits17_spec:
  assumes "0 < x" "digits17 x = (m, e)"
  shows "length (dec_digits m) = 17" "\<bar>of_nat m * 10 powi (e - 16) - x\<bar> \<le> x / (2 * 10 ^ 16)"
proof -
  define E where "E = ilog10 x"
  define q where "q = (10::rat) powi (E - 16)"
  define r where "r = round_half_even (x / q)"
  have q: "0 < q" by (simp add: q_def)
  have scale: "10 powi (E - 16 + int k) = 10 ^ k * q" for k
    by (simp add: q_def power_int_add mult.commute)
  have lo: "10 ^ 16 * q \<le> x" and hi: "x < 10 ^ 17 * q"
    using ilog10_bounds [OF assms(1)] scale [of 16] scale [of 17] by (simp_all add: E_def algebra_simps)
  have "of_int (10 ^ 16) \<le> x / q" using lo q by (simp add: le_divide_eq)
  then have r_lo: "10 ^ 16 \<le> r" unfolding r_def by (rule round_half_even_ge)
  have "x / q \<le> of_int (10 ^ 17)" using hi q by (simp add: divide_le_eq)
  then have r_hi: "r \<le> 10 ^ 17" unfolding r_def by (rule round_half_even_le)
  have "\<bar>of_int r - x / q\<bar> \<le> 1 / 2" unfolding r_def by (rule round_half_even_dist)
  then have "\<bar>of_int r - x / q\<bar> * q \<le> 1 / 2 * q" using q by (intro mult_right_mono) auto
  moreover have "\<bar>of_int r - x / q\<bar> * q = \<bar>of_int r * q - x\<bar>"
  proof -
    have "(of_int r - x / q) * q = of_int r * q - x" using q by (simp add: left_diff_distrib)
    then show ?thesis using q by (metis abs_mult abs_of_pos)
  qed
  ultimately have dist: "\<bar>of_int r * q - x\<bar> \<le> x / (2 * 10 ^ 16)" using lo by simp
  have me: "(m, e) = (if nat r = 10 ^ 17 then (10 ^ 16, E + 1) else (nat r, E))"
    using assms(2) by (auto simp: digits17_def Let_def E_def q_def r_def split: if_splits)
  have m_b: "10 ^ 16 \<le> m \<and> m < 10 ^ 17"
    using me r_lo r_hi by (auto split: if_splits)
  have "rat_of_nat m * 10 powi (e - 16) = of_int r * q"
  proof (cases "nat r = 10 ^ 17")
    case True
    then have "r = 10 ^ 17" using r_lo by simp
    moreover have "10 powi (e - 16) = 10 * q" "m = 10 ^ 16"
      using True me scale [of 1] by (simp_all add: algebra_simps)
    ultimately show ?thesis by simp
  next
    case False
    with me r_lo show ?thesis by (simp add: q_def)
  qed
  with dist show "\<bar>of_nat m * 10 powi (e - 16) - x\<bar> \<le> x / (2 * 10 ^ 16)" by simp
  show "length (dec_digits m) = 17"
  proof -
    have b: "10 ^ (length (dec_digits m) - 1) \<le> m" "m < 10 ^ length (dec_digits m)"
      using dec_digits_bounds [of m] m_b by auto
    have "(10::nat) ^ (length (dec_digits m) - 1) < 10 ^ 17" using b(1) m_b by linarith
    then have "length (dec_digits m) - 1 < 17" by (simp only: power_strict_increasing_iff)
    moreover have "(10::nat) ^ 16 < 10 ^ length (dec_digits m)" using b(2) m_b by linarith
    then have "16 < length (dec_digits m)" by (simp only: power_strict_increasing_iff)
    ultimately show ?thesis by linarith
  qed
qed

lemma strip_zeros_split: "\<exists>k. fp = strip_zeros fp @ replicate k (CHR ''0'')"
proof -
  let ?P = "\<lambda>c. c = CHR ''0''"
  have "rev fp = takeWhile ?P (rev fp) @ dropWhile ?P (rev fp)" by simp
  then have "fp = strip_zeros fp @ rev (takeWhile ?P (rev fp))"
    unfolding strip_zeros_def by (metis rev_append rev_rev_ident)
  moreover have "takeWhile ?P (rev fp) = replicate (length (takeWhile ?P (rev fp))) (CHR ''0'')"
    by (rule replicate_eqI [symmetric, THEN sym]) (auto dest: set_takeWhileD)
  ultimately show ?thesis by (metis rev_replicate)
qed

lemma strtod_exp_suffix: "strtod_exp (exp_suffix e) = Some e"
proof -
  define ds where "ds = dec_digits (nat \<bar>e\<bar>)"
  define ds' where "ds' = (if length ds < 2 then CHR ''0'' # ds else ds)"
  have "is_digit (CHR ''0'')" "digit_val (CHR ''0'') = 0"
    by (simp_all add: is_digit_def digit_val_def byte_of_def)
  then have "num_of ds' = nat \<bar>e\<bar>" "ds' \<noteq> []" "list_all is_digit ds'"
    by (auto simp: ds'_def ds_def num_of_Cons list_all_iff dec_digits_digits)
  then show ?thesis
    by (simp add: exp_suffix_def strtod_exp_def sign_split_def Let_def flip: ds_def ds'_def)
qed

text \<open>Reading a literal with a point: \<open>sfx\<close> is the exponent part.\<close>

lemma strtod_with_point:
  assumes ip: "ip \<noteq> []" "\<forall>c\<in>set ip. is_digit c" and fp: "\<forall>c\<in>set fp. is_digit c"
    and sfx: "strtod_exp sfx = Some e" "sfx = [] \<or> \<not> is_digit (hd sfx) \<and> hd sfx \<noteq> CHR ''.''"
  shows "strtod_full (with_point ip fp @ sfx) =
           Some (round_double (of_nat (num_of (ip @ fp)) * 10 powi (e - int (length fp))))"
proof -
  define f where "f = strip_zeros fp"
  obtain k where k: "fp = f @ replicate k (CHR ''0'')" unfolding f_def using strip_zeros_split by blast
  have f: "\<forall>c\<in>set f. is_digit c" using fp k by auto
  have val: "rat_of_nat (num_of (ip @ f)) * 10 powi (e - int (length f)) =
      of_nat (num_of (ip @ fp)) * 10 powi (e - int (length fp))"
  proof -
    have "num_of (ip @ fp) = num_of (ip @ f) * 10 ^ k"
      by (simp add: k num_of_append power_add algebra_simps)
    moreover have "(10::rat) powi (e - int (length f)) = 10 ^ k * 10 powi (e - int (length fp))"
      by (simp add: k power_int_diff power_int_add)
    ultimately show ?thesis by simp
  qed
  have sg: "sign_split (ip @ r) = (False, ip @ r)" for r
    using ip by (cases ip) (auto simp: sign_split_def)
  have tw: "takeWhile is_digit (ds @ sfx) = ds" "dropWhile is_digit (ds @ sfx) = sfx"
    if "\<forall>c\<in>set ds. is_digit c" for ds
    using that sfx(2) by (cases sfx; auto simp: takeWhile_append2 dropWhile_append2)+
  show ?thesis
  proof (cases "f = []")
    case True
    with sfx have pt: "(case sfx of [] \<Rightarrow> ([], []) | c # cs \<Rightarrow> if c = CHR ''.'' then x c cs else ([], sfx)) = ([], sfx)" for x
      by (cases sfx) auto
    show ?thesis
      using True val ip sfx(1)
      by (simp add: with_point_def flip: f_def) (simp add: strtod_full_def sg tw [OF ip(2)] pt)
  next
    case False
    have "takeWhile is_digit (ip @ CHR ''.'' # r) = ip" "dropWhile is_digit (ip @ CHR ''.'' # r) = CHR ''.'' # r" for r
      using ip by (simp_all add: takeWhile_append2 dropWhile_append2)
    with False val ip sfx(1) show ?thesis
      by (simp add: with_point_def flip: f_def) (simp add: strtod_full_def sg tw [OF f])
  qed
qed

lemma strtod_fmt_pos:
  assumes "0 < x" "round_double x = Fin x"
  shows "strtod_full (fmt_pos x) = Some (Fin x)"
proof -
  obtain m e where me: "digits17 x = (m, e)" by (cases "digits17 x")
  note d17 = digits17_spec [OF assms(1) me]
  define ds where "ds = dec_digits m"
  have ds: "\<forall>c\<in>set ds. is_digit c" "num_of ds = m" "length ds = 17"
    using d17 by (auto simp: ds_def dec_digits_digits)
  have val: "round_double (of_nat m * 10 powi (e - 16)) = Fin x"
    using assms d17(2) by (rule round_double_near)
  have zero: "is_digit (CHR ''0'')" "digit_val (CHR ''0'') = 0"
    by (simp_all add: is_digit_def digit_val_def byte_of_def)
  have part: "take k ds @ drop k ds = ds" "\<forall>c\<in>set (take k ds). is_digit c" "\<forall>c\<in>set (drop k ds). is_digit c" for k
    using ds(1) by (auto dest: in_set_takeD in_set_dropD)
  consider "e < - 4 \<or> 17 \<le> e" | "0 \<le> e" "e < 17" | "- 4 \<le> e" "e < 0" by linarith
  then show ?thesis
  proof cases
    case 1
    have "strtod_full (with_point (take 1 ds) (drop 1 ds) @ exp_suffix e) =
        Some (round_double (of_nat (num_of (take 1 ds @ drop 1 ds)) * 10 powi (e - int (length (drop 1 ds)))))"
      using ds part strtod_exp_suffix
      by (intro strtod_with_point) (auto simp: exp_suffix_def Let_def)
    with 1 val ds show ?thesis
      by (simp add: fmt_pos_def me flip: ds_def)
  next
    case 2
    have "strtod_full (with_point (take (nat e + 1) ds) (drop (nat e + 1) ds) @ []) =
        Some (round_double (of_nat (num_of (take (nat e + 1) ds @ drop (nat e + 1) ds)) *
          10 powi (0 - int (length (drop (nat e + 1) ds)))))"
      using ds part by (intro strtod_with_point) (auto simp: strtod_exp_def)
    with 2 val ds show ?thesis
      by (simp add: fmt_pos_def me of_nat_diff flip: ds_def)
  next
    case 3
    have "strtod_full (with_point ''0'' (replicate (nat (- e) - 1) (CHR ''0'') @ ds) @ []) =
        Some (round_double (of_nat (num_of (''0'' @ replicate (nat (- e) - 1) (CHR ''0'') @ ds)) *
          10 powi (0 - int (length (replicate (nat (- e) - 1) (CHR ''0'') @ ds)))))"
      using ds zero by (intro strtod_with_point) (auto simp: strtod_exp_def)
    with 3 val ds zero show ?thesis
      by (simp add: fmt_pos_def me num_of_append num_of_Cons of_nat_diff flip: ds_def)
  qed
qed


section \<open>Signs\<close>

fun dneg :: "double \<Rightarrow> double" where
  "dneg (Fin x) = Fin (- x)"
| "dneg PInf = NInf"
| "dneg NInf = PInf"

lemma round_half_even_uminus: "round_half_even (- x) = - round_half_even x"
proof (cases "x = of_int \<lfloor>x\<rfloor>")
  case True
  then show ?thesis by (metis of_int_minus round_half_even_int)
next
  case False
  then have "\<lfloor>- x\<rfloor> = - \<lfloor>x\<rfloor> - 1"
    by (metis add.inverse_inverse ceiling_altdef ceiling_def diff_conv_add_uminus minus_add_distrib)
  then show ?thesis by (simp add: round_half_even_def Let_def) 
qed

lemma round_double_finite:
  assumes "1 \<le> x" "x < 2 ^ 1000"
  shows "\<exists>y. round_double x = Fin y"
proof -
  define u where "u = (2 :: rat) powi ulp_exp x"
  note b = ilog2_bounds [of x]
  have "(2 :: rat) powi 0 < 2 powi (ilog2 x + 1)" using b assms by simp
  then have "0 < ilog2 x + 1" using power_int_mono_iff2 [of "ilog2 x + 1" 0] by linarith
  then have "ulp_exp x \<le> ilog2 x" using assms by (simp add: ulp_exp_def)
  then have "u \<le> 2 powi ilog2 x" by (simp add: u_def power_int_increasing)
  with b(1) assms have ux: "u \<le> x" by simp
  have u: "0 < u" by (simp add: u_def)
  let ?m = "rat_of_int (round_half_even (x / u))"
  have "?m \<le> x / u + 1 / 2" using round_half_even_dist [of "x / u"] by linarith
  moreover have "0 \<le> ?m" using round_half_even_ge [of 0 "x / u"] u assms(1) by simp
  ultimately have "?m * u \<le> (x / u + 1 / 2) * u" "0 \<le> ?m * u"
    using u by (auto intro: mult_right_mono)
  moreover have "(x / u + 1 / 2) * u = x + u / 2" using u by (simp add: algebra_simps)
  ultimately have "\<bar>?m * u\<bar> \<le> 2 * x" using ux u by linarith
  also have "\<dots> < 2 ^ 1024" using assms(2) by simp
  finally have "\<bar>?m * u\<bar> < 2 ^ 1024" .
  then show ?thesis using assms by (auto simp: round_double_def u_def Let_def)
qed

lemma round_double_uminus: "round_double (- x) = dneg (round_double x)"
  by (simp del: power_numeral add: round_double_def ulp_exp_def round_half_even_uminus Let_def minus_divide_left [symmetric])

definition representable :: "double \<Rightarrow> bool" where
  "representable d \<longleftrightarrow> (case d of Fin x \<Rightarrow> round_double x = Fin x | _ \<Rightarrow> False)"

lemma round_double_idem_pos:
  assumes "0 < x" "round_double x = Fin y"
  shows "round_double y = Fin y"
proof -
  define e where "e = ulp_exp x"
  define p where "p = (2::rat) powi e"
  define M where "M = round_half_even (x / p)"
  have p: "0 < p" by (simp add: p_def)
  have y: "y = of_int M * p" "\<bar>y\<bar> < 2 ^ 1024"
    using assms by (auto simp: round_double_def M_def p_def e_def Let_def split: if_splits)
  have scale: "2 powi (e + int k) = 2 ^ k * p" for k
    by (simp add: p_def powi_2_add_nat)
  have "x / p \<le> of_int (2 ^ 53)"
    using ulp_exp_upper [OF assms(1)] scale [of 53] p by (simp add: e_def divide_le_eq)
  then have M_hi: "M \<le> 2 ^ 53" unfolding M_def by (rule round_half_even_le)
  have M_lo: "0 \<le> M" unfolding M_def using assms(1) p by (intro round_half_even_ge) simp
  have low: "2 ^ 52 \<le> M" if "- 1074 < e"
  proof -
    have "of_int (2 ^ 52) \<le> x / p"
      using ulp_exp_lower [OF assms(1)] that scale [of 52] p by (simp add: e_def le_divide_eq)
    then show ?thesis unfolding M_def by (rule round_half_even_ge)
  qed
  consider "M = 0" | "M = 2 ^ 53" | "0 < M" "M < 2 ^ 53" using M_hi M_lo by linarith
  then show ?thesis
  proof cases
    case 1
    then show ?thesis using y by (simp add: round_double_def)
  next
    case 2
    have up: "2 powi (e + 1) = 2 * p" "2 powi (e + 1 + 52) = 2 ^ 53 * p" "2 powi (e + 1 + 53) = 2 ^ 54 * p"
      using scale [of 1] scale [of 53] scale [of 54] by (simp_all add: algebra_simps)
    have y0: "0 < y" using y p 2 by simp
    have "e + 1 \<le> ulp_exp y" using y 2 up by (intro ulp_exp_ge_if [OF y0]) simp
    moreover have "ulp_exp y \<le> e + 1"
      using y 2 up p ulp_exp_ge [of x] by (intro ulp_exp_le [OF y0]) (simp_all add: e_def)
    ultimately have e1: "ulp_exp y = e + 1" by simp
    then show ?thesis
      using round_double_scaled [OF y0 e1, of "2 ^ 52"] y 2 up p by simp
  next
    case 3
    have y0: "0 < y" using y p 3 by simp
    have "rat_of_int M < rat_of_int (2 ^ 53)" using 3 by (simp only: of_int_less_iff)
    then have "ulp_exp y \<le> e"
      using y p scale [of 53] ulp_exp_ge [of x] by (intro ulp_exp_le [OF y0]) (simp_all add: e_def)
    moreover have "e \<le> ulp_exp y"
    proof (cases "- 1074 < e")
      case True
      have "rat_of_int (2 ^ 52) \<le> rat_of_int M" using low [OF True] by (simp only: of_int_le_iff)
      then show ?thesis using y p scale [of 52] by (intro ulp_exp_ge_if [OF y0]) simp
    next
      case False
      then show ?thesis using ulp_exp_ge [of y] by simp
    qed
    ultimately have e1: "ulp_exp y = e" by simp
    then show ?thesis
      using round_double_scaled [OF y0 e1, of M] y 3 p by (simp flip: p_def)
  qed
qed

lemma round_double_idem: "round_double x = Fin y \<Longrightarrow> round_double y = Fin y"
proof -
  assume a: "round_double x = Fin y"
  consider "x = 0" | "0 < x" | "0 < - x" by linarith
  then show ?thesis
  proof cases
    case 1
    with a show ?thesis by (simp add: round_double_def)
  next
    case 2
    then show ?thesis using a by (rule round_double_idem_pos)
  next
    case 3
    have "round_double (- x) = Fin (- y)" using a by (simp add: round_double_uminus)
    with 3 have "round_double (- y) = Fin (- y)" by (rule round_double_idem_pos)
    then show ?thesis by (cases "round_double y") (simp_all add: round_double_uminus)
  qed
qed

lemma representable_round_double: "round_double x \<in> {PInf, NInf} \<or> representable (round_double x)"
  by (cases "round_double x") (auto simp: representable_def dest: round_double_idem)

lemma strtod_neg:
  assumes "sign_split s = (False, s)"
  shows "strtod_full (CHR ''-'' # s) = map_option dneg (strtod_full s)"
proof -
  have "sign_split (CHR ''-'' # s) = (True, s)" by (simp add: sign_split_def)
  with assms show ?thesis
    by (auto simp: strtod_full_def Let_def round_double_uminus split: prod.split option.split)
qed

lemma fmt_pos_hd: "0 < x \<Longrightarrow> \<exists>c cs. fmt_pos x = c # cs \<and> is_digit c"
proof -
  assume x: "0 < x"
  obtain m e where me: "digits17 x = (m, e)" by (cases "digits17 x")
  obtain d ds where "dec_digits m = d # ds" "is_digit d" using dec_digits_hd by blast
  moreover have "is_digit (CHR ''0'')" by (simp add: is_digit_def byte_of_def)
  ultimately show ?thesis by (auto simp: fmt_pos_def me with_point_def Let_def)
qed

lemma strtod_fmt_g17:
  assumes "representable d"
  shows "strtod_full (fmt_g17 d) = Some d"
proof -
  obtain x where d: "d = Fin x" "round_double x = Fin x"
    using assms by (cases d) (auto simp: representable_def)
  consider "x = 0" | "0 < x" | "0 < - x" by linarith
  then show ?thesis
  proof cases
    case 1
    have "digit_char 0 = CHR ''0''" by code_simp
    then have "strtod_full ''0'' = Some (Fin 0)" using strtod_to_string [of 0]
      by (simp add: to_string_def dec_digits.simps)
    then show ?thesis by (simp add: d 1)
  next
    case 2
    with d show ?thesis by (simp add: strtod_fmt_pos)
  next
    case 3
    have "round_double (- x) = Fin (- x)" using d by (simp add: round_double_uminus)
    then have "strtod_full (fmt_pos (- x)) = Some (Fin (- x))" using 3 by (simp add: strtod_fmt_pos)
    moreover have "sign_split (fmt_pos (- x)) = (False, fmt_pos (- x))"
      using fmt_pos_hd [OF 3] by (auto simp: sign_split_def)
    ultimately show ?thesis using 3 by (simp add: d strtod_neg)
  qed
qed

lemma to_string_digit: "to_string 0 = ''0''" "to_string 1 = ''1''"
  by code_simp+

declare cast_int.simps [simp del] cast_i64.simps [simp del] cast_u64.simps [simp del]

end
