(* ===== verification/Json.thy ===== *)
theory Json
  imports Numbers
begin

text \<open>
  The engine's own JSON (\<^verbatim>\<open>src/src/ipc/json.h\<close>, \<^verbatim>\<open>src/src/ipc/json.cpp\<close>): the tagged value, its
  builders and accessors, the printer \<^verbatim>\<open>dump\<close> and the recursive-descent \<^verbatim>\<open>Parser\<close>.

  The parser object holds the text, an index \<^verbatim>\<open>i\<close> and the flag \<^verbatim>\<open>ok\<close>.  Here a parser function
  takes the text still to be read (the suffix at \<^verbatim>\<open>i\<close>) and returns the value with the new
  suffix.  \<^verbatim>\<open>ok\<close> flips to false at the first malformed token, every caller then returns at
  once, and \<^verbatim>\<open>parse\<close> discards what was built: that outcome is \<^term>\<open>None\<close>.
\<close>

named_theorems json_step \<open>one step of the parser on a known first character\<close>

unbundle bit_operations_syntax

section \<open>Values\<close>

datatype jvalue =
    JNull
  | JBool bool
  | JNum double
  | JStr string
  | JArr "jvalue list"
  | JObj "(string \<times> jvalue) list"

fun is_object :: "jvalue \<Rightarrow> bool" where
  "is_object (JObj _) = True"
| "is_object _ = False"

fun is_array :: "jvalue \<Rightarrow> bool" where
  "is_array (JArr _) = True"
| "is_array _ = False"

fun is_null :: "jvalue \<Rightarrow> bool" where
  "is_null JNull = True"
| "is_null _ = False"

text \<open>\<^verbatim>\<open>set\<close> and \<^verbatim>\<open>push\<close> coerce the value; the inactive members of a value are empty.\<close>

fun jset :: "string \<Rightarrow> jvalue \<Rightarrow> jvalue \<Rightarrow> jvalue" where
  "jset k v (JObj m) = JObj (map_put k v m)"
| "jset k v _ = JObj [(k, v)]"

fun jpush :: "jvalue \<Rightarrow> jvalue \<Rightarrow> jvalue" where
  "jpush v (JArr xs) = JArr (xs @ [v])"
| "jpush v _ = JArr [v]"

fun jfind :: "string \<Rightarrow> jvalue \<Rightarrow> jvalue option" where
  "jfind k (JObj m) = map_of m k"
| "jfind k _ = None"

definition get_str :: "string \<Rightarrow> string \<Rightarrow> jvalue \<Rightarrow> string" where
  "get_str k d j = (case jfind k j of Some (JStr s) \<Rightarrow> s | _ \<Rightarrow> d)"

definition get_num :: "string \<Rightarrow> double \<Rightarrow> jvalue \<Rightarrow> double" where
  "get_num k d j = (case jfind k j of Some (JNum x) \<Rightarrow> x | _ \<Rightarrow> d)"

definition get_bool :: "string \<Rightarrow> bool \<Rightarrow> jvalue \<Rightarrow> bool" where
  "get_bool k d j = (case jfind k j of Some (JBool b) \<Rightarrow> b | _ \<Rightarrow> d)"

abbreviation jobject :: jvalue where "jobject \<equiv> JObj []"

abbreviation jarray :: jvalue where "jarray \<equiv> JArr []"

section \<open>Printing\<close>

fun escape_char :: "char \<Rightarrow> string" where
  "escape_char c =
     (if c = CHR 0x22 then [CHR 0x5C, CHR 0x22]
      else if c = CHR 0x5C then [CHR 0x5C, CHR 0x5C]
      else if c = CHR 0x08 then [CHR 0x5C, CHR ''b'']
      else if c = CHR 0x0C then [CHR 0x5C, CHR ''f'']
      else if c = CHR 0x0A then [CHR 0x5C, CHR ''n'']
      else if c = CHR 0x0D then [CHR 0x5C, CHR ''r'']
      else if c = CHR 0x09 then [CHR 0x5C, CHR ''t'']
      else if byte_of c < 32 then
        [CHR 0x5C, CHR ''u'', CHR ''0'', CHR ''0'', hex_char (byte_of c div 16), hex_char (byte_of c mod 16)]
      else [c])"

definition escape_to :: "string \<Rightarrow> string" where
  "escape_to s = CHR 0x22 # concat (map escape_char s) @ [CHR 0x22]"

text \<open>The number test of \<^verbatim>\<open>dump_to\<close>: finite, equal to its own conversion to \<^verbatim>\<open>long long\<close>, and below
  \<open>9e15\<close> in magnitude.  Where the conversion is out of range the last test fails as well.\<close>

fun prints_integral :: "double \<Rightarrow> bool" where
  "prints_integral (Fin x) \<longleftrightarrow> Fin x = double_of_int (cast_i64 (Fin x)) \<and> \<bar>x\<bar> < 9000000000000000"
| "prints_integral _ \<longleftrightarrow> False"

definition dump_num :: "double \<Rightarrow> string" where
  "dump_num d = (if prints_integral d then to_string (cast_i64 d) else fmt_g17 d)"

function dump_to :: "jvalue \<Rightarrow> string"
  and dump_elems :: "bool \<Rightarrow> jvalue list \<Rightarrow> string"
  and dump_members :: "bool \<Rightarrow> (string \<times> jvalue) list \<Rightarrow> string" where
  "dump_to JNull = ''null''"
| "dump_to (JBool b) = (if b then ''true'' else ''false'')"
| "dump_to (JNum d) = dump_num d"
| "dump_to (JStr s) = escape_to s"
| "dump_to (JArr vs) = ''['' @ dump_elems True vs @ '']''"
| "dump_to (JObj m) = ''{'' @ dump_members True m @ ''}''"
| "dump_elems first [] = []"
| "dump_elems first (v # vs) = (if first then [] else '','') @ dump_to v @ dump_elems False vs"
| "dump_members first [] = []"
| "dump_members first ((k, v) # m) =
     (if first then [] else '','') @ escape_to k @ '':'' @ dump_to v @ dump_members False m"
  by pat_completeness auto
termination
  by (relation "measure (\<lambda>x. case x of Inl v \<Rightarrow> size v
        | Inr (Inl (_, vs)) \<Rightarrow> size_list size vs
        | Inr (Inr (_, m)) \<Rightarrow> size_list (\<lambda>kv. Suc (size (snd kv))) m)")
    (auto simp: less_Suc_eq_le intro!: size_list_pointwise)

definition dump :: "jvalue \<Rightarrow> string" where
  "dump v = dump_to v"

section \<open>Parsing\<close>

definition is_ws :: "char \<Rightarrow> bool" where
  "is_ws c \<longleftrightarrow> c = CHR '' '' \<or> c = CHR 0x09 \<or> c = CHR 0x0A \<or> c = CHR 0x0D"

definition ws :: "string \<Rightarrow> string" where
  "ws s = dropWhile is_ws s"

definition peek :: "string \<Rightarrow> char" where
  "peek s = (case s of [] \<Rightarrow> CHR 0x00 | c # _ \<Rightarrow> c)"

definition encode_utf8 :: "32 word \<Rightarrow> string" where
  "encode_utf8 cp =
     (if cp \<le> 0x7f then [to_byte cp]
      else if cp \<le> 0x7ff then
        [to_byte (0xc0 OR drop_bit 6 cp), to_byte (0x80 OR (cp AND 0x3f))]
      else if cp \<le> 0xffff then
        [to_byte (0xe0 OR drop_bit 12 cp), to_byte (0x80 OR (drop_bit 6 cp AND 0x3f)),
         to_byte (0x80 OR (cp AND 0x3f))]
      else
        [to_byte (0xf0 OR drop_bit 18 cp), to_byte (0x80 OR (drop_bit 12 cp AND 0x3f)),
         to_byte (0x80 OR (drop_bit 6 cp AND 0x3f)), to_byte (0x80 OR (cp AND 0x3f))])"

fun hex4_loop :: "nat \<Rightarrow> 32 word \<Rightarrow> string \<Rightarrow> (32 word \<times> string) option" where
  "hex4_loop 0 v s = Some (v, s)"
| "hex4_loop (Suc n) v [] = None"
| "hex4_loop (Suc n) v (c # cs) =
     (case hex_digit c of None \<Rightarrow> None
      | Some d \<Rightarrow> hex4_loop n (push_bit 4 v OR of_nat d) cs)"

definition hex4 :: "string \<Rightarrow> (32 word \<times> string) option" where
  "hex4 s = hex4_loop 4 0 s"

text \<open>A \<^verbatim>\<open>\u\<close> escape: a high surrogate must be followed by an escaped low surrogate.\<close>

definition unicode_escape :: "string \<Rightarrow> (32 word \<times> string) option" where
  "unicode_escape s =
     (case hex4 s of None \<Rightarrow> None
      | Some (cp, s1) \<Rightarrow>
          if 0xd800 \<le> cp \<and> cp \<le> 0xdbff then
            (if take 2 s1 = [CHR 0x5C, CHR ''u''] then
               (case hex4 (drop 2 s1) of None \<Rightarrow> None
                | Some (lo, s2) \<Rightarrow>
                    if 0xdc00 \<le> lo \<and> lo \<le> 0xdfff
                    then Some (0x10000 + push_bit 10 (cp - 0xd800) + (lo - 0xdc00), s2)
                    else None)
             else None)
          else Some (cp, s1))"

definition simple_escape :: "char \<Rightarrow> char option" where
  "simple_escape e =
     (if e = CHR 0x22 then Some (CHR 0x22)
      else if e = CHR 0x5C then Some (CHR 0x5C)
      else if e = CHR ''/'' then Some (CHR ''/'')
      else if e = CHR ''b'' then Some (CHR 0x08)
      else if e = CHR ''f'' then Some (CHR 0x0C)
      else if e = CHR ''n'' then Some (CHR 0x0A)
      else if e = CHR ''r'' then Some (CHR 0x0D)
      else if e = CHR ''t'' then Some (CHR 0x09)
      else None)"

lemma hex4_loop_length: "hex4_loop n v s = Some (w, r) \<Longrightarrow> length r \<le> length s"
  by (induction n v s rule: hex4_loop.induct) (fastforce split: option.splits)+

lemma hex4_length: "hex4 s = Some (w, r) \<Longrightarrow> length r \<le> length s"
  unfolding hex4_def by (rule hex4_loop_length)

lemma unicode_escape_length: "unicode_escape s = Some (w, r) \<Longrightarrow> length r \<le> length s"
  by (fastforce simp: unicode_escape_def split: option.splits if_splits dest!: hex4_length)

text \<open>What follows a backslash inside a string: the decoded bytes and the rest.\<close>

definition escape_seq :: "string \<Rightarrow> (string \<times> string) option" where
  "escape_seq s =
     (case s of [] \<Rightarrow> None
      | e # s' \<Rightarrow>
          if e = CHR ''u'' then map_option (\<lambda>(cp, r). (encode_utf8 cp, r)) (unicode_escape s')
          else map_option (\<lambda>c. ([c], s')) (simple_escape e))"

lemma escape_seq_length: "escape_seq s = Some (t, r) \<Longrightarrow> length r < length s"
  by (cases s) (auto simp: escape_seq_def less_Suc_eq_le split: if_splits dest: unicode_escape_length)

text \<open>The loop of \<^verbatim>\<open>str()\<close> after the opening quote; \<open>out\<close> is what has been decoded.\<close>

function str_loop :: "string \<Rightarrow> string \<Rightarrow> (string \<times> string) option" where
  "str_loop out [] = None"
| "str_loop out (c # s) =
     (if c = CHR 0x22 then Some (out, s)
      else if c = CHR 0x5C then
        (case escape_seq s of None \<Rightarrow> None | Some (t, s') \<Rightarrow> str_loop (out @ t) s')
      else str_loop (out @ [c]) s)"
  by pat_completeness auto
termination
  by (relation "measure (\<lambda>(out, s). length s)") (auto dest: escape_seq_length)

definition str :: "string \<Rightarrow> (string \<times> string) option" where
  "str s = (if peek s \<noteq> CHR 0x22 then None else str_loop [] (tl s))"

definition is_num_char :: "char \<Rightarrow> bool" where
  "is_num_char c \<longleftrightarrow> is_digit c \<or> c = CHR ''.'' \<or> c = CHR ''e'' \<or> c = CHR ''E'' \<or> c = CHR ''+'' \<or> c = CHR ''-''"

definition number :: "string \<Rightarrow> (jvalue \<times> string) option" where
  "number s =
     (let start = (if peek s = CHR ''-'' then ''-'' else []);
          s1 = drop (length start) s;
          tok = start @ takeWhile is_num_char s1
      in if tok = [] then None
         else (case strtod_full tok of None \<Rightarrow> None
               | Some d \<Rightarrow> Some (JNum d, dropWhile is_num_char s1)))"

definition literal :: "string \<Rightarrow> jvalue \<Rightarrow> string \<Rightarrow> (jvalue \<times> string) option" where
  "literal lit v s = (if take (length lit) s = lit then Some (v, drop (length lit) s) else None)"

definition str_value :: "string \<Rightarrow> (jvalue \<times> string) option" where
  "str_value s = map_option (\<lambda>(t, r). (JStr t, r)) (str s)"

text \<open>The cases of \<^verbatim>\<open>value()\<close> that read one token, by its first character.\<close>

definition scalar :: "string \<Rightarrow> (jvalue \<times> string) option" where
  "scalar s =
     (let c = peek s
      in if c = CHR 0x22 then str_value s
         else if c = CHR ''t'' then literal ''true'' (JBool True) s
         else if c = CHR ''f'' then literal ''false'' (JBool False) s
         else if c = CHR ''n'' then literal ''null'' JNull s
         else if c = CHR ''-'' \<or> is_digit c then number s
         else None)"

text \<open>The head of one round of the loop in \<^verbatim>\<open>object()\<close>: the key and the text after the colon.\<close>

definition member_key :: "string \<Rightarrow> (string \<times> string) option" where
  "member_key s0 =
     (case str (ws s0) of None \<Rightarrow> None
      | Some (key, s1) \<Rightarrow>
          (case ws s1 of [] \<Rightarrow> None
           | c # s2 \<Rightarrow> if c = CHR '':'' then Some (key, s2) else None))"

text \<open>\<^verbatim>\<open>value()\<close>, and the loops of \<^verbatim>\<open>object()\<close> and \<^verbatim>\<open>array()\<close> after their opening bracket and the
  test for an empty container.\<close>

function parse_value :: "string \<Rightarrow> (jvalue \<times> string) option"
  and parse_members :: "jvalue omap \<Rightarrow> string \<Rightarrow> (jvalue \<times> string) option"
  and parse_elems :: "jvalue list \<Rightarrow> string \<Rightarrow> (jvalue \<times> string) option" where
  "parse_value s0 =
     (case ws s0 of [] \<Rightarrow> None
      | c # s \<Rightarrow>
          if c = CHR ''{'' then
            (if peek (ws s) = CHR ''}'' then Some (JObj [], tl (ws s)) else parse_members [] (ws s))
          else if c = CHR ''['' then
            (if peek (ws s) = CHR '']'' then Some (JArr [], tl (ws s)) else parse_elems [] (ws s))
          else scalar (c # s))"
| "parse_members m s0 =
     (case member_key s0 of None \<Rightarrow> None
      | Some (key, s2) \<Rightarrow>
          (case parse_value s2 of None \<Rightarrow> None
           | Some (child, s3) \<Rightarrow>
               (case ws s3 of [] \<Rightarrow> None
                | c # s4 \<Rightarrow>
                    if c = CHR '','' then parse_members (map_put key child m) s4
                    else if c = CHR ''}'' then Some (JObj (map_put key child m), s4)
                    else None)))"
| "parse_elems vs s0 =
     (case parse_value s0 of None \<Rightarrow> None
      | Some (child, s1) \<Rightarrow>
          (case ws s1 of [] \<Rightarrow> None
           | c # s2 \<Rightarrow>
               if c = CHR '','' then parse_elems (vs @ [child]) s2
               else if c = CHR '']'' then Some (JArr (vs @ [child]), s2)
               else None))"
  by pat_completeness auto

lemma ws_length: "length (ws s) \<le> length s"
  by (simp add: ws_def length_dropWhile_le)

lemma ws_Cons_length: "ws s = c # r \<Longrightarrow> length r < length s"
  using ws_length [of s] by simp

lemma str_loop_length: "str_loop out s = Some (t, r) \<Longrightarrow> length r < length s"
proof (induction out s rule: str_loop.induct)
  case (2 out c s)
  show ?case
  proof (cases "c = CHR 0x5C")
    case True
    with 2(3) obtain u s' where u: "escape_seq s = Some (u, s')" "str_loop (out @ u) s' = Some (t, r)"
      by (auto split: option.splits)
    with 2(1) True have "length r < length s'" by simp
    with escape_seq_length [OF u(1)] show ?thesis by simp
  next
    case False
    with 2 show ?thesis
      by (cases "c = CHR 0x22") auto
  qed
qed simp

lemma str_length: "str s = Some (t, r) \<Longrightarrow> length r < length s"
  using str_loop_length [of "[]" "tl s" t r]
  by (cases s) (auto simp: str_def peek_def split: if_splits)

lemma number_length: "number s = Some (v, r) \<Longrightarrow> length r < length s"
proof -
  assume a: "number s = Some (v, r)"
  define s1 where "s1 = drop (if peek s = CHR ''-'' then 1 else 0) s"
  have r: "r = dropWhile is_num_char s1" and
    ne: "peek s = CHR ''-'' \<or> takeWhile is_num_char s1 \<noteq> []"
    using a by (auto simp: number_def s1_def Let_def split: if_splits option.splits)
  have le: "length r + length (takeWhile is_num_char s1) = length s1"
    unfolding r by (metis add.commute length_append takeWhile_dropWhile_id)
  show ?thesis
  proof (cases "peek s = CHR ''-''")
    case True
    then have "s \<noteq> []" by (auto simp: peek_def)
    then show ?thesis using le True by (cases s) (auto simp: s1_def)
  next
    case False
    then show ?thesis using le ne by (simp add: s1_def flip: length_greater_0_conv)
  qed
qed

lemma literal_length: "lit \<noteq> [] \<Longrightarrow> literal lit v s = Some (w, r) \<Longrightarrow> length r < length s"
  by (cases s) (auto simp: literal_def split: if_splits)

lemma str_value_length: "str_value s = Some (w, r) \<Longrightarrow> length r < length s"
  by (auto simp: str_value_def dest: str_length)

lemma scalar_length: "scalar s = Some (w, r) \<Longrightarrow> length r < length s"
  unfolding scalar_def Let_def
  by (auto split: if_split_asm dest: number_length literal_length [rotated] str_value_length)

lemma peek_tl_length: "peek (ws s) = c \<Longrightarrow> c \<noteq> CHR 0x00 \<Longrightarrow> length (tl (ws s)) < length s"
  using ws_length [of s] by (cases "ws s") (auto simp: peek_def)
lemma member_key_length: "member_key s = Some (k, r) \<Longrightarrow> length r < length s"
proof -
  assume a: "member_key s = Some (k, r)"
  then obtain s1 where s1: "str (ws s) = Some (k, s1)" "ws s1 = CHR '':'' # r"
    by (auto simp: member_key_def split: option.splits list.splits if_splits)
  then show ?thesis
    using ws_length [of s] str_length [OF s1(1)] ws_Cons_length [OF s1(2)] by simp
qed

text \<open>Every parser consumes input.  The recursion is nested (the loops continue on what the parsed
  child left over), so this is first shown where the functions are defined, and gives their
  termination.\<close>

abbreviation parse_dom where
  "parse_dom \<equiv> parse_value_parse_members_parse_elems_dom"

lemma parse_value_step_length:
  assumes "parse_dom (Inl s0)" "parse_value s0 = Some (v, r)"
    and "\<And>s. ws s0 = CHR ''{'' # s \<Longrightarrow> peek (ws s) \<noteq> CHR ''}'' \<Longrightarrow>
            parse_members [] (ws s) = Some (v, r) \<Longrightarrow> length r < length (ws s)"
    and "\<And>s. ws s0 = CHR ''['' # s \<Longrightarrow> peek (ws s) \<noteq> CHR '']'' \<Longrightarrow>
            parse_elems [] (ws s) = Some (v, r) \<Longrightarrow> length r < length (ws s)"
  shows "length r < length s0"
proof (cases "ws s0")
  case Nil
  with assms show ?thesis by (simp add: parse_value.psimps)
next
  case (Cons c s)
  then have s: "length (ws s) < length s0" "length (c # s) \<le> length s0"
    using ws_length [of s0] ws_length [of s] by auto
  consider "r = tl (ws s)"
    | "c = CHR ''{''" "peek (ws s) \<noteq> CHR ''}''" "parse_members [] (ws s) = Some (v, r)"
    | "c = CHR ''[''" "peek (ws s) \<noteq> CHR '']''" "parse_elems [] (ws s) = Some (v, r)"
    | "scalar (c # s) = Some (v, r)"
    using assms(1,2) Cons by (auto simp: parse_value.psimps split: if_split_asm)
  then show ?thesis
  proof cases
    case 2 then show ?thesis using assms(3) [of s] Cons s by simp
  next
    case 3 then show ?thesis using assms(4) [of s] Cons s by simp
  next
    case 4 then show ?thesis using scalar_length [of "c # s"] s by simp
  qed (use s in auto)
qed

lemma parse_length:
  "parse_dom (Inl s) \<Longrightarrow> parse_value s = Some (v, r) \<Longrightarrow> length r < length s"
  "parse_dom (Inr (Inl (m, s))) \<Longrightarrow> parse_members m s = Some (v, r) \<Longrightarrow> length r < length s"
  "parse_dom (Inr (Inr (vs, s))) \<Longrightarrow> parse_elems vs s = Some (v, r) \<Longrightarrow> length r < length s"
proof (induction s and m s and vs s arbitrary: v r and v r and v r
    rule: parse_value_parse_members_parse_elems.pinduct)
  case (1 s0)
  then show ?case
    by - (rule parse_value_step_length [OF 1(1) 1(4)], simp_all)
next
  case (2 m s0)
  from 2(4) obtain k s2 w s3 c s4 where k: "member_key s0 = Some (k, s2)"
    and w: "parse_value s2 = Some (w, s3)" and s4: "ws s3 = c # s4"
    by (auto simp: parse_members.psimps 2(1) split: option.splits list.splits)
  have l4: "length s4 < length s0"
    using member_key_length [OF k] ws_Cons_length [OF s4] 2(2) [OF k _ w] by simp
  with 2(3) [OF k _ w _ s4] 2(4) k w s4 show ?case
    by (fastforce simp: parse_members.psimps 2(1) split: if_split_asm)
next
  case (3 vs s0)
  from 3(4) obtain w s1 c s2 where w: "parse_value s0 = Some (w, s1)" and s2: "ws s1 = c # s2"
    by (auto simp: parse_elems.psimps 3(1) split: option.splits list.splits)
  have l2: "length s2 < length s0"
    using 3(2) [OF w] ws_Cons_length [OF s2] by simp
  with 3(3) [OF w _ s2] 3(4) w s2 show ?case
    by (fastforce simp: parse_elems.psimps 3(1) split: if_split_asm)
qed

definition parse_weight :: "string + jvalue omap \<times> string + jvalue list \<times> string \<Rightarrow> nat" where
  "parse_weight x =
     (case x of Inl s \<Rightarrow> 2 * length s
      | Inr (Inl (_, s)) \<Rightarrow> 2 * length s + 1
      | Inr (Inr (_, s)) \<Rightarrow> 2 * length s + 1)"

lemma ws_ws_length: "ws s0 = c # s \<Longrightarrow> Suc (2 * length (ws s)) < 2 * length s0"
  using ws_Cons_length [of s0 c s] ws_length [of s] by simp

termination parse_value
proof (relation "measure parse_weight", goal_cases)
  case (4 m s0 x key s2)
  then show ?case
    by (auto simp: parse_weight_def dest: member_key_length)
next
  case (5 m s0 x key s2 y child s3 c s4)
  then show ?case
    using parse_length(1) [of s2 child s3] 
    by (auto simp: parse_weight_def dest!: member_key_length ws_Cons_length)
next
  case (7 vs s0 x child s1 c s2)
  then show ?case
    using parse_length(1) [of s0 child s1] 
    by (auto simp: parse_weight_def dest!: ws_Cons_length)
qed (auto simp: parse_weight_def dest: ws_ws_length)

definition parse :: "string \<Rightarrow> jvalue option" where
  "parse text =
     (case parse_value text of None \<Rightarrow> None
      | Some (v, r) \<Rightarrow> if ws r = [] then Some v else None)"

section \<open>Numbers\<close>

lemma with_point_chars: "c \<in> set (with_point ip fp) \<Longrightarrow> c \<in> set ip \<union> set fp \<union> {CHR ''.''}"
  using strip_zeros_split [of fp]
  by (auto simp: with_point_def Let_def split: if_splits) (metis Un_iff set_append)+

lemma zero_is_digit [simp]: "is_digit (CHR ''0'')"
  by (simp add: is_digit_def byte_of_def)

lemma is_digit_num_char [simp]: "is_digit c \<Longrightarrow> is_num_char c"
  by (simp add: is_num_char_def)

lemma sign_num_char [simp]: "is_num_char (CHR ''-'')" "is_num_char (CHR ''+'')" "is_num_char (CHR ''e'')" "is_num_char (CHR ''.'')"
  by (simp_all add: is_num_char_def)

lemma dec_digits_num_char [simp]: "c \<in> set (dec_digits n) \<Longrightarrow> is_num_char c"
  by (simp add: dec_digits_digits)

lemma exp_suffix_chars: "c \<in> set (exp_suffix e) \<Longrightarrow> is_num_char c"
  by (auto simp: exp_suffix_def Let_def split: if_splits)

lemma with_point_num_chars:
  assumes "\<forall>c\<in>set ip. is_num_char c" "\<forall>c\<in>set fp. is_num_char c"
  shows "\<forall>c\<in>set (with_point ip fp). is_num_char c"
  using assms by (auto dest!: with_point_chars)

lemma fmt_pos_chars: "\<forall>c\<in>set (fmt_pos x). is_num_char c"
proof -
  obtain m e where me: "digits17 x = (m, e)" by (cases "digits17 x")
  have "\<forall>c\<in>set (with_point (take k (dec_digits m)) (drop k (dec_digits m))). is_num_char c" for k
    by (rule with_point_num_chars) (auto dest: in_set_takeD in_set_dropD)
  moreover have "\<forall>c\<in>set (with_point ''0'' (replicate k (CHR ''0'') @ dec_digits m)). is_num_char c" for k
    by (rule with_point_num_chars) auto
  ultimately show ?thesis
    by (simp add: fmt_pos_def me Let_def ball_Un exp_suffix_chars)
qed

lemma to_string_chars: "\<forall>c\<in>set (to_string n). is_num_char c"
  by (simp add: to_string_def)

lemma to_string_hd: "\<exists>c cs. to_string n = c # cs \<and> (c = CHR ''-'' \<or> is_digit c)"
  using dec_digits_hd [of "nat n"] by (auto simp: to_string_def)

lemma cast_i64_small:
  assumes "\<bar>x\<bar> < 9000000000000000"
  shows "\<bar>cast_i64 (Fin x)\<bar> < 2 ^ 53"
proof -
  have "- 9000000000000000 \<le> trunc x \<and> trunc x \<le> 9000000000000000"
    using assms by (auto simp: trunc_def abs_less_iff le_floor_iff ceiling_le_iff floor_le_iff le_ceiling_iff)
  then show ?thesis by (auto simp: cast_i64.simps)
qed

lemma prints_integral_value:
  assumes "prints_integral d"
  shows "d = Fin (of_int (cast_i64 d))" "\<bar>cast_i64 d\<bar> < 2 ^ 53"
proof -
  obtain x where x: "d = Fin x" "Fin x = double_of_int (cast_i64 (Fin x))" "\<bar>x\<bar> < 9000000000000000"
    using assms by (cases d) auto
  show "\<bar>cast_i64 d\<bar> < 2 ^ 53" using cast_i64_small x by simp
  then show "d = Fin (of_int (cast_i64 d))" using x double_of_int_small by simp
qed

lemma dump_num_int: "\<bar>n\<bar> < 9000000000000000 \<Longrightarrow> dump_num (double_of_int n) = to_string n"
proof -
  assume n: "\<bar>n\<bar> < 9000000000000000"
  then have d: "double_of_int n = Fin (of_int n)" by (intro double_of_int_small) simp
  have "cast_i64 (Fin (of_int n)) = n" using n by (auto simp: cast_i64.simps trunc_def)
  moreover have "\<bar>rat_of_int n\<bar> < rat_of_int 9000000000000000"
    using n by (simp only: of_int_less_iff flip: of_int_abs)
  ultimately show ?thesis by (simp add: dump_num_def d)
qed

lemma strtod_dump_num: "representable d \<Longrightarrow> strtod_full (dump_num d) = Some d"
proof (cases "prints_integral d")
  case True
  then show ?thesis
    using prints_integral_value [OF True] strtod_to_string by (simp add: dump_num_def)
next
  case False
  then show "representable d \<Longrightarrow> ?thesis" by (simp add: dump_num_def strtod_fmt_g17)
qed

lemma dump_num_chars:
  assumes "representable d"
  shows "\<forall>c\<in>set (dump_num d). is_num_char c"
    and "\<exists>c cs. dump_num d = c # cs \<and> (c = CHR ''-'' \<or> is_digit c)"
proof -
  obtain x where x: "d = Fin x" using assms by (cases d) (auto simp: representable_def)
  show "\<forall>c\<in>set (dump_num d). is_num_char c"
    by (simp add: dump_num_def x to_string_chars fmt_pos_chars)
  show "\<exists>c cs. dump_num d = c # cs \<and> (c = CHR ''-'' \<or> is_digit c)"
    using to_string_hd [of "cast_i64 d"] fmt_pos_hd [of x] by (auto simp: dump_num_def x)
qed

lemma number_dump_num:
  assumes "representable d" "r = [] \<or> \<not> is_num_char (hd r)"
  shows "number (dump_num d @ r) = Some (JNum d, r)"
proof -
  obtain c cs where c: "dump_num d = c # cs" using dump_num_chars(2) [OF assms(1)] by blast
  have cs: "\<forall>c\<in>set cs. is_num_char c" using dump_num_chars(1) [OF assms(1)] c by simp
  have tw: "takeWhile is_num_char (xs @ r) = xs" "dropWhile is_num_char (xs @ r) = r"
    if "\<forall>c\<in>set xs. is_num_char c" for xs
    using that assms(2) by (cases r; auto simp: takeWhile_append2 dropWhile_append2)+
  have "strtod_full (c # cs) = Some d" using strtod_dump_num [OF assms(1)] c by simp
  then show ?thesis
    using tw [OF cs] tw [of "c # cs"] cs dump_num_chars(1) [OF assms(1)]
    by (auto simp: number_def c peek_def Let_def)
qed


section \<open>Strings\<close>

lemma hex4_Suc: "hex4 s = hex4_loop (Suc (Suc (Suc (Suc 0)))) 0 s"
  by (simp add: hex4_def numeral_eq_Suc)

lemma hex4_control:
  assumes "byte_of c < 32"
  shows "hex4 (CHR ''0'' # CHR ''0'' # hex_char (byte_of c div 16) # hex_char (byte_of c mod 16) # s) =
           Some (of_nat (byte_of c), s)"
proof -
  have zero: "hex_digit (CHR ''0'') = Some 0" by (simp add: hex_digit_def byte_of_def)
  have "byte_of c div 16 < 16" using assms by simp
  moreover have "of_nat (byte_of c div 16) * 16 + of_nat (byte_of c mod 16) = (of_nat (byte_of c) :: 32 word)"
    by (metis div_mult_mod_eq of_nat_add of_nat_mult of_nat_numeral)
  ultimately show ?thesis
    using push_or_add [of "byte_of c mod 16" 4 "of_nat (byte_of c div 16) :: 32 word"]
    by (simp add: hex4_Suc zero)
qed

lemma escape_seq_control:
  assumes "byte_of c < 32"
  shows "escape_seq (CHR ''u'' # CHR ''0'' # CHR ''0'' # hex_char (byte_of c div 16) # hex_char (byte_of c mod 16) # s)
           = Some ([c], s)"
proof -
  have u: "unat (of_nat (byte_of c) :: 32 word) = byte_of c"
    using order.strict_trans [OF byte_of_less_256 [of c], of 4294967296] by (simp add: unat_of_nat)
  have lt: "(of_nat (byte_of c) :: 32 word) \<le> 0x7f"
    using assms by (simp add: word_le_nat_alt u)
  then have "\<not> (0xd800 \<le> (of_nat (byte_of c) :: 32 word))" by (auto simp: word_le_nat_alt)
  with lt show ?thesis
    by (simp add: escape_seq_def unicode_escape_def hex4_control [OF assms] encode_utf8_def to_byte_def u)
qed

lemma str_loop_escape_char:
  "str_loop out (escape_char c @ s) = str_loop (out @ [c]) s"
proof (cases "byte_of c < 32")
  case True
  then show ?thesis
    by (simp add: escape_seq_control) (simp add: escape_seq_def simple_escape_def)
next
  case False
  then show ?thesis
    by (simp add: escape_seq_def simple_escape_def)
qed

lemma str_loop_escaped:
  "str_loop out (concat (map escape_char t) @ CHR 0x22 # s) = Some (out @ t, s)"
  by (induction t arbitrary: out) (simp_all add: str_loop_escape_char del: escape_char.simps)

lemma str_escape_to: "str (escape_to t @ s) = Some (t, s)"
  by (simp add: str_def escape_to_def peek_def str_loop_escaped)

section \<open>Round trip\<close>

text \<open>The type invariant of a value: objects are ordered maps, and every number satisfies \<open>P\<close>.\<close>

fun json_all :: "(double \<Rightarrow> bool) \<Rightarrow> jvalue \<Rightarrow> bool" where
  "json_all P JNull = True"
| "json_all P (JBool _) = True"
| "json_all P (JNum d) = P d"
| "json_all P (JStr _) = True"
| "json_all P (JArr vs) = (\<forall>v\<in>set vs. json_all P v)"
| "json_all P (JObj m) = (sorted_keys m \<and> (\<forall>kv\<in>set m. json_all P (snd kv)))"

abbreviation wf_json :: "jvalue \<Rightarrow> bool" where
  "wf_json \<equiv> json_all representable"

text \<open>What may follow a value: nothing, or a byte that no number contains.\<close>

definition delim :: "string \<Rightarrow> bool" where
  "delim r \<longleftrightarrow> r = [] \<or> \<not> is_num_char (hd r)"

definition parses_back :: "jvalue \<Rightarrow> bool" where
  "parses_back v \<longleftrightarrow> (\<forall>r. delim r \<longrightarrow> parse_value (dump_to v @ r) = Some (v, r))"

declare parse_value.simps [simp del] parse_members.simps [simp del] parse_elems.simps [simp del]

lemma ws_Cons [simp]: "\<not> is_ws c \<Longrightarrow> ws (c # s) = c # s"
  by (simp add: ws_def)

lemma ws_Nil [simp]: "ws [] = []"
  by (simp add: ws_def)

lemma not_is_ws [simp]:
  "\<not> is_ws (CHR '','')" "\<not> is_ws (CHR '':'')" "\<not> is_ws (CHR 0x22)"
  "\<not> is_ws (CHR ''{'')" "\<not> is_ws (CHR ''}'')" "\<not> is_ws (CHR ''['')" "\<not> is_ws (CHR '']'')"
  "\<not> is_ws (CHR ''t'')" "\<not> is_ws (CHR ''f'')" "\<not> is_ws (CHR ''n'')" "\<not> is_ws (CHR ''-'')"
  by (simp_all add: is_ws_def)

lemma digit_not_ws: "is_digit c \<Longrightarrow> \<not> is_ws c"
  by (auto simp: is_digit_def is_ws_def byte_of_def)

lemma delim_Cons [simp]:
  "delim (CHR '','' # r)" "delim (CHR '']'' # r)" "delim (CHR ''}'' # r)" "delim []"
  by (auto simp: delim_def is_num_char_def is_digit_def byte_of_def)

lemma scalar_start:
  "\<not> is_ws c \<Longrightarrow> c \<noteq> CHR ''{'' \<Longrightarrow> c \<noteq> CHR ''['' \<Longrightarrow> parse_value (c # s) = scalar (c # s)"
  by (simp add: parse_value.simps [of "c # s"])

lemma parses_back_num: "representable d \<Longrightarrow> parses_back (JNum d)"
  unfolding parses_back_def
proof (intro allI impI)
  fix r assume d: "representable d" and r: "delim r"
  obtain c cs where c: "dump_num d = c # cs" "c = CHR ''-'' \<or> is_digit c"
    using dump_num_chars(2) [OF d] by blast
  then have "\<not> is_ws c" "c \<noteq> CHR ''{''" "c \<noteq> CHR ''[''" "c \<noteq> CHR 0x22" "c \<noteq> CHR ''t''" "c \<noteq> CHR ''f''" "c \<noteq> CHR ''n''"
    by (auto simp: digit_not_ws is_digit_def byte_of_def)
  moreover have "number (c # cs @ r) = Some (JNum d, r)"
    using number_dump_num [OF d] r c(1) by (simp add: delim_def)
  ultimately show "parse_value (dump_to (JNum d) @ r) = Some (JNum d, r)"
    using c by (simp add: scalar_start scalar_def peek_def)
qed

lemma parses_back_str: "parses_back (JStr t)"
  using str_escape_to [of t]
  by (simp add: parses_back_def escape_to_def scalar_start scalar_def peek_def str_value_def)

lemma parses_back_literals: "parses_back JNull" "parses_back (JBool b)"
  by (simp_all add: parses_back_def scalar_start scalar_def peek_def literal_def)

lemma dump_to_hd:
  assumes "wf_json v"
  shows "\<exists>c cs. dump_to v = c # cs \<and> \<not> is_ws c \<and> c \<noteq> CHR '']'' \<and> c \<noteq> CHR ''}''"
proof (cases v)
  case (JNum d)
  then show ?thesis
    using dump_num_chars(2) [of d] assms by (auto simp: digit_not_ws) (auto simp: is_digit_def byte_of_def)
qed (auto simp: escape_to_def)

lemma parse_elems_dump:
  assumes "\<forall>v\<in>set (v # vs). parses_back v"
  shows "parse_elems acc (dump_elems True (v # vs) @ CHR '']'' # r) = Some (JArr (acc @ v # vs), r)"
  using assms
proof (induction vs arbitrary: acc v)
  case Nil
  then show ?case by (simp add: parses_back_def parse_elems.simps [of acc])
next
  case (Cons w vs)
  then show ?case
    by (subst parse_elems.simps) (simp add: parses_back_def)
qed

lemma member_key_dump: "member_key (escape_to k @ CHR '':'' # s) = Some (k, s)"
  using str_escape_to [of k "CHR '':'' # s"] by (simp add: member_key_def escape_to_def)

lemma parse_members_dump:
  assumes "\<forall>kv\<in>set ((k, v) # m). parses_back (snd kv)" "sorted_keys (acc @ (k, v) # m)"
  shows "parse_members acc (dump_members True ((k, v) # m) @ CHR ''}'' # r) = Some (JObj (acc @ (k, v) # m), r)"
  using assms
proof (induction m arbitrary: acc k v)
  case Nil
  then show ?case
    by (simp add: parses_back_def parse_members.simps [of acc] member_key_dump map_put_append)
next
  case (Cons kv m)
  obtain k' v' where kv: "kv = (k', v')" by (cases kv)
  have put: "map_put k v acc = acc @ [(k, v)]"
    using Cons.prems(2) by (intro map_put_append) (auto simp: sorted_keys_def sorted_wrt_append)
  have "parse_members (acc @ [(k, v)]) (dump_members True (kv # m) @ CHR ''}'' # r) =
      Some (JObj ((acc @ [(k, v)]) @ kv # m), r)"
    using Cons.IH [of k' v' "acc @ [(k, v)]"] Cons.prems by (simp add: kv)
  with Cons.prems(1) put show ?case
    by (subst parse_members.simps) (simp add: parses_back_def member_key_dump kv)
qed

lemma wf_parses_back: "wf_json v \<Longrightarrow> parses_back v"
proof (induction v)
  case (JArr vs)
  show ?case
  proof (cases vs)
    case Nil
    then show ?thesis by (simp add: parses_back_def parse_value.simps peek_def)
  next
    case (Cons v ws)
    obtain c cs where c: "dump_to v = c # cs" "\<not> is_ws c" "c \<noteq> CHR '']''"
      using dump_to_hd [of v] JArr.prems Cons by auto
    have "parse_elems [] (dump_elems True vs @ CHR '']'' # r) = Some (JArr vs, r)" for r
      using parse_elems_dump [of v ws "[]" r] JArr Cons by auto
    with c show ?thesis
      by (simp add: parses_back_def parse_value.simps peek_def Cons)
  qed
next
  case (JObj m)
  show ?case
  proof (cases m)
    case Nil
    then show ?thesis by (simp add: parses_back_def parse_value.simps peek_def)
  next
    case (Cons kv ms)
    obtain k v where kv: "kv = (k, v)" by (cases kv)
    have pb: "\<forall>kv\<in>set m. parses_back (snd kv)" using JObj by (auto simp: snds.simps)
    have "parse_members [] (dump_members True m @ CHR ''}'' # r) = Some (JObj m, r)" for r
      using parse_members_dump [of k v ms "[]" r] pb JObj.prems Cons kv by simp
    then show ?thesis
      by (simp add: parses_back_def parse_value.simps peek_def Cons kv escape_to_def)
  qed
qed (simp_all add: parses_back_num parses_back_str parses_back_literals)

lemma parse_dump: "wf_json v \<Longrightarrow> parse (dump v) = Some v"
proof -
  assume "wf_json v"
  then have "parse_value (dump_to v @ []) = Some (v, [])"
    using wf_parses_back [of v] delim_Cons(4) unfolding parses_back_def by blast
  then show ?thesis by (simp add: parse_def dump_def)
qed

text \<open>C5.  Printing and parsing are inverse: for every value whose objects are ordered maps and whose
  numbers are finite binary64 values, \<^verbatim>\<open>json::parse(json::dump(v))\<close> yields \<open>v\<close> again, whatever
  bytes its strings hold.\<close>

theorem json_roundtrip: "wf_json v \<Longrightarrow> parse (dump v) = Some v"
  by (rule parse_dump)

theorem json_roundtrip_witness:
  "wf_json (JObj [(''a'', JNum (Fin 7)), (''b'', JArr [JStr [CHR 0x0A, CHR 0x22], JNull])]) \<and>
   parse (dump (JObj [(''a'', JNum (Fin 7)), (''b'', JArr [JStr [CHR 0x0A, CHR 0x22], JNull])])) =
     Some (JObj [(''a'', JNum (Fin 7)), (''b'', JArr [JStr [CHR 0x0A, CHR 0x22], JNull])])"
proof -
  have "representable (Fin 7)" using round_double_int [of 7] by (simp add: representable_def)
  then have wf: "wf_json (JObj [(''a'', JNum (Fin 7)), (''b'', JArr [JStr [CHR 0x0A, CHR 0x22], JNull])])"
    by (simp add: sorted_keys_def)
  from wf json_roundtrip [OF wf] show ?thesis by (intro conjI)
qed

lemma json_all_map_put:
  "sorted_keys m \<Longrightarrow> \<forall>kv\<in>set m. json_all P (snd kv) \<Longrightarrow> json_all P v \<Longrightarrow> json_all P (JObj (map_put k v m))"
  using set_map_put_subset [of k v m] by (auto simp: sorted_keys_map_put)

section \<open>Building and reading objects\<close>

text \<open>A run of \<^verbatim>\<open>set\<close> calls on a fresh object.\<close>

definition obj :: "(string \<times> jvalue) list \<Rightarrow> jvalue" where
  "obj kvs = fold (\<lambda>(k, v) j. jset k v j) kvs jobject"

lemma jfind_jset [simp]: "jfind k (jset k' v j) = (if k = k' then Some v else jfind k j)"
  by (cases j) auto

lemma is_object_jset [simp]: "is_object (jset k v j)"
  by (cases j) auto

lemma wf_jset: "wf_json v \<Longrightarrow> is_object j \<Longrightarrow> wf_json j \<Longrightarrow> wf_json (jset k v j)"
  by (cases j) (auto simp del: json_all.simps(6) intro!: json_all_map_put, auto)

lemma obj_snoc: "obj (kvs @ [(k, v)]) = jset k v (obj kvs)"
  by (simp add: obj_def)

lemma is_object_obj [simp]: "is_object (obj kvs)"
  by (induction kvs rule: rev_induct) (auto simp: obj_snoc, simp add: obj_def)

lemma jfind_obj [simp]: "jfind k (obj kvs) = map_of (rev kvs) k"
  by (induction kvs rule: rev_induct) (auto simp: obj_snoc, simp add: obj_def)

lemma wf_obj [intro]: "list_all (\<lambda>kv. wf_json (snd kv)) kvs \<Longrightarrow> wf_json (obj kvs)"
  by (induction kvs rule: rev_induct) (auto simp: obj_snoc intro!: wf_jset, simp add: obj_def)

lemma obj_not_null [simp]: "obj kvs \<noteq> JNull"
  using is_object_obj [of kvs] by (metis is_object.simps(2))

lemma get_obj [simp]:
  "get_str k d (obj kvs) = (case map_of (rev kvs) k of Some (JStr s) \<Rightarrow> s | _ \<Rightarrow> d)"
  "get_num k x (obj kvs) = (case map_of (rev kvs) k of Some (JNum y) \<Rightarrow> y | _ \<Rightarrow> x)"
  "get_bool k b (obj kvs) = (case map_of (rev kvs) k of Some (JBool c) \<Rightarrow> c | _ \<Rightarrow> b)"
  by (simp_all add: get_str_def get_num_def get_bool_def)

lemma representable_small_int [simp]: "\<bar>n\<bar> < 2 ^ 53 \<Longrightarrow> representable (double_of_int n)"
  by (simp add: double_of_int_small representable_def round_double_int)

section \<open>Unicode escapes\<close>

text \<open>The reference encoding of a Unicode scalar value, and its JSON escape (a surrogate pair beyond
  the basic plane).\<close>

definition utf8_ref :: "nat \<Rightarrow> string" where
  "utf8_ref n =
     (if n < 0x80 then [char_of n]
      else if n < 0x800 then [char_of (0xC0 + n div 64), char_of (0x80 + n mod 64)]
      else if n < 0x10000 then
        [char_of (0xE0 + n div 4096), char_of (0x80 + n div 64 mod 64), char_of (0x80 + n mod 64)]
      else
        [char_of (0xF0 + n div 262144), char_of (0x80 + n div 4096 mod 64),
         char_of (0x80 + n div 64 mod 64), char_of (0x80 + n mod 64)])"

definition u4 :: "nat \<Rightarrow> string" where
  "u4 n = [CHR 0x5C, CHR ''u'', hex_char (n div 4096), hex_char (n div 256 mod 16),
           hex_char (n div 16 mod 16), hex_char (n mod 16)]"

definition u_escape :: "nat \<Rightarrow> string" where
  "u_escape n =
     (if n < 0x10000 then u4 n
      else u4 (0xD800 + (n - 0x10000) div 1024) @ u4 (0xDC00 + (n - 0x10000) mod 1024))"

lemma hex4_u4:
  assumes "n < 0x10000"
  shows "hex4 (drop 2 (u4 n) @ s) = Some (of_nat n, s)"
proof -
  have "(((of_nat (n div 4096) * 16 + of_nat (n div 256 mod 16)) * 16 + of_nat (n div 16 mod 16)) * 16
      + of_nat (n mod 16) :: 32 word) = of_nat n"
  proof -
    have "n div 4096 * 16 + n div 256 mod 16 = n div 256" "n div 256 * 16 + n div 16 mod 16 = n div 16"
      using div_mult_mod_eq [of "n div 256" 16] div_mult_mod_eq [of "n div 16" 16]
      by (simp_all flip: div_mult2_eq)
    then have "((n div 4096 * 16 + n div 256 mod 16) * 16 + n div 16 mod 16) * 16 + n mod 16 = n" by simp
    from arg_cong [OF this, of "of_nat :: nat \<Rightarrow> 32 word"] show ?thesis
      by (simp only: of_nat_add of_nat_mult of_nat_numeral)
  qed
  moreover have "n div 4096 < 16" using assms by simp
  ultimately show ?thesis
    by (simp add: u4_def hex4_Suc push_or_add [where n = 4, simplified])
qed

lemma and_63_of_nat32:
  assumes "n < 2 ^ 32"
  shows "(of_nat n :: 32 word) AND 0x3f = of_nat (n mod 64)"
proof (rule word_unat_eq_iff [THEN iffD2])
  have m: "(0x3f :: 32 word) = mask 6" by (simp add: mask_eq_exp_minus_1)
  have "n mod 64 < 2 ^ 32" by (rule order.strict_trans [OF mod_less_divisor]) simp_all
  then show "unat ((of_nat n :: 32 word) AND 0x3f) = unat (of_nat (n mod 64) :: 32 word)"
    unfolding m using assms
    by (simp only: take_bit_eq_mask [symmetric] unsigned_take_bit_eq unat_of_nat32)
       (simp add: take_bit_eq_mod)
qed

lemmas to_byte_markers =
  to_byte_marker [where k = 6 and v = 3, simplified] to_byte_marker [where k = 6 and v = 2, simplified]
  to_byte_marker [where k = 5 and v = 7, simplified] to_byte_marker [where k = 4 and v = 15, simplified]

lemma encode_utf8_ref:
  assumes "n < 0x110000"
  shows "encode_utf8 (of_nat n) = utf8_ref n"
proof -
  have n: "n < 2 ^ 32" using assms by simp
  have le: "b < 2 ^ 32 \<Longrightarrow> (of_nat n :: 32 word) \<le> of_nat b \<longleftrightarrow> n \<le> b" for b :: nat
    using n by (simp add: word_le_nat_alt unat_of_nat)
  have cond: "(of_nat n :: 32 word) \<le> 0x7f \<longleftrightarrow> n < 0x80" "(of_nat n :: 32 word) \<le> 0x7ff \<longleftrightarrow> n < 0x800"
    "(of_nat n :: 32 word) \<le> 0xffff \<longleftrightarrow> n < 0x10000"
    using le [of "0x7f"] le [of "0x7ff"] le [of "0xffff"] by auto
  have "n div 4096 < 2 ^ 32" "n div 64 < 2 ^ 32" using assms by auto
  then show ?thesis
    unfolding encode_utf8_def utf8_ref_def cond
    using assms n
    by (simp add: drop_bit_of_nat32 [OF n] and_63_of_nat32 to_byte_markers)
       (simp add: to_byte_def unat_of_nat)
qed


definition scalar_value :: "nat \<Rightarrow> bool" where
  "scalar_value n \<longleftrightarrow> n < 0x110000 \<and> \<not> (0xD800 \<le> n \<and> n \<le> 0xDFFF)"

lemma unicode_escape_u_escape:
  assumes "scalar_value n"
  shows "unicode_escape (drop 2 (u_escape n) @ s) = Some (of_nat n, s)"
proof (cases "n < 0x10000")
  case True
  then have "\<not> (0xd800 \<le> (of_nat n :: 32 word) \<and> (of_nat n :: 32 word) \<le> 0xdbff)"
    using assms le_of_nat32 [of "0xd800" n] le_of_nat32 [of n "0xdbff"]
    by (auto simp: scalar_value_def)
  with True show ?thesis by (auto simp: u_escape_def unicode_escape_def hex4_u4)
next
  case False
  define hi where "hi = (n - 0x10000) div 1024"
  define lo where "lo = (n - 0x10000) mod 1024"
  have hl: "hi < 1024" "lo < 1024" "n = 0x10000 + hi * 1024 + lo"
    using assms False by (auto simp: hi_def lo_def scalar_value_def)
  have esc: "drop 2 (u_escape n) @ s = drop 2 (u4 (0xD800 + hi)) @ u4 (0xDC00 + lo) @ s"
    using False by (simp add: u_escape_def hi_def lo_def u4_def)
  have h1: "hex4 (drop 2 (u4 (0xD800 + hi)) @ r) = Some (of_nat (0xD800 + hi), r)" for r
    using hl by (intro hex4_u4) simp
  have h2: "hex4 (drop 2 (u4 (0xDC00 + lo)) @ s) = Some (of_nat (0xDC00 + lo), s)"
    using hl by (intro hex4_u4) simp
  have hs: "0xd800 \<le> (of_nat (0xD800 + hi) :: 32 word)" "(of_nat (0xD800 + hi) :: 32 word) \<le> 0xdbff"
    "0xdc00 \<le> (of_nat (0xDC00 + lo) :: 32 word)" "(of_nat (0xDC00 + lo) :: 32 word) \<le> 0xdfff"
    using hl le_of_nat32 [of "0xd800" "0xD800 + hi"] le_of_nat32 [of "0xD800 + hi" "0xdbff"]
      le_of_nat32 [of "0xdc00" "0xDC00 + lo"] le_of_nat32 [of "0xDC00 + lo" "0xdfff"] by auto
  have "0x10000 + push_bit 10 (of_nat (0xD800 + hi) - 0xd800) + (of_nat (0xDC00 + lo) - 0xdc00) =
      (of_nat n :: 32 word)"
    using hl(3) by (simp add: push_bit_eq_mult)
  moreover have "take 2 (u4 (0xDC00 + lo) @ s) = [CHR 0x5C, CHR ''u'']"
    "drop 2 (u4 (0xDC00 + lo) @ s) = drop 2 (u4 (0xDC00 + lo)) @ s" by (simp_all add: u4_def)
  ultimately show ?thesis
    unfolding esc unicode_escape_def using hs h1 h2 by simp
qed

lemma u_escape_split: "u_escape n = CHR 0x5C # CHR ''u'' # drop 2 (u_escape n)"
  by (simp add: u_escape_def u4_def)

text \<open> Unicode escapes: the escape of every Unicode scalar value, a surrogate pair included, is
  parsed to the UTF-8 encoding of that value.\<close>

theorem json_unicode_escape:
  "scalar_value n \<Longrightarrow> parse (CHR 0x22 # u_escape n @ [CHR 0x22]) = Some (JStr (utf8_ref n))"
proof -
  assume n: "scalar_value n"
  then have "encode_utf8 (of_nat n) = utf8_ref n" by (intro encode_utf8_ref) (simp add: scalar_value_def)
  with n have "escape_seq (CHR ''u'' # drop 2 (u_escape n) @ s) = Some (utf8_ref n, s)" for s
    by (simp add: escape_seq_def unicode_escape_u_escape)
  then have "str (CHR 0x22 # u_escape n @ [CHR 0x22]) = Some (utf8_ref n, [])"
    by (subst u_escape_split) (simp add: str_def peek_def)
  then show ?thesis
    by (simp add: parse_def scalar_start scalar_def peek_def str_value_def)
qed

theorem json_unicode_escape_witness:
  "scalar_value 0x1F600 \<and>
   parse (CHR 0x22 # u_escape 0x1F600 @ [CHR 0x22]) = Some (JStr [CHR 0xF0, CHR 0x9F, CHR 0x98, CHR 0x80])"
proof -
  have n: "scalar_value 0x1F600" by (simp add: scalar_value_def)
  have "char_of (240::nat) = CHR 0xF0" "char_of (159::nat) = CHR 0x9F"
    "char_of (152::nat) = CHR 0x98" "char_of (128::nat) = CHR 0x80"
    by code_simp+
  then have "utf8_ref 0x1F600 = [CHR 0xF0, CHR 0x9F, CHR 0x98, CHR 0x80]"
    by (simp add: utf8_ref_def)
  with n json_unicode_escape [OF n] show ?thesis by simp
qed

section \<open>What is printed\<close>

lemma escape_char_printable: "\<forall>c'\<in>set (escape_char c). 32 \<le> byte_of c'"
proof -
  have "d < 16 \<Longrightarrow> 32 \<le> byte_of (hex_char d)" for d
    by (simp add: hex_char_def byte_of_char_of)
  then have "byte_of c < 32 \<Longrightarrow> 32 \<le> byte_of (hex_char (byte_of c div 16))"
    "32 \<le> byte_of (hex_char (byte_of c mod 16))" by simp_all
  moreover have "32 \<le> byte_of (CHR 0x5C)" "32 \<le> byte_of (CHR 0x22)" "32 \<le> byte_of (CHR ''b'')"
    "32 \<le> byte_of (CHR ''f'')" "32 \<le> byte_of (CHR ''n'')" "32 \<le> byte_of (CHR ''r'')"
    "32 \<le> byte_of (CHR ''t'')" "32 \<le> byte_of (CHR ''u'')" "32 \<le> byte_of (CHR ''0'')"
    by (simp_all add: byte_of_def)
  ultimately show ?thesis by simp
qed

lemma escape_to_printable: "\<forall>c\<in>set (escape_to s). 32 \<le> byte_of c"
  using escape_char_printable by (auto simp: escape_to_def simp del: escape_char.simps) (simp add: byte_of_def)

lemma num_char_printable: "is_num_char c \<Longrightarrow> 32 \<le> byte_of c"
  by (auto simp: is_num_char_def is_digit_def byte_of_def)

lemma dump_num_printable: "\<forall>c\<in>set (dump_num d). 32 \<le> byte_of c"
proof -
  have "\<forall>c\<in>set (fmt_g17 d). 32 \<le> byte_of c"
    using fmt_pos_chars num_char_printable by (cases d) (auto simp: byte_of_def)
  then show ?thesis
    using to_string_chars num_char_printable by (auto simp: dump_num_def)
qed

text \<open> The printed form of any value contains no control character: a message is one line of
  bytes at or above 0x20.\<close>

theorem dump_printable: "list_all (\<lambda>c. 32 \<le> byte_of c) (dump v)"
proof -
  have "\<forall>c\<in>set (dump_to v). 32 \<le> byte_of c"
    and "\<forall>c\<in>set (dump_elems first vs). 32 \<le> byte_of c"
    and "\<forall>c\<in>set (dump_members first m). 32 \<le> byte_of c" for first vs m
    by (induction v and first vs and first m rule: dump_to_dump_elems_dump_members.induct)
      (simp_all add: dump_num_printable escape_to_printable ball_Un, simp_all add: byte_of_def)
  then show ?thesis by (simp add: dump_def list_all_iff)
qed

end
