(* ===== verification/StreamConfig.thy ===== *)
theory StreamConfig
  imports Json
begin

text \<open>
  Validation of the \<^verbatim>\<open>client.start\<close> settings (\<^verbatim>\<open>src/src/client/stream_config.h\<close>,
  \<^verbatim>\<open>src/src/client/stream_config.cpp\<close>).
\<close>

section \<open>Operations\<close>

record stream_settings =
  ss_width :: int
  ss_height :: int
  ss_fps :: int
  bitrateKbps :: int
  displayMode :: string
  ss_hdr :: bool

definition default_settings :: stream_settings where
  "default_settings =
     \<lparr>ss_width = 1920, ss_height = 1080, ss_fps = 60, bitrateKbps = 20000, displayMode = ''fullscreen'', ss_hdr = False\<rparr>"

definition is_known_mode :: "string \<Rightarrow> bool" where
  "is_known_mode m \<longleftrightarrow> m = ''windowed'' \<or> m = ''fullscreen'' \<or> m = ''borderless''"

text \<open>The fields as they are read, before the range checks.\<close>

definition read_settings :: "jvalue \<Rightarrow> stream_settings" where
  "read_settings v =
     (let s = default_settings
      in \<lparr>ss_width = cast_int (get_num ''width'' (double_of_int (ss_width s)) v),
          ss_height = cast_int (get_num ''height'' (double_of_int (ss_height s)) v),
          ss_fps = cast_int (get_num ''fps'' (double_of_int (ss_fps s)) v),
          bitrateKbps = cast_int (get_num ''bitrateKbps'' (double_of_int (bitrateKbps s)) v),
          displayMode = get_str ''displayMode'' (displayMode s) v,
          ss_hdr = get_bool ''hdr'' (ss_hdr s) v\<rparr>)"

definition validate_stream_settings :: "jvalue \<Rightarrow> (string \<times> string) + stream_settings" where
  "validate_stream_settings settings =
     (if is_null settings then Inr default_settings
      else if \<not> is_object settings then Inl (''bad_params'', ''settings must be an object'')
      else
        let s = read_settings settings
        in if ss_width s < 256 \<or> ss_width s > 7680 then Inl (''bad_params'', ''width out of range [256,7680]'')
           else if ss_height s < 144 \<or> ss_height s > 4320 then Inl (''bad_params'', ''height out of range [144,4320]'')
           else if ss_fps s < 10 \<or> ss_fps s > 240 then Inl (''bad_params'', ''fps out of range [10,240]'')
           else if bitrateKbps s < 500 \<or> bitrateKbps s > 500000
           then Inl (''bad_params'', ''bitrateKbps out of range [500,500000]'')
           else if \<not> is_known_mode (displayMode s)
           then Inl (''bad_params'', ''displayMode must be windowed|fullscreen|borderless'')
           else Inr s)"

section \<open>What is accepted\<close>

definition in_bounds :: "stream_settings \<Rightarrow> bool" where
  "in_bounds s \<longleftrightarrow> ss_width s \<in> {256..7680} \<and> ss_height s \<in> {144..4320} \<and> ss_fps s \<in> {10..240}
     \<and> bitrateKbps s \<in> {500..500000} \<and> is_known_mode (displayMode s)"

definition settings_json :: "stream_settings \<Rightarrow> jvalue" where
  "settings_json s = obj [(''width'', JNum (double_of_int (ss_width s))), (''height'', JNum (double_of_int (ss_height s))),
     (''fps'', JNum (double_of_int (ss_fps s))), (''bitrateKbps'', JNum (double_of_int (bitrateKbps s))),
     (''displayMode'', JStr (displayMode s)), (''hdr'', JBool (ss_hdr s))]"

lemma default_in_bounds: "in_bounds default_settings"
  by (simp add: in_bounds_def default_settings_def is_known_mode_def)

lemma validate_ok: "validate_stream_settings v = Inr s \<Longrightarrow> in_bounds s"
  using default_in_bounds
  by (auto simp: validate_stream_settings_def Let_def in_bounds_def split: if_splits)

lemma validate_object:
  "is_object v \<Longrightarrow> in_bounds (read_settings v) \<Longrightarrow> validate_stream_settings v = Inr (read_settings v)"
  by (cases v) (auto simp: validate_stream_settings_def Let_def in_bounds_def)

lemma read_settings_json: "in_bounds s \<Longrightarrow> read_settings (settings_json s) = s"
  by (simp add: read_settings_def settings_json_def in_bounds_def cast_int_double_of_int Let_def)

lemma validate_error:
  "validate_stream_settings v = Inl e \<Longrightarrow> v \<noteq> JNull \<and> fst e = ''bad_params'' \<and> (\<not> is_object v \<or> \<not> in_bounds (read_settings v))"
  by (cases v) (auto simp: validate_stream_settings_def Let_def in_bounds_def split: if_splits)

section \<open>Property\<close>

text \<open>
  Validation accepts exactly what is in bounds: accepted settings lie in the documented ranges
  whatever value was sent (missing, of another type, huge or infinite numbers included), every
  in-bounds settings object sent by a launcher is accepted unchanged, a null request means the
  defaults, and every refusal is \<^verbatim>\<open>bad_params\<close> and was deserved.
\<close>

theorem settings_validation:
  shows "(case validate_stream_settings v of
            Inr s \<Rightarrow> in_bounds s \<and> (if v = JNull then s = default_settings else is_object v \<and> s = read_settings v)
          | Inl (code, msg) \<Rightarrow> code = ''bad_params'' \<and> v \<noteq> JNull \<and> (\<not> is_object v \<or> \<not> in_bounds (read_settings v)))
         \<and> (in_bounds s \<longrightarrow> validate_stream_settings (settings_json s) = Inr s)"
proof
  show "case validate_stream_settings v of
            Inr s \<Rightarrow> in_bounds s \<and> (if v = JNull then s = default_settings else is_object v \<and> s = read_settings v)
          | Inl (code, msg) \<Rightarrow> code = ''bad_params'' \<and> v \<noteq> JNull \<and> (\<not> is_object v \<or> \<not> in_bounds (read_settings v))"
  proof (cases "validate_stream_settings v")
    case (Inl e)
    then show ?thesis using validate_error [OF Inl] by (cases e) auto
  next
    case (Inr s)
    then have "if v = JNull then s = default_settings else is_object v \<and> s = read_settings v"
      by (cases v) (auto simp: validate_stream_settings_def Let_def split: if_splits)
    then show ?thesis using validate_ok [OF Inr] Inr by simp
  qed
  show "in_bounds s \<longrightarrow> validate_stream_settings (settings_json s) = Inr s"
  proof
    assume s: "in_bounds s"
    have "is_object (settings_json s)" by (simp add: settings_json_def)
    then show "validate_stream_settings (settings_json s) = Inr s"
      using validate_object [of "settings_json s"] s by (simp add: read_settings_json)
  qed
qed

theorem settings_validation_witness:
  "validate_stream_settings (settings_json \<lparr>ss_width = 2560, ss_height = 1440, ss_fps = 120, bitrateKbps = 50000,
      displayMode = ''borderless'', ss_hdr = True\<rparr>)
   = Inr \<lparr>ss_width = 2560, ss_height = 1440, ss_fps = 120, bitrateKbps = 50000, displayMode = ''borderless'', ss_hdr = True\<rparr>"
  by (rule settings_validation [THEN conjunct2, rule_format]) (simp add: in_bounds_def is_known_mode_def)

end
