(* ===== verification/StreamSession.thy ===== *)
theory StreamSession
  imports StreamConfig
begin

text \<open>
  The live stream driver (\<^verbatim>\<open>src/src/client/stream_session.h\<close>,
  \<^verbatim>\<open>src/src/client/stream_session.cpp\<close>, the build with the renderer): the configuration handed to the
  streaming library, and the session as a machine of two threads.  The IPC thread calls \<^verbatim>\<open>start\<close> and
  \<^verbatim>\<open>stop\<close>; the worker runs \<^verbatim>\<open>run\<close>; the library's listener callbacks arrive while it connects or
  streams.  What the library, the window system and the host do is left open: a step for each outcome.
\<close>

unbundle bit_operations_syntax

section \<open>Configuration\<close>

record start_info =
  si_host :: string
  serverAppVersion :: string
  si_gfeVersion :: string
  si_rtspSessionUrl :: string
  serverCodecModeSupport :: int
  si_settings :: stream_settings
  si_riKey :: bytes
  si_riKeyId :: int
  embedWindow :: bool

record state_event =
  ev_phase :: string
  ev_reason :: string
  nativeWindow :: string

text \<open>\<^verbatim>\<open>STREAM_CONFIGURATION\<close>, whose fixed fields are named constants of the library, and
  \<^verbatim>\<open>SERVER_INFORMATION\<close>; a null pointer is \<^term>\<open>None\<close>.\<close>

datatype library_constant =
    STREAM_CFG_AUTO
  | AUDIO_CONFIGURATION_STEREO
  | VIDEO_FORMAT_H264
  | COLORSPACE_REC_709
  | COLOR_RANGE_LIMITED
  | ENCFLG_AUDIO

record stream_configuration =
  cfg_width :: int
  cfg_height :: int
  cfg_fps :: int
  cfg_bitrate :: int
  packetSize :: int
  streamingRemotely :: library_constant
  audioConfiguration :: library_constant
  supportedVideoFormats :: library_constant
  colorSpace :: library_constant
  colorRange :: library_constant
  encryptionFlags :: library_constant
  remoteInputAesKey :: bytes
  remoteInputAesIv :: bytes

record server_information =
  sv_address :: string
  serverInfoAppVersion :: string
  serverInfoGfeVersion :: "string option"
  sv_rtspSessionUrl :: string
  sv_codecSupport :: int

definition ri_iv :: "int \<Rightarrow> bytes" where
  "ri_iv keyId =
     (let w = (of_int keyId :: 32 word)
      in [to_byte (drop_bit 24 w AND 0xFF), to_byte (drop_bit 16 w AND 0xFF), to_byte (drop_bit 8 w AND 0xFF), to_byte (w AND 0xFF)]
         @ replicate 12 (CHR 0x00))"

definition stream_config :: "start_info \<Rightarrow> stream_configuration" where
  "stream_config info =
     \<lparr>cfg_width = ss_width (si_settings info), cfg_height = ss_height (si_settings info),
      cfg_fps = ss_fps (si_settings info), cfg_bitrate = bitrateKbps (si_settings info), packetSize = 1024,
      streamingRemotely = STREAM_CFG_AUTO, audioConfiguration = AUDIO_CONFIGURATION_STEREO, supportedVideoFormats = VIDEO_FORMAT_H264,
      colorSpace = COLORSPACE_REC_709, colorRange = COLOR_RANGE_LIMITED, encryptionFlags = ENCFLG_AUDIO,
      remoteInputAesKey = take 16 (si_riKey info), remoteInputAesIv = ri_iv (si_riKeyId info)\<rparr>"

definition server_info :: "start_info \<Rightarrow> server_information" where
  "server_info info =
     \<lparr>sv_address = si_host info, serverInfoAppVersion = serverAppVersion info,
      serverInfoGfeVersion = (if si_gfeVersion info = [] then None else Some (si_gfeVersion info)),
      sv_rtspSessionUrl = si_rtspSessionUrl info, sv_codecSupport = serverCodecModeSupport info\<rparr>"

section \<open>The session\<close>

text \<open>Where the worker thread is: not started (or joined); about to make the window; inside
  \<^verbatim>\<open>LiStartConnection\<close>; in its loop; past the loop; past \<^verbatim>\<open>LiStopConnection\<close>; past
  \<^verbatim>\<open>running_ = false\<close> with an event still to emit; past that with the destructors of its locals still
  to run; returned but not yet joined.\<close>

datatype worker =
    NoThread
  | Setup start_info
  | Connecting start_info bool
  | Looping start_info bool
  | Leaving bool
  | Stopped bool
  | Emitting "state_event option"
  | Returning
  | Finished

record session =
  ses_running :: bool
  stop_requested :: bool
  ses_worker :: worker
  joining :: bool
  g_sink :: bool
  g_video :: bool
  window_up :: bool
  connected :: bool
  ses_events :: "state_event list"
  crashed :: bool

definition new_session :: session where
  "new_session =
     \<lparr>ses_running = False, stop_requested = False, ses_worker = NoThread, joining = False, g_sink = False,
      g_video = False, window_up = False, connected = False, ses_events = [], crashed = False\<rparr>"

definition emit_event :: "string \<Rightarrow> string \<Rightarrow> session \<Rightarrow> session" where
  "emit_event phase reason s =
     (if g_sink s then s\<lparr>ses_events := ses_events s @ [\<lparr>ev_phase = phase, ev_reason = reason, nativeWindow = []\<rparr>]\<rparr> else s)"

text \<open>The listener callbacks; the code of a graceful end is the library's.\<close>

datatype listener_event =
    StageStarting string
  | StageFailed string int
  | ConnectionStarted
  | ConnectionTerminated int

fun listener :: "int \<Rightarrow> listener_event \<Rightarrow> session \<Rightarrow> session" where
  "listener graceful (StageStarting stage) s = emit_event ''connecting'' stage s"
| "listener graceful (StageFailed stage code) s =
     emit_event ''error'' (''stage '' @ [CHR 0x27] @ stage @ [CHR 0x27] @ '' failed (code '' @ to_string code @ '')'') s"
| "listener graceful ConnectionStarted s = emit_event ''streaming'' [] s"
| "listener graceful (ConnectionTerminated code) s =
     (if code = graceful then emit_event ''ended'' ''host ended the session'' s
      else emit_event ''error'' (''connection terminated (code '' @ to_string code @ '')'') s)"

text \<open>\<^verbatim>\<open>StreamSession::start\<close>.  Assigning a new thread to a joinable \<^verbatim>\<open>std::thread\<close> calls
  \<^verbatim>\<open>std::terminate\<close>.\<close>

definition session_start :: "start_info \<Rightarrow> session \<Rightarrow> string option \<times> session" where
  "session_start info s =
     (if ses_running s then (Some ''a stream is already running'', s)
      else if length (si_riKey info) \<noteq> 16 then (Some ''remote-input AES key must be 16 bytes'', s)
      else if si_rtspSessionUrl info = []
      then (Some ''missing RTSP session URL (launch/resume did not complete)'', s)
      else
        let s1 = s\<lparr>g_sink := True, ses_running := True, stop_requested := False\<rparr>
        in (None, if ses_worker s1 = NoThread then s1\<lparr>ses_worker := Setup info\<rparr> else s1\<lparr>crashed := True\<rparr>))"

text \<open>\<^verbatim>\<open>StreamSession::stop\<close> up to the join, and from it on.\<close>

definition stop_end :: "session \<Rightarrow> session" where
  "stop_end s = s\<lparr>ses_worker := NoThread, joining := False, ses_running := False, g_sink := False\<rparr>"

definition stop_begin :: "session \<Rightarrow> session" where
  "stop_begin s =
     (let s1 = s\<lparr>stop_requested := True\<rparr>
      in if ses_worker s1 = NoThread then stop_end s1 else s1\<lparr>joining := True\<rparr>)"

text \<open>The parts of \<^verbatim>\<open>StreamSession::run\<close>, as far as they concern the session: the window is made or not,
  the connection fails or comes up, the loop is left, the connection is stopped, everything is torn
  down, the last event is emitted, the worker returns.\<close>

definition window_made :: "start_info \<Rightarrow> string \<Rightarrow> session \<Rightarrow> session" where
  "window_made i h s =
     s\<lparr>ses_worker := Connecting i True, g_video := True, window_up := True,
       ses_events := ses_events s @ [\<lparr>ev_phase = ''window'', ev_reason = [], nativeWindow = h\<rparr>]\<rparr>"

definition no_window :: "start_info \<Rightarrow> session \<Rightarrow> session" where
  "no_window i s = s\<lparr>ses_worker := Connecting i False\<rparr>"

definition connect_failed :: "int \<Rightarrow> session \<Rightarrow> session" where
  "connect_failed rc s =
     s\<lparr>ses_running := False, g_video := False,
       ses_worker := Emitting (Some \<lparr>ev_phase = ''error'',
         ev_reason = ''LiStartConnection failed (code '' @ to_string rc @ '')'', nativeWindow = []\<rparr>)\<rparr>"

definition connection_up :: "start_info \<Rightarrow> bool \<Rightarrow> session \<Rightarrow> session" where
  "connection_up i v s = s\<lparr>ses_worker := Looping i v, connected := True\<rparr>"

definition leave_loop :: "bool \<Rightarrow> session \<Rightarrow> session" where
  "leave_loop userClosed s = s\<lparr>ses_worker := Leaving userClosed\<rparr>"

definition connection_stopped :: "bool \<Rightarrow> session \<Rightarrow> session" where
  "connection_stopped userClosed s = s\<lparr>connected := False, g_video := False, ses_worker := Stopped userClosed\<rparr>"

definition torn_down :: "bool \<Rightarrow> session \<Rightarrow> session" where
  "torn_down userClosed s =
     s\<lparr>window_up := False, ses_running := False,
       ses_worker := Emitting (if userClosed then Some \<lparr>ev_phase = ''ended'', ev_reason = ''window closed'', nativeWindow = []\<rparr>
                               else None)\<rparr>"

definition emit_last :: "state_event option \<Rightarrow> session \<Rightarrow> session" where
  "emit_last e s =
     (case e of None \<Rightarrow> s | Some ev \<Rightarrow> emit_event (ev_phase ev) (ev_reason ev) s)\<lparr>ses_worker := Returning\<rparr>"

definition returned :: "session \<Rightarrow> session" where
  "returned s = s\<lparr>ses_worker := Finished, window_up := False\<rparr>"

lemmas worker_ops = window_made_def no_window_def connect_failed_def connection_up_def leave_loop_def connection_stopped_def
  torn_down_def emit_last_def returned_def

text \<open>The worker takes one step per point where another thread can come between.\<close>

inductive worker_step :: "session \<Rightarrow> session \<Rightarrow> bool" where
  WindowMade: "ses_worker s = Setup i \<Longrightarrow> worker_step s (window_made i h s)"
| NoWindow: "ses_worker s = Setup i \<Longrightarrow> worker_step s (no_window i s)"
| ConnectFailed: "ses_worker s = Connecting i v \<Longrightarrow> rc \<noteq> 0 \<Longrightarrow> worker_step s (connect_failed rc s)"
| Connected: "ses_worker s = Connecting i v \<Longrightarrow> worker_step s (connection_up i v s)"
| WindowClosed: "ses_worker s = Looping i True \<Longrightarrow> worker_step s (leave_loop True s)"
| StopSeen: "ses_worker s = Looping i v \<Longrightarrow> stop_requested s \<Longrightarrow> worker_step s (leave_loop False s)"
| ConnectionStopped: "ses_worker s = Leaving uc \<Longrightarrow> worker_step s (connection_stopped uc s)"
| TearDown: "ses_worker s = Stopped uc \<Longrightarrow> worker_step s (torn_down uc s)"
| EmitLast: "ses_worker s = Emitting e \<Longrightarrow> worker_step s (emit_last e s)"
| Returned: "ses_worker s = Returning \<Longrightarrow> worker_step s (returned s)"

definition listening :: "session \<Rightarrow> bool" where
  "listening s \<longleftrightarrow> (case ses_worker s of Connecting _ _ \<Rightarrow> True | Looping _ _ \<Rightarrow> True | Leaving _ \<Rightarrow> True | _ \<Rightarrow> False)"

inductive session_step :: "int \<Rightarrow> session \<Rightarrow> session \<Rightarrow> bool" for graceful :: int where
  Start: "\<not> crashed s \<Longrightarrow> \<not> joining s \<Longrightarrow> session_step graceful s (snd (session_start info s))"
| StopBegin: "\<not> crashed s \<Longrightarrow> \<not> joining s \<Longrightarrow> session_step graceful s (stop_begin s)"
| StopEnd: "\<not> crashed s \<Longrightarrow> joining s \<Longrightarrow> ses_worker s = Finished \<Longrightarrow> session_step graceful s (stop_end s)"
| Worker: "\<not> crashed s \<Longrightarrow> worker_step s s' \<Longrightarrow> session_step graceful s s'"
| Callback: "\<not> crashed s \<Longrightarrow> listening s \<Longrightarrow> session_step graceful s (listener graceful e s)"

inductive_cases worker_step_cases: "worker_step s s'"
inductive_cases session_step_cases: "session_step graceful s s'"

section \<open>The invariant\<close>

definition busy :: "worker \<Rightarrow> bool" where
  "busy w \<longleftrightarrow> (case w of Setup _ \<Rightarrow> True | Connecting _ _ \<Rightarrow> True | Looping _ _ \<Rightarrow> True | Leaving _ \<Rightarrow> True | Stopped _ \<Rightarrow> True
                | _ \<Rightarrow> False)"

definition session_inv :: "session \<Rightarrow> bool" where
  "session_inv s \<longleftrightarrow>
     (ses_running s \<longleftrightarrow> busy (ses_worker s))
     \<and> (g_sink s \<longleftrightarrow> ses_worker s \<noteq> NoThread)
     \<and> (joining s \<longrightarrow> stop_requested s \<and> ses_worker s \<noteq> NoThread)
     \<and> (connected s \<longleftrightarrow> (\<exists>i v. ses_worker s = Looping i v) \<or> (\<exists>c. ses_worker s = Leaving c))
     \<and> (g_video s \<longleftrightarrow> listening s \<and> window_up s)
     \<and> (\<forall>i. ses_worker s = Setup i \<longrightarrow> \<not> window_up s)
     \<and> (window_up s \<longrightarrow> busy (ses_worker s) \<or> (\<exists>e. ses_worker s = Emitting e) \<or> ses_worker s = Returning)"

lemma emit_event_frame:
  "ses_running (emit_event p r s) = ses_running s" "ses_worker (emit_event p r s) = ses_worker s"
  "g_sink (emit_event p r s) = g_sink s" "joining (emit_event p r s) = joining s"
  "stop_requested (emit_event p r s) = stop_requested s" "connected (emit_event p r s) = connected s"
  "g_video (emit_event p r s) = g_video s" "window_up (emit_event p r s) = window_up s"
  "crashed (emit_event p r s) = crashed s"
  by (simp_all add: emit_event_def)

lemma session_inv_emit: "session_inv (emit_event p r s) = session_inv s"
  by (simp add: session_inv_def listening_def emit_event_frame)

lemma session_inv_listener: "session_inv (listener graceful e s) = session_inv s" "crashed (listener graceful e s) = crashed s"
  by (cases e; simp add: session_inv_emit emit_event_frame)+

lemma session_inv_worker: "worker_step s s' \<Longrightarrow> session_inv s \<Longrightarrow> session_inv s' \<and> crashed s' = crashed s"
  by (induction rule: worker_step.induct)
    (auto simp: worker_ops session_inv_def busy_def listening_def emit_event_frame split: option.splits)

lemma session_inv_start:
  "session_inv s \<Longrightarrow> \<not> joining s \<Longrightarrow> \<not> crashed (snd (session_start info s)) \<Longrightarrow> session_inv (snd (session_start info s))"
  by (auto simp: session_start_def session_inv_def busy_def listening_def Let_def split: if_splits)

lemma session_inv_stop: "session_inv s \<Longrightarrow> \<not> joining s \<Longrightarrow> session_inv (stop_begin s)"
  by (auto simp: stop_begin_def stop_end_def session_inv_def busy_def listening_def Let_def)

lemma session_inv_stop_end: "session_inv s \<Longrightarrow> ses_worker s = Finished \<Longrightarrow> session_inv (stop_end s)"
  by (auto simp: stop_end_def session_inv_def busy_def listening_def)

lemma session_inv_step:
  assumes "session_step graceful s s'" "session_inv s" "\<not> crashed s'" shows "session_inv s'"
  using assms
proof (cases rule: session_step.cases)
  case Worker
  then show ?thesis using assms session_inv_worker by blast
qed (auto simp: session_inv_start session_inv_stop session_inv_stop_end session_inv_listener)

lemma crash_is_final: "session_step graceful s s' \<Longrightarrow> \<not> crashed s"
  by (auto elim: session_step_cases)

text \<open>What every build of the driver promises: an invariant of its steps under which a session without a
  worker holds nothing.  Then a valid start spawns exactly one worker.\<close>

definition holds_nothing :: "session \<Rightarrow> bool" where
  "holds_nothing s \<longleftrightarrow> \<not> ses_running s \<and> \<not> connected s \<and> \<not> g_video s \<and> \<not> window_up s \<and> \<not> g_sink s"

definition valid_start :: "start_info \<Rightarrow> bool" where
  "valid_start info \<longleftrightarrow> length (si_riKey info) = 16 \<and> si_rtspSessionUrl info \<noteq> []"

locale stream_driver = step_invariant step inv
  for step :: "'s \<Rightarrow> 's \<Rightarrow> bool" and inv :: "'s \<Rightarrow> bool" +
  fixes session_of :: "'s \<Rightarrow> session"
  assumes idle: "inv s \<Longrightarrow> \<not> crashed (session_of s) \<Longrightarrow> ses_worker (session_of s) = NoThread \<Longrightarrow> holds_nothing (session_of s)"
begin

lemma spawns:
  assumes "step\<^sup>*\<^sup>* s0 s" "inv s0" "\<not> crashed (session_of s)" "ses_worker (session_of s) = NoThread" "valid_start info"
  shows "holds_nothing (session_of s) \<and> fst (session_start info (session_of s)) = None
         \<and> \<not> crashed (snd (session_start info (session_of s))) \<and> ses_worker (snd (session_start info (session_of s))) = Setup info"
proof -
  have h: "holds_nothing (session_of s)" using idle [OF steps [OF assms(1,2)] assms(3,4)] .
  then show ?thesis using assms(3-5) by (simp add: holds_nothing_def valid_start_def session_start_def Let_def)
qed

end

interpretation ses: stream_driver "session_step graceful" "\<lambda>s. crashed s \<or> session_inv s" "\<lambda>s. s" for graceful
proof unfold_locales
  show "crashed s' \<or> session_inv s'" if "session_step graceful s s'" "crashed s \<or> session_inv s" for s s'
    using that crash_is_final session_inv_step by blast
  show "holds_nothing s" if "crashed s \<or> session_inv s" "\<not> crashed s" "ses_worker s = NoThread" for s
    using that by (auto simp: holds_nothing_def session_inv_def busy_def listening_def)
qed

lemma session_inv_reachable:
  assumes "(session_step graceful)\<^sup>*\<^sup>* new_session s" shows "crashed s \<or> session_inv s"
  using ses.steps [OF assms] by (simp add: new_session_def session_inv_def busy_def listening_def)

section \<open>Stopping\<close>

text \<open>How many steps the worker has left once a stop was requested.\<close>

definition work_left :: "worker \<Rightarrow> nat" where
  "work_left w = (case w of NoThread \<Rightarrow> 0 | Finished \<Rightarrow> 0 | Returning \<Rightarrow> 1 | Emitting _ \<Rightarrow> 2 | Stopped _ \<Rightarrow> 3
                   | Leaving _ \<Rightarrow> 4 | Looping _ _ \<Rightarrow> 5 | Connecting _ _ \<Rightarrow> 6 | Setup _ \<Rightarrow> 7)"

lemma worker_progress: "worker_step s s' \<Longrightarrow> work_left (ses_worker s') < work_left (ses_worker s) \<and> stop_requested s' = stop_requested s"
  by (induction rule: worker_step.induct) (auto simp: worker_ops work_left_def emit_event_frame split: option.splits)

lemma worker_enabled:
  assumes "stop_requested s" "0 < work_left (ses_worker s)" shows "\<exists>s'. worker_step s s'"
proof (cases "ses_worker s")
  case (Setup i)
  then show ?thesis using worker_step.NoWindow by blast
next
  case (Connecting i v)
  then show ?thesis using worker_step.Connected by blast
next
  case (Looping i v)
  then show ?thesis using worker_step.StopSeen assms(1) by blast
next
  case (Leaving c)
  then show ?thesis using worker_step.ConnectionStopped by blast
next
  case (Stopped c)
  then show ?thesis using worker_step.TearDown by blast
next
  case Returning
  then show ?thesis using worker_step.Returned by blast
next
  case (Emitting e)
  then show ?thesis using worker_step.EmitLast by blast
qed (use assms in \<open>simp_all add: work_left_def\<close>)

lemma work_left_zero: "work_left w = 0 \<longleftrightarrow> w = NoThread \<or> w = Finished"
  by (simp add: work_left_def split: worker.splits)

lemma worker_thread_stays: "worker_step s s' \<Longrightarrow> ses_worker s' \<noteq> NoThread"
  by (induction rule: worker_step.induct) (simp_all add: worker_ops)

lemma worker_finishes:
  "(worker_step ^^ n) s s' \<Longrightarrow> n + work_left (ses_worker s') \<le> work_left (ses_worker s)"
proof (induction n arbitrary: s')
  case (Suc n)
  then obtain s1 where "(worker_step ^^ n) s s1" "worker_step s1 s'" by auto
  then show ?case using Suc.IH [of s1] worker_progress [of s1 s'] by simp
qed simp

section \<open>Properties\<close>

text \<open>
  C10. Resources follow the worker: in every reachable state of a session that has not been
  terminated, the session counts as running exactly from the start of the worker to its tear-down
  (set-up and connecting included), it is connected exactly between a successful
  \<^verbatim>\<open>LiStartConnection\<close> and \<^verbatim>\<open>LiStopConnection\<close>, the video target is set exactly while there is a
  window and the library may still call, the event sink exactly while there is a thread, and the window never
  outlives the worker.  Once a stop has completed nothing is left: no thread, no
  connection, no window, no target, no sink, so that a following start spawns exactly one new worker.
\<close>

theorem session_resources:
  assumes "(session_step graceful)\<^sup>*\<^sup>* new_session s" "\<not> crashed s"
  shows "(ses_running s \<longleftrightarrow> busy (ses_worker s))
         \<and> (connected s \<longleftrightarrow> (\<exists>i v. ses_worker s = Looping i v) \<or> (\<exists>c. ses_worker s = Leaving c))
         \<and> (g_video s \<longleftrightarrow> listening s \<and> window_up s)
         \<and> (g_sink s \<longleftrightarrow> ses_worker s \<noteq> NoThread)
         \<and> (window_up s \<longrightarrow> ses_worker s \<noteq> NoThread \<and> ses_worker s \<noteq> Finished)
         \<and> (ses_worker s = NoThread \<longrightarrow> \<not> ses_running s \<and> \<not> connected s \<and> \<not> g_video s \<and> \<not> window_up s \<and> \<not> g_sink s
              \<and> (length (si_riKey info) = 16 \<and> si_rtspSessionUrl info \<noteq> [] \<longrightarrow>
                   fst (session_start info s) = None \<and> \<not> crashed (snd (session_start info s))
                   \<and> ses_worker (snd (session_start info s)) = Setup info))"
proof -
  have inv: "session_inv s" using session_inv_reachable [OF assms(1)] assms(2) by blast
  have new: "crashed new_session \<or> session_inv new_session" by (simp add: new_session_def session_inv_def busy_def listening_def)
  have "holds_nothing s" if "ses_worker s = NoThread" using ses.idle [of s] inv assms(2) that by blast
  then show ?thesis
    using inv ses.spawns [OF assms(1) new assms(2), of info] by (auto simp: session_inv_def busy_def listening_def holds_nothing_def valid_start_def)
qed

text \<open>
  A stop gets through: once it is requested, the worker takes at most seven more steps of its
  own, it always has a next step until it has returned, and when it can go no further the join
  succeeds.
\<close>

theorem session_stop_completes:
  assumes "stop_requested s" "ses_worker s \<noteq> NoThread" "(worker_step ^^ n) s s'"
  shows "n \<le> 7 \<and> ((\<exists>s''. worker_step s' s'') \<or> ses_worker s' = Finished)"
proof -
  have "work_left (ses_worker s) \<le> 7" by (simp add: work_left_def split: worker.splits)
  then have n: "n \<le> 7" using worker_finishes [OF assms(3)] by simp
  have "stop_requested s' \<and> ses_worker s' \<noteq> NoThread"
    using assms(3)
  proof (induction n arbitrary: s')
    case (Suc n)
    then obtain s1 where "(worker_step ^^ n) s s1" "worker_step s1 s'" by auto
    then show ?case using Suc.IH [of s1] worker_progress [of s1 s'] worker_thread_stays by blast
  qed (use assms in simp)
  then show ?thesis using n worker_enabled [of s'] work_left_zero [of "ses_worker s'"] by blast
qed

text \<open>
  C36. Starting again after a stream that ended by itself aborts the engine: when the connection
  attempt fails (or the user closes the window), the worker returns but is never joined, the session
  no longer counts as running, and the next valid start assigns to the joinable thread.
\<close>

theorem restart_after_failure_aborts:
  "\<exists>info s. (session_step graceful)\<^sup>*\<^sup>* new_session s \<and> \<not> crashed s \<and> \<not> ses_running s \<and> ses_worker s = Finished
     \<and> fst (session_start info s) = None \<and> crashed (snd (session_start info s))"
proof -
  define i where "i = \<lparr>si_host = ''h'', serverAppVersion = [], si_gfeVersion = [], si_rtspSessionUrl = ''rtsp://h'', serverCodecModeSupport = 0,
    si_settings = default_settings, si_riKey = replicate 16 (CHR ''k''), si_riKeyId = 1, embedWindow = False\<rparr>"
  have i: "length (si_riKey i) = 16" "si_rtspSessionUrl i \<noteq> []" by (simp_all add: i_def)
  define s1 where "s1 = new_session\<lparr>g_sink := True, ses_running := True, stop_requested := False, ses_worker := Setup i\<rparr>"
  define s2 where "s2 = no_window i s1"
  define s3 where "s3 = connect_failed (- 1) s2"
  obtain e where e: "ses_worker s3 = Emitting e" by (simp add: s3_def connect_failed_def)
  define s4 where "s4 = emit_last e s3"
  define s5 where "s5 = returned s4"
  note defs = s1_def s2_def s3_def s4_def s5_def worker_ops
  have alive: "\<not> crashed s1" "\<not> crashed s2" "\<not> crashed s3" "\<not> crashed s4" "\<not> crashed s5" "\<not> ses_running s5"
    by (simp_all add: defs new_session_def emit_event_frame split: option.splits)
  have "snd (session_start i new_session) = s1"
    using i by (simp add: session_start_def new_session_def Let_def s1_def)
  then have step1: "session_step graceful new_session s1"
    using session_step.Start [of new_session graceful i] by (simp add: new_session_def)
  have step2: "worker_step s1 s2" unfolding s2_def by (rule worker_step.NoWindow) (simp add: s1_def)
  have step3: "worker_step s2 s3"
    unfolding s3_def by (rule worker_step.ConnectFailed [of _ i False]) (simp_all add: s2_def no_window_def)
  have step4: "worker_step s3 s4" unfolding s4_def by (rule worker_step.EmitLast) (rule e)
  have step5: "worker_step s4 s5" unfolding s5_def by (rule worker_step.Returned) (simp add: s4_def emit_last_def)
  have w: "session_step graceful s1 s2" "session_step graceful s2 s3" "session_step graceful s3 s4" "session_step graceful s4 s5"
    using alive step2 step3 step4 step5 by (auto intro: session_step.Worker)
  have "(session_step graceful)\<^sup>*\<^sup>* new_session s2" using step1 w(1) by (simp add: rtranclp.rtrancl_into_rtrancl r_into_rtranclp)
  then have "(session_step graceful)\<^sup>*\<^sup>* new_session s5" using w(2-4) by (auto intro: rtranclp.rtrancl_into_rtrancl)
  moreover have s5: "\<not> crashed s5" "\<not> ses_running s5" "ses_worker s5 = Finished"
    using alive by (simp_all add: s5_def returned_def)
  moreover from s5 i have "fst (session_start i s5) = None" "crashed (snd (session_start i s5))"
    by (simp_all add: session_start_def Let_def)
  ultimately show ?thesis by blast
qed

theorem session_resources_witness:
  "\<exists>s. (session_step 0)\<^sup>*\<^sup>* new_session s \<and> (\<exists>i. ses_worker s = Looping i True) \<and> window_up s
     \<and> ses_running s \<and> connected s \<and> g_video s \<and> g_sink s"
proof -
  define i where "i = \<lparr>si_host = ''h'', serverAppVersion = [], si_gfeVersion = [], si_rtspSessionUrl = ''rtsp://h'', serverCodecModeSupport = 0,
    si_settings = default_settings, si_riKey = replicate 16 (CHR ''k''), si_riKeyId = 1, embedWindow = True\<rparr>"
  define s1 where "s1 = snd (session_start i new_session)"
  define s2 where "s2 = window_made i ''7'' s1"
  define s3 where "s3 = connection_up i True s2"
  have w: "ses_worker s1 = Setup i" "ses_worker s2 = Connecting i True" "ses_worker s3 = Looping i True" "window_up s3"
    and alive: "\<not> crashed s1" "\<not> crashed s2" "\<not> crashed s3"
    by (simp_all add: s1_def s2_def s3_def session_start_def new_session_def i_def worker_ops)
  have "session_step 0 new_session s1" unfolding s1_def by (rule session_step.Start) (simp_all add: new_session_def)
  moreover have "session_step 0 s1 s2" unfolding s2_def by (intro session_step.Worker worker_step.WindowMade alive(1) w(1))
  moreover have "session_step 0 s2 s3" unfolding s3_def by (intro session_step.Worker worker_step.Connected alive(2) w(2))
  ultimately have run: "(session_step 0)\<^sup>*\<^sup>* new_session s3" by (meson converse_rtranclp_into_rtranclp rtranclp.rtrancl_refl)
  from session_resources [OF run alive(3)] w(3,4)
  have "ses_running s3" "connected s3" "g_video s3" "g_sink s3" by (auto simp: busy_def listening_def)
  then show ?thesis using run w(3,4) by blast
qed

theorem session_stop_completes_witness:
  "\<exists>s s'. stop_requested s \<and> (worker_step ^^ 1) s s' \<and> (1::nat) \<le> 7 \<and> ((\<exists>s''. worker_step s' s'') \<or> ses_worker s' = Finished)"
proof -
  let ?s = "new_session\<lparr>stop_requested := True, ses_worker := Leaving True\<rparr>"
  obtain s' where s': "worker_step ?s s'" using worker_step.ConnectionStopped [of ?s True] by auto
  then have "(worker_step ^^ 1) ?s s'" by auto
  from session_stop_completes [OF _ _ this] this show ?thesis by (intro exI [of _ ?s] exI [of _ s']) simp
qed

end
