(* ===== verification/VideoRenderer.thy ===== *)
theory VideoRenderer
  imports Prelude "HOL-Library.Sublist"
begin

text \<open>
  The video pipeline (\<^verbatim>\<open>src/src/client/video_renderer.h\<close>, \<^verbatim>\<open>src/src/client/video_renderer.cpp\<close>): decoder
  set-up with its software fallback, submission of a decode unit, presentation, clean-up and
  statistics.  FFmpeg and SDL are not modelled; each of their calls has its result as an argument.
  The counters \<open>ctx_live\<close>, \<open>dev_live\<close>, \<open>frame_live\<close> and \<open>tex_live\<close> follow what the calls allocate and
  free; \<open>decoded_log\<close> and \<open>screen\<close> record the frames handed over and presented.  Allocating a frame is
  assumed to succeed: the code does not check it.
\<close>

section \<open>Decoder set-up\<close>

text \<open>The pixel formats the code names, and the others.\<close>

datatype pixel_format = PIX_NV12 | PIX_YUV420P | PIX_VAAPI | PIX_OTHER nat

datatype texture_format = TEX_NONE | TEX_NV12 | TEX_IYUV

record frame =
  fr_format :: "pixel_format option"
  fr_width :: int
  fr_height :: int
  fr_data :: bytes

record video_renderer =
  codecCtx :: bool
  hwDeviceCtx :: bool
  hwPixFmt :: "pixel_format option"
  pendingFrame :: "frame option"
  texture :: bool
  texFmt :: texture_format
  texW :: int
  texH :: int
  framesDecoded :: "64 word"
  framesPresented :: "64 word"
  decodeErrors :: "64 word"
  usingHardware :: bool
  vid_width :: int
  vid_height :: int
  ctx_live :: int
  dev_live :: int
  frame_live :: int
  tex_live :: int
  decoded_log :: "frame list"
  screen :: "frame list"

definition new_video :: video_renderer where
  "new_video =
     \<lparr>codecCtx = False, hwDeviceCtx = False, hwPixFmt = None, pendingFrame = None, texture = False, texFmt = TEX_NONE, texW = 0, texH = 0,
      framesDecoded = 0, framesPresented = 0, decodeErrors = 0, usingHardware = False, vid_width = 0, vid_height = 0,
      ctx_live = 0, dev_live = 0, frame_live = 0, tex_live = 0, decoded_log = [], screen = []\<rparr>"

text \<open>\<^verbatim>\<open>pick_format\<close>: the decoder offers a list of formats that is never empty.\<close>

definition pick_format :: "pixel_format option \<Rightarrow> pixel_format list \<Rightarrow> pixel_format" where
  "pick_format want fmts = (case want of Some w \<Rightarrow> if w \<in> set fmts then w else hd fmts | None \<Rightarrow> hd fmts)"

definition kHwPixFmt :: pixel_format where "kHwPixFmt = PIX_VAAPI"

text \<open>What FFmpeg answers during set-up: whether it has the decoder, makes the device, and allocates and
  opens the context of each attempt.\<close>

record ffmpeg_answers =
  has_h264 :: bool
  makes_device :: bool
  hw_alloc :: bool
  hw_open :: bool
  sw_alloc :: bool
  sw_open :: bool

definition alloc_context :: "bool \<Rightarrow> video_renderer \<Rightarrow> video_renderer" where
  "alloc_context ok v = (if ok then v\<lparr>codecCtx := True, ctx_live := ctx_live v + 1\<rparr> else v\<lparr>codecCtx := False\<rparr>)"

definition free_context :: "video_renderer \<Rightarrow> video_renderer" where
  "free_context v = v\<lparr>codecCtx := False, ctx_live := ctx_live v - 1\<rparr>"

definition unref_device :: "video_renderer \<Rightarrow> video_renderer" where
  "unref_device v = v\<lparr>hwDeviceCtx := False, dev_live := dev_live v - 1\<rparr>"

text \<open>The two attempts of \<^verbatim>\<open>VideoRenderer::setup\<close>; the first says whether it succeeded.\<close>

definition setup_hw :: "ffmpeg_answers \<Rightarrow> video_renderer \<Rightarrow> bool \<times> video_renderer" where
  "setup_hw a v =
     (if makes_device a
      then
        let v1 = alloc_context (hw_alloc a) (v\<lparr>hwDeviceCtx := True, dev_live := dev_live v + 1\<rparr>);
            v2 = (if hw_alloc a then v1\<lparr>hwPixFmt := Some kHwPixFmt\<rparr> else v1)
        in if hw_alloc a \<and> hw_open a then (True, v2\<lparr>usingHardware := True\<rparr>)
           else (False, (unref_device (if hw_alloc a then free_context v2 else v2))\<lparr>hwPixFmt := None\<rparr>)
      else (False, v))"

definition setup_sw :: "ffmpeg_answers \<Rightarrow> video_renderer \<Rightarrow> int \<times> video_renderer" where
  "setup_sw a v =
     (let v1 = alloc_context (sw_alloc a) v
      in if \<not> sw_alloc a then (- 1, v1)
         else if \<not> sw_open a then (- 1, free_context v1)
         else (0, v1\<lparr>usingHardware := False\<rparr>))"

definition video_setup :: "ffmpeg_answers \<Rightarrow> int \<Rightarrow> int \<Rightarrow> video_renderer \<Rightarrow> int \<times> video_renderer" where
  "video_setup a width height v =
     (let v1 = v\<lparr>vid_width := width, vid_height := height\<rparr>
      in if \<not> has_h264 a then (- 1, v1)
         else (case setup_hw a v1 of
                 (True, v2) \<Rightarrow> (0, v2)
               | (False, v2) \<Rightarrow> setup_sw a v2))"

section \<open>Submitting a decode unit\<close>

datatype dr_status = DR_OK | DR_NEED_IDR

record decode_unit =
  fullLength :: nat
  bufferList :: "bytes list"

text \<open>The packet: the chain's bytes and the padding FFmpeg asks for; the decoder reads \<^term>\<open>fullLength du\<close> bytes
  of it.\<close>

definition packet_buffer :: "nat \<Rightarrow> decode_unit \<Rightarrow> bytes" where
  "packet_buffer padding du = concat (bufferList du) @ replicate padding (CHR 0x00)"

text \<open>One answer of \<^verbatim>\<open>avcodec_receive_frame\<close>: nothing more for now or at the end, an error, or a frame with
  what copying it to memory (a transfer or a reference) gives.\<close>

datatype received = Drained | ReceiveError | Received frame "frame option"

text \<open>A frame that was allocated but never filled has no format.\<close>

definition blank_frame :: frame where
  "blank_frame = \<lparr>fr_format = None, fr_width = 0, fr_height = 0, fr_data = []\<rparr>"

text \<open>The hand-over under the lock, which also frees a frame nobody presented.\<close>

definition deliver :: "frame \<Rightarrow> video_renderer \<Rightarrow> video_renderer" where
  "deliver cpu v =
     (let v1 = (if pendingFrame v = None then v else v\<lparr>frame_live := frame_live v - 1\<rparr>)
      in v1\<lparr>pendingFrame := Some cpu, decoded_log := decoded_log v @ [cpu]\<rparr>)"

definition count_decoded :: "video_renderer \<Rightarrow> video_renderer" where
  "count_decoded v = v\<lparr>framesDecoded := framesDecoded v + 1\<rparr>"

text \<open>One round of the loop: whether the frame was handed over, which is counted after the lock is released.\<close>

definition hand_over :: "frame \<Rightarrow> frame option \<Rightarrow> video_renderer \<Rightarrow> bool \<times> video_renderer" where
  "hand_over f copied v =
     (let v1 = v\<lparr>frame_live := frame_live v + 1\<rparr>
      in if hwPixFmt v \<noteq> None \<and> fr_format f = hwPixFmt v
         then (case copied of
                 None \<Rightarrow> (False, v1\<lparr>frame_live := frame_live v1 - 1, decodeErrors := decodeErrors v + 1\<rparr>)
               | Some c \<Rightarrow> (True, deliver (c\<lparr>fr_format := Some PIX_NV12\<rparr>) v1))
         else (True, deliver (case copied of None \<Rightarrow> blank_frame | Some c \<Rightarrow> f) v1))"

definition receive_one :: "frame \<Rightarrow> frame option \<Rightarrow> video_renderer \<Rightarrow> video_renderer" where
  "receive_one f copied v = (case hand_over f copied v of (handed, v1) \<Rightarrow> if handed then count_decoded v1 else v1)"

fun receive_loop :: "received list \<Rightarrow> video_renderer \<Rightarrow> video_renderer" where
  "receive_loop [] v = v"
| "receive_loop (Drained # _) v = v"
| "receive_loop (ReceiveError # _) v = v\<lparr>decodeErrors := decodeErrors v + 1\<rparr>"
| "receive_loop (Received f copied # rs) v = receive_loop rs (receive_one f copied v)"

text \<open>What the decoder does with a packet: whether the packet is allocated, whether it is accepted, and the
  frames that come out.\<close>

record decoder_run =
  pkt_alloc :: bool
  accepts :: "bytes \<Rightarrow> bool"
  answers :: "bytes \<Rightarrow> received list"

definition submit :: "nat \<Rightarrow> decoder_run \<Rightarrow> decode_unit \<Rightarrow> video_renderer \<Rightarrow> dr_status \<times> video_renderer" where
  "submit padding dec du v =
     (if \<not> codecCtx v then (DR_NEED_IDR, v)
      else
        let packet = take (fullLength du) (packet_buffer padding du)
        in if \<not> pkt_alloc dec then (DR_NEED_IDR, v)
           else if \<not> accepts dec packet then (DR_NEED_IDR, v\<lparr>decodeErrors := decodeErrors v + 1\<rparr>)
           else
             let v1 = receive_loop (answers dec packet) (v\<lparr>frame_live := frame_live v + 1\<rparr>)
             in (DR_OK, v1\<lparr>frame_live := frame_live v1 - 1\<rparr>))"

section \<open>Presenting\<close>

text \<open>What SDL answers: whether a texture can be made, and whether the upload succeeds.\<close>

record sdl_answers =
  makes_texture :: bool
  uploads :: bool

definition ensure_texture :: "bool \<Rightarrow> texture_format \<Rightarrow> int \<Rightarrow> int \<Rightarrow> video_renderer \<Rightarrow> bool \<times> video_renderer" where
  "ensure_texture makes fmt w h v =
     (if texture v \<and> texFmt v = fmt \<and> texW v = w \<and> texH v = h then (True, v)
      else
        let v1 = (if texture v then v\<lparr>texture := False, tex_live := tex_live v - 1\<rparr> else v)
        in if makes then (True, v1\<lparr>texture := True, tex_live := tex_live v1 + 1, texFmt := fmt, texW := w, texH := h\<rparr>)
           else (False, v1))"

text \<open>The two halves of \<^verbatim>\<open>VideoRenderer::present\<close>: taking the frame under the lock, and drawing and freeing it.\<close>

definition take_pending :: "video_renderer \<Rightarrow> frame option \<times> video_renderer" where
  "take_pending v = (pendingFrame v, v\<lparr>pendingFrame := None\<rparr>)"

definition draw :: "sdl_answers \<Rightarrow> frame \<Rightarrow> video_renderer \<Rightarrow> video_renderer" where
  "draw sdl f v =
     (let (ok, v1) =
        (if fr_format f = Some PIX_NV12
         then (case ensure_texture (makes_texture sdl) TEX_NV12 (fr_width f) (fr_height f) v of (made, v1) \<Rightarrow> (made \<and> uploads sdl, v1))
         else if fr_format f = Some PIX_YUV420P
         then (case ensure_texture (makes_texture sdl) TEX_IYUV (fr_width f) (fr_height f) v of (made, v1) \<Rightarrow> (made \<and> uploads sdl, v1))
         else (False, v));
          v2 = (if ok then v1\<lparr>framesPresented := framesPresented v1 + 1, screen := screen v1 @ [f]\<rparr> else v1)
      in v2\<lparr>frame_live := frame_live v2 - 1\<rparr>)"

definition present :: "bool \<Rightarrow> sdl_answers \<Rightarrow> video_renderer \<Rightarrow> video_renderer" where
  "present has_renderer sdl v =
     (if \<not> has_renderer then v
      else case take_pending v of
             (None, v1) \<Rightarrow> v1
           | (Some f, v1) \<Rightarrow> draw sdl f v1)"

section \<open>Clean-up and statistics\<close>

definition video_cleanup :: "video_renderer \<Rightarrow> video_renderer" where
  "video_cleanup v =
     (let v1 = (if pendingFrame v = None then v else v\<lparr>pendingFrame := None, frame_live := frame_live v - 1\<rparr>);
          v2 = (if texture v1 then v1\<lparr>texture := False, tex_live := tex_live v1 - 1\<rparr> else v1);
          v3 = (if codecCtx v2 then free_context v2 else v2);
          v4 = (if hwDeviceCtx v3 then unref_device v3 else v3)
      in v4\<lparr>hwPixFmt := None\<rparr>)"

record video_stats =
  vs_framesDecoded :: "64 word"
  vs_framesPresented :: "64 word"
  vs_decodeErrors :: "64 word"
  vs_usingHardware :: bool
  vs_width :: int
  vs_height :: int

definition video_stats_of :: "video_renderer \<Rightarrow> video_stats" where
  "video_stats_of v =
     \<lparr>vs_framesDecoded = framesDecoded v, vs_framesPresented = framesPresented v, vs_decodeErrors = decodeErrors v,
      vs_usingHardware = usingHardware v, vs_width = vid_width v, vs_height = vid_height v\<rparr>"

section \<open>The library's callbacks\<close>

text \<open>The callbacks of \<^verbatim>\<open>src/src/client/stream_session.cpp\<close> reach the renderer through a global that is null
  outside a stream with a window.\<close>

definition vr_setup :: "ffmpeg_answers \<Rightarrow> int \<Rightarrow> int \<Rightarrow> video_renderer option \<Rightarrow> int \<times> video_renderer option" where
  "vr_setup a width height g_video =
     (case g_video of None \<Rightarrow> (- 1, None) | Some v \<Rightarrow> map_prod id Some (video_setup a width height v))"

definition vr_submit :: "nat \<Rightarrow> decoder_run \<Rightarrow> decode_unit \<Rightarrow> video_renderer option \<Rightarrow> dr_status \<times> video_renderer option" where
  "vr_submit padding dec du g_video =
     (case g_video of None \<Rightarrow> (DR_OK, None) | Some v \<Rightarrow> map_prod id Some (submit padding dec du v))"

section \<open>Two threads\<close>

text \<open>The library's thread runs \<^verbatim>\<open>submit\<close>, the session's worker runs \<^verbatim>\<open>present\<close>.  They meet at the pending
  frame and at the counters; between two of these points either may run.  \<open>uncounted\<close> says that the
  library's thread has handed a frame over and not yet counted it.\<close>

record pipeline =
  vid :: video_renderer
  decoding :: "received list option"
  uncounted :: bool
  hand :: "frame option"

inductive decode_step :: "pipeline \<Rightarrow> pipeline \<Rightarrow> bool" where
  SubmitError: "decoding p = None \<Longrightarrow>
     decode_step p (p\<lparr>vid := (vid p)\<lparr>decodeErrors := decodeErrors (vid p) + 1\<rparr>\<rparr>)"
| SubmitStart: "decoding p = None \<Longrightarrow>
     decode_step p (p\<lparr>decoding := Some rs, vid := (vid p)\<lparr>frame_live := frame_live (vid p) + 1\<rparr>\<rparr>)"
| ReceiveFrame: "decoding p = Some (Received f c # rs) \<Longrightarrow> \<not> uncounted p \<Longrightarrow>
     decode_step p (p\<lparr>decoding := Some rs, uncounted := fst (hand_over f c (vid p)), vid := snd (hand_over f c (vid p))\<rparr>)"
| CountFrame: "uncounted p \<Longrightarrow> decode_step p (p\<lparr>uncounted := False, vid := count_decoded (vid p)\<rparr>)"
| ReceiveFailed: "decoding p = Some (ReceiveError # rs) \<Longrightarrow> \<not> uncounted p \<Longrightarrow>
     decode_step p (p\<lparr>decoding := Some [], vid := (vid p)\<lparr>decodeErrors := decodeErrors (vid p) + 1\<rparr>\<rparr>)"
| ReceiveDrained: "decoding p = Some (Drained # rs) \<Longrightarrow> \<not> uncounted p \<Longrightarrow> decode_step p (p\<lparr>decoding := Some []\<rparr>)"
| SubmitEnd: "decoding p = Some [] \<Longrightarrow> \<not> uncounted p \<Longrightarrow>
     decode_step p (p\<lparr>decoding := None, vid := (vid p)\<lparr>frame_live := frame_live (vid p) - 1\<rparr>\<rparr>)"

inductive present_step :: "pipeline \<Rightarrow> pipeline \<Rightarrow> bool" where
  TakePending: "hand p = None \<Longrightarrow>
     present_step p (p\<lparr>hand := fst (take_pending (vid p)), vid := snd (take_pending (vid p))\<rparr>)"
| Draw: "hand p = Some f \<Longrightarrow> present_step p (p\<lparr>hand := None, vid := draw sdl f (vid p)\<rparr>)"

inductive_cases present_step_cases: "present_step p q"

definition pipe_step :: "pipeline \<Rightarrow> pipeline \<Rightarrow> bool" where
  "pipe_step p q \<longleftrightarrow> decode_step p q \<or> present_step p q"

definition opt_list :: "'a option \<Rightarrow> 'a list" where
  "opt_list x = (case x of None \<Rightarrow> [] | Some a \<Rightarrow> [a])"

lemma opt_list_simps [simp]: "opt_list None = []" "opt_list (Some a) = [a]"
  by (simp_all add: opt_list_def)

definition pipe_inv :: "pipeline \<Rightarrow> bool" where
  "pipe_inv p \<longleftrightarrow>
     frame_live (vid p) = of_bool (pendingFrame (vid p) \<noteq> None) + of_bool (hand p \<noteq> None) + of_bool (decoding p \<noteq> None)
     \<and> tex_live (vid p) = of_bool (texture (vid p))
     \<and> subseq (screen (vid p) @ opt_list (hand p) @ opt_list (pendingFrame (vid p))) (decoded_log (vid p))
     \<and> (\<forall>f. pendingFrame (vid p) = Some f \<longrightarrow> last (decoded_log (vid p)) = f)
     \<and> framesDecoded (vid p) + of_bool (uncounted p) = of_nat (length (decoded_log (vid p)))
     \<and> framesPresented (vid p) = of_nat (length (screen (vid p)))
     \<and> (uncounted p \<longrightarrow> decoding p \<noteq> None)"

definition same_frames :: "video_renderer \<Rightarrow> video_renderer \<Rightarrow> bool" where
  "same_frames v w \<longleftrightarrow>
     frame_live w = frame_live v \<and> pendingFrame w = pendingFrame v \<and> decoded_log w = decoded_log v \<and> framesDecoded w = framesDecoded v
     \<and> screen w = screen v \<and> framesPresented w = framesPresented v \<and> codecCtx w = codecCtx v \<and> hwDeviceCtx w = hwDeviceCtx v
     \<and> ctx_live w = ctx_live v \<and> dev_live w = dev_live v
     \<and> (tex_live v = of_bool (texture v) \<longrightarrow> tex_live w = of_bool (texture w))"

lemma same_frames_refl [simp]: "same_frames v v"
  by (simp add: same_frames_def)

lemma ensure_texture_frames: "same_frames v (snd (ensure_texture makes fmt w h v))"
  by (simp add: ensure_texture_def same_frames_def Let_def)

lemma draw_effect:
  obtains w ok where "same_frames v w"
    "draw sdl f v = (if ok then w\<lparr>framesPresented := framesPresented w + 1, screen := screen w @ [f], frame_live := frame_live w - 1\<rparr>
                     else w\<lparr>frame_live := frame_live w - 1\<rparr>)"
proof (cases "fr_format f = Some PIX_NV12 \<or> fr_format f = Some PIX_YUV420P")
  case False
  show thesis by (rule that [of v False]) (use False in \<open>simp_all add: draw_def\<close>)
next
  case True
  let ?fmt = "if fr_format f = Some PIX_NV12 then TEX_NV12 else TEX_IYUV"
  obtain made w where e: "ensure_texture (makes_texture sdl) ?fmt (fr_width f) (fr_height f) v = (made, w)" by force
  show thesis
  proof (rule that [of w "made \<and> uploads sdl"])
    show "same_frames v w" using ensure_texture_frames [of v "makes_texture sdl" ?fmt "fr_width f" "fr_height f"] e by simp
  qed (use e True in \<open>auto simp: draw_def split: if_splits\<close>)
qed

lemma hand_over_effect:
  "hand_over f c v = (False, v\<lparr>decodeErrors := decodeErrors v + 1\<rparr>) \<or> (\<exists>cpu. hand_over f c v = (True, deliver cpu (v\<lparr>frame_live := frame_live v + 1\<rparr>)))"
  by (cases c) (auto simp: hand_over_def Let_def)

lemma deliver_inv:
  assumes "pipe_inv p" "decoding p \<noteq> None" "\<not> uncounted p"
  shows "pipe_inv (p\<lparr>decoding := Some rs, uncounted := True, vid := deliver cpu ((vid p)\<lparr>frame_live := frame_live (vid p) + 1\<rparr>)\<rparr>)"
proof -
  let ?v = "vid p" and ?x = "screen (vid p) @ opt_list (hand p)"
  have "subseq ?x (?x @ opt_list (pendingFrame ?v))" by (rule list_emb_prefix) simp
  moreover have "subseq (?x @ opt_list (pendingFrame ?v)) (decoded_log ?v)" using assms(1) by (simp add: pipe_inv_def)
  ultimately have "subseq ?x (decoded_log ?v)" by (rule subseq_order.trans)
  then have "subseq (?x @ [cpu]) (decoded_log ?v @ [cpu])" by (rule list_emb_append_mono) simp
  then show ?thesis using assms by (auto simp: pipe_inv_def deliver_def Let_def)
qed

lemma draw_inv:
  assumes "pipe_inv p" "hand p = Some f" shows "pipe_inv (p\<lparr>hand := None, vid := draw sdl f (vid p)\<rparr>)"
proof -
  obtain w ok where w: "same_frames (vid p) w"
    "draw sdl f (vid p) = (if ok then w\<lparr>framesPresented := framesPresented w + 1, screen := screen w @ [f], frame_live := frame_live w - 1\<rparr>
                     else w\<lparr>frame_live := frame_live w - 1\<rparr>)" by (rule draw_effect)
  let ?v = "vid p"
  have s: "subseq (screen ?v @ [f] @ opt_list (pendingFrame ?v)) (decoded_log ?v)" using assms by (simp add: pipe_inv_def)
  have "subseq (screen ?v @ opt_list (pendingFrame ?v)) (screen ?v @ [f] @ opt_list (pendingFrame ?v))"
    by (intro list_emb_append_mono) auto
  then have "subseq (screen ?v @ opt_list (pendingFrame ?v)) (decoded_log ?v)" using s by (rule subseq_order.trans)
  then show ?thesis using assms w s by (auto simp: pipe_inv_def same_frames_def)
qed

lemma pipe_inv_decode: "decode_step p q \<Longrightarrow> pipe_inv p \<Longrightarrow> pipe_inv q"
proof (induction rule: decode_step.induct)
  case (ReceiveFrame p f c rs)
  have "pipe_inv (p\<lparr>decoding := Some rs, uncounted := False, vid := (vid p)\<lparr>decodeErrors := decodeErrors (vid p) + 1\<rparr>\<rparr>)"
    using ReceiveFrame by (simp add: pipe_inv_def)
  then show ?case using deliver_inv [OF ReceiveFrame(3)] ReceiveFrame(1,2) hand_over_effect [of f c "vid p"] by auto
qed (auto simp: pipe_inv_def count_decoded_def)

lemma pipe_inv_present: "present_step p q \<Longrightarrow> pipe_inv p \<Longrightarrow> pipe_inv q"
  by (erule present_step_cases) (simp_all add: draw_inv, simp add: pipe_inv_def take_pending_def)

lemma pipe_inv_step: "pipe_step p q \<Longrightarrow> pipe_inv p \<Longrightarrow> pipe_inv q"
  using pipe_inv_decode pipe_inv_present by (auto simp: pipe_step_def)

section \<open>Properties\<close>

interpretation pipe: step_invariant pipe_step pipe_inv
  by unfold_locales (rule pipe_inv_step)

definition start_pipeline :: "video_renderer \<Rightarrow> pipeline" where
  "start_pipeline v = \<lparr>vid = v, decoding = None, uncounted = False, hand = None\<rparr>"

text \<open>
  C14. Frames are handed over safely, whatever the interleaving of the decoding and the presenting
  thread: what appears on the screen is a subsequence of what was decoded, in order and each frame at
  most once, the pending frame is always the latest one decoded, the counters count exactly those
  frames (a frame is counted just after it has been handed over), and every frame allocated and not yet freed is the pending one, the one being drawn or the
  decoder's own.
\<close>

theorem video_frames_in_order:
  assumes "pipe_step\<^sup>*\<^sup>* (start_pipeline new_video) p"
  shows "subseq (screen (vid p)) (decoded_log (vid p))
         \<and> (\<forall>f. pendingFrame (vid p) = Some f \<longrightarrow> last (decoded_log (vid p)) = f)
         \<and> framesDecoded (vid p) + of_bool (uncounted p) = of_nat (length (decoded_log (vid p)))
         \<and> framesPresented (vid p) = of_nat (length (screen (vid p)))
         \<and> frame_live (vid p) = of_bool (pendingFrame (vid p) \<noteq> None) + of_bool (hand p \<noteq> None) + of_bool (decoding p \<noteq> None)"
proof -
  have "pipe_inv p" using pipe.steps [OF assms] by (simp add: pipe_inv_def start_pipeline_def new_video_def)
  moreover have "subseq (screen (vid p)) (screen (vid p) @ opt_list (hand p) @ opt_list (pendingFrame (vid p)))"
    by (rule list_emb_prefix) simp
  ultimately show ?thesis unfolding pipe_inv_def using subseq_order.trans by blast
qed
text \<open>The operations are runs of these steps: a whole \<^verbatim>\<open>submit\<close> and a whole \<^verbatim>\<open>present\<close>.\<close>

lemma receive_loop_steps:
  "pipe_step\<^sup>*\<^sup>* \<lparr>vid = v, decoding = Some rs, uncounted = False, hand = h\<rparr>
     \<lparr>vid = receive_loop rs v, decoding = Some [], uncounted = False, hand = h\<rparr>"
proof (induction rs v rule: receive_loop.induct)
  case (2 rs v)
  then show ?case using ReceiveDrained [of "\<lparr>vid = v, decoding = Some (Drained # rs), uncounted = False, hand = h\<rparr>" rs]
    by (simp add: pipe_step_def r_into_rtranclp)
next
  case (3 rs v)
  then show ?case using ReceiveFailed [of "\<lparr>vid = v, decoding = Some (ReceiveError # rs), uncounted = False, hand = h\<rparr>" rs]
    by (simp add: pipe_step_def r_into_rtranclp)
next
  case (4 f c rs v)
  obtain handed w where h: "hand_over f c v = (handed, w)" by force
  let ?q = "\<lparr>vid = w, decoding = Some rs, uncounted = handed, hand = h\<rparr>" and ?r = "\<lparr>vid = receive_one f c v, decoding = Some rs, uncounted = False, hand = h\<rparr>"
  have "pipe_step \<lparr>vid = v, decoding = Some (Received f c # rs), uncounted = False, hand = h\<rparr> ?q"
    using ReceiveFrame [of "\<lparr>vid = v, decoding = Some (Received f c # rs), uncounted = False, hand = h\<rparr>" f c rs] h by (simp add: pipe_step_def)
  moreover have "pipe_step\<^sup>*\<^sup>* ?q ?r"
    using CountFrame [of ?q] h by (cases handed) (auto simp: pipe_step_def receive_one_def)
  ultimately show ?case using 4 by (auto intro: converse_rtranclp_into_rtranclp rtranclp_trans)
qed simp

lemma submit_steps:
  assumes "submit padding dec du v = (st, v')"
  shows "pipe_step\<^sup>*\<^sup>* \<lparr>vid = v, decoding = None, uncounted = False, hand = h\<rparr> \<lparr>vid = v', decoding = None, uncounted = False, hand = h\<rparr>"
proof -
  let ?p = "\<lparr>vid = v, decoding = None, uncounted = False, hand = h\<rparr>" and ?packet = "take (fullLength du) (packet_buffer padding du)"
  let ?v1 = "v\<lparr>frame_live := frame_live v + 1\<rparr>"
  show ?thesis
  proof (cases "codecCtx v \<and> pkt_alloc dec")
    case False
    then show ?thesis using assms by (auto simp: submit_def Let_def split: if_splits)
  next
    case ready: True
    show ?thesis
    proof (cases "accepts dec ?packet")
      case False
      then show ?thesis using assms ready SubmitError [of ?p] by (auto simp: submit_def pipe_step_def Let_def)
    next
      case True
      let ?w = "receive_loop (answers dec ?packet) ?v1"
      let ?q = "\<lparr>vid = ?w, decoding = Some [], uncounted = False, hand = h\<rparr>"
      have "pipe_step ?p \<lparr>vid = ?v1, decoding = Some (answers dec ?packet), uncounted = False, hand = h\<rparr>"
        using SubmitStart [of ?p "answers dec ?packet"] by (simp add: pipe_step_def)
      moreover have "pipe_step ?q \<lparr>vid = ?w\<lparr>frame_live := frame_live ?w - 1\<rparr>, decoding = None, uncounted = False, hand = h\<rparr>"
        using SubmitEnd [of ?q] by (simp add: pipe_step_def)
      moreover have "v' = ?w\<lparr>frame_live := frame_live ?w - 1\<rparr>" using assms ready True by (simp add: submit_def Let_def)
      ultimately show ?thesis
        using receive_loop_steps [of ?v1 "answers dec ?packet" h]
        by (metis converse_rtranclp_into_rtranclp rtranclp.rtrancl_into_rtrancl)
    qed
  qed
qed

lemma present_steps:
  "pipe_step\<^sup>*\<^sup>* \<lparr>vid = v, decoding = d, uncounted = u, hand = None\<rparr> \<lparr>vid = present has_renderer sdl v, decoding = d, uncounted = u, hand = None\<rparr>"
proof -
  let ?p = "\<lparr>vid = v, decoding = d, uncounted = u, hand = None\<rparr>" and ?q = "\<lparr>vid = v\<lparr>pendingFrame := None\<rparr>, decoding = d, uncounted = u, hand = pendingFrame v\<rparr>"
  have q: "pipe_step ?p ?q" using TakePending [of ?p] by (simp add: pipe_step_def take_pending_def)
  show ?thesis
  proof (cases "pendingFrame v")
    case None
    then show ?thesis using q by (auto simp: present_def take_pending_def)
  next
    case (Some f)
    then have "pipe_step ?q \<lparr>vid = draw sdl f (v\<lparr>pendingFrame := None\<rparr>), decoding = d, uncounted = u, hand = None\<rparr>"
      using Draw [of ?q f sdl] by (simp add: pipe_step_def)
    then show ?thesis using q Some by (auto simp: present_def take_pending_def intro: converse_rtranclp_into_rtranclp)
  qed
qed

text \<open>A well-formed decode unit reaches the decoder byte for byte.\<close>

lemma packet_exact:
  "fullLength du = length (concat (bufferList du)) \<Longrightarrow> take (fullLength du) (packet_buffer padding du) = concat (bufferList du)"
  by (simp add: packet_buffer_def)

definition contexts :: "video_renderer \<Rightarrow> bool \<times> bool \<times> int \<times> int" where
  "contexts v = (codecCtx v, hwDeviceCtx v, ctx_live v, dev_live v)"

lemma contexts_deliver: "contexts (deliver cpu v) = contexts v"
  by (simp add: contexts_def deliver_def Let_def)

lemma contexts_draw: "contexts (draw sdl f v) = contexts v"
proof -
  obtain w ok where "same_frames v w"
    "draw sdl f v = (if ok then w\<lparr>framesPresented := framesPresented w + 1, screen := screen w @ [f], frame_live := frame_live w - 1\<rparr>
                     else w\<lparr>frame_live := frame_live w - 1\<rparr>)" by (rule draw_effect)
  then show ?thesis by (simp add: contexts_def same_frames_def)
qed

lemma contexts_decode: "decode_step p q \<Longrightarrow> contexts (vid q) = contexts (vid p)"
proof (induction rule: decode_step.induct)
  case (ReceiveFrame p f c rs)
  then show ?case using hand_over_effect [of f c "vid p"] by (auto simp: contexts_deliver) (simp_all add: contexts_def)
qed (auto simp: contexts_def count_decoded_def)

lemma contexts_step: "pipe_step p q \<Longrightarrow> contexts (vid q) = contexts (vid p)"
  by (auto simp: pipe_step_def contexts_decode contexts_draw elim!: present_step_cases) (simp add: contexts_def take_pending_def)

text \<open>The renderer owns contexts, a device, frames and a texture; it may be cleaned up once both threads are
  done.\<close>

definition renderer_inv :: "pipeline \<Rightarrow> bool" where
  "renderer_inv p \<longleftrightarrow> pipe_inv p \<and> ctx_live (vid p) = of_bool (codecCtx (vid p)) \<and> dev_live (vid p) = of_bool (hwDeviceCtx (vid p))"

definition threads_done :: "pipeline \<Rightarrow> bool" where
  "threads_done p \<longleftrightarrow> decoding p = None \<and> hand p = None"

definition video_held :: "video_renderer \<Rightarrow> int list" where
  "video_held v = [ctx_live v, dev_live v, frame_live v, tex_live v]"

lemma renderer_inv_step: "pipe_step p q \<Longrightarrow> renderer_inv p \<Longrightarrow> renderer_inv q"
  using contexts_step [of p q] pipe_inv_step [of p q] by (simp add: renderer_inv_def contexts_def)

lemma video_cleanup_all:
  assumes "pipe_inv p" "decoding p = None" "hand p = None" "ctx_live (vid p) = of_bool (codecCtx (vid p))" "dev_live (vid p) = of_bool (hwDeviceCtx (vid p))"
  shows "let c = video_cleanup (vid p) in ctx_live c = 0 \<and> dev_live c = 0 \<and> frame_live c = 0 \<and> tex_live c = 0
           \<and> \<not> codecCtx c \<and> \<not> hwDeviceCtx c \<and> pendingFrame c = None \<and> \<not> texture c"
  using assms by (auto simp: video_cleanup_def pipe_inv_def free_context_def unref_device_def Let_def)

lemma cleanup_releases: "renderer_inv p \<Longrightarrow> threads_done p \<Longrightarrow> set (video_held (video_cleanup (vid p))) \<subseteq> {0}"
  using video_cleanup_all [of p] by (simp add: video_held_def threads_done_def renderer_inv_def Let_def)

interpretation renderer: resource_owner pipe_step renderer_inv threads_done "\<lambda>p. video_cleanup (vid p)" video_held
  by unfold_locales (use renderer_inv_step cleanup_releases in blast)+

definition hw_works :: "ffmpeg_answers \<Rightarrow> bool" where
  "hw_works a \<longleftrightarrow> makes_device a \<and> hw_alloc a \<and> hw_open a"

lemma setup_hw_new:
  assumes "contexts v = (False, False, 0, 0)" "hwPixFmt v = None" "\<not> usingHardware v" "setup_hw a v = (ok, w)"
  shows "ok = hw_works a" "contexts w = (ok, ok, of_bool ok, of_bool ok)" "usingHardware w = ok" "hwPixFmt w = (if ok then Some kHwPixFmt else None)"
    "same_frames (v\<lparr>codecCtx := codecCtx w, hwDeviceCtx := hwDeviceCtx w, ctx_live := ctx_live w, dev_live := dev_live w\<rparr>) w"
  using assms unfolding setup_hw_def Let_def alloc_context_def free_context_def unref_device_def hw_works_def contexts_def same_frames_def
  by (auto split: if_splits)

lemma setup_sw_new:
  assumes "contexts v = (False, False, 0, 0)" "\<not> usingHardware v" "setup_sw a v = (rc, w)"
  shows "rc = (if sw_alloc a \<and> sw_open a then 0 else - 1)" "contexts w = (rc = 0, False, of_bool (rc = 0), 0)" "\<not> usingHardware w" "hwPixFmt w = hwPixFmt v"
    "same_frames (v\<lparr>codecCtx := codecCtx w, ctx_live := ctx_live w\<rparr>) w"
  using assms unfolding setup_sw_def Let_def alloc_context_def free_context_def contexts_def same_frames_def
  by (auto split: if_splits)

definition fresh_frames :: "video_renderer \<Rightarrow> bool" where
  "fresh_frames v \<longleftrightarrow> pipe_inv (start_pipeline v)"

lemma fresh_frames_same: "same_frames v w \<Longrightarrow> fresh_frames v \<Longrightarrow> fresh_frames w"
  by (simp add: fresh_frames_def pipe_inv_def start_pipeline_def same_frames_def)

lemma fresh_frames_new:
  "fresh_frames (new_video\<lparr>vid_width := width, vid_height := height\<rparr>)"
  "fresh_frames (v\<lparr>codecCtx := c, hwDeviceCtx := h, ctx_live := k, dev_live := l\<rparr>) = fresh_frames v"
  "fresh_frames (v\<lparr>codecCtx := c, ctx_live := k\<rparr>) = fresh_frames v"
  by (simp_all add: fresh_frames_def pipe_inv_def start_pipeline_def new_video_def)

lemma video_setup_new:
  assumes "video_setup a width height new_video = (rc, v)"
  shows "rc = (if has_h264 a \<and> (hw_works a \<or> sw_alloc a \<and> sw_open a) then 0 else - 1)
         \<and> contexts v = (if rc = 0 then (True, hw_works a, 1, of_bool (hw_works a)) else (False, False, 0, 0))
         \<and> (usingHardware v \<longleftrightarrow> rc = 0 \<and> hw_works a) \<and> fresh_frames v"
proof -
  define v0 where "v0 = new_video\<lparr>vid_width := width, vid_height := height\<rparr>"
  have v0: "contexts v0 = (False, False, 0, 0)" "hwPixFmt v0 = None" "\<not> usingHardware v0" "fresh_frames v0"
    using fresh_frames_new(1) by (simp_all add: v0_def new_video_def contexts_def)
  obtain ok w where h: "setup_hw a v0 = (ok, w)" by force
  note hw = setup_hw_new [OF v0(1-3) h]
  have fw: "fresh_frames w" using fresh_frames_same [OF hw(5)] v0(4) by (simp add: fresh_frames_new)
  show ?thesis
  proof (cases "has_h264 a \<and> \<not> ok")
    case False
    then have "(rc, v) = (if has_h264 a then (0, w) else (- 1, v0))"
      using assms h by (auto simp: video_setup_def v0_def [symmetric])
    then show ?thesis using hw v0 fw False by (auto split: if_splits)
  next
    case True
    then have "setup_sw a w = (rc, v)" using assms h by (simp add: video_setup_def v0_def [symmetric])
    note sw = setup_sw_new [OF _ _ this]
    have c: "contexts w = (False, False, 0, 0)" "\<not> usingHardware w" using hw True by simp_all
    have "fresh_frames v" using fresh_frames_same [OF sw(5) [OF c]] fw by (simp add: fresh_frames_new)
    then show ?thesis using sw(1,2,3) [OF c] hw(1) True by auto
  qed
qed

text \<open>
  C25. The renderer falls back and cleans up: set-up succeeds exactly when FFmpeg has the decoder and
  either the hardware or the software attempt works, hardware first; a failed attempt leaves neither a
  context nor a device behind.  After any run of the two threads, once both are done, clean-up frees
  exactly what was allocated: no context, device, frame or texture is left and none is freed twice.
\<close>

theorem video_lifecycle:
  assumes "video_setup a width height new_video = (rc, v)" "pipe_step\<^sup>*\<^sup>* (start_pipeline v) p" "decoding p = None" "hand p = None"
  shows "rc = (if has_h264 a \<and> (hw_works a \<or> sw_alloc a \<and> sw_open a) then 0 else - 1)
         \<and> (codecCtx v \<longleftrightarrow> rc = 0) \<and> (usingHardware v \<longleftrightarrow> rc = 0 \<and> hw_works a) \<and> (hwDeviceCtx v \<longleftrightarrow> rc = 0 \<and> hw_works a)
         \<and> (rc \<noteq> 0 \<longrightarrow> ctx_live v = 0 \<and> dev_live v = 0)
         \<and> (let c = video_cleanup (vid p) in ctx_live c = 0 \<and> dev_live c = 0 \<and> frame_live c = 0 \<and> tex_live c = 0
              \<and> \<not> codecCtx c \<and> \<not> hwDeviceCtx c \<and> pendingFrame c = None \<and> \<not> texture c)"
proof -
  note s = video_setup_new [OF assms(1)]
  have f: "pipe_inv (start_pipeline v)" using s by (simp add: fresh_frames_def)
  have v: "(codecCtx v \<longleftrightarrow> rc = 0) \<and> (hwDeviceCtx v \<longleftrightarrow> rc = 0 \<and> hw_works a) \<and> ctx_live v = of_bool (codecCtx v) \<and> dev_live v = of_bool (hwDeviceCtx v)"
    using s by (auto simp: contexts_def split: if_splits)
  have "renderer_inv (start_pipeline v)" using f v by (simp add: renderer_inv_def start_pipeline_def)
  then have "renderer_inv p" by (rule renderer.steps [OF assms(2)])
  then have c: "let c = video_cleanup (vid p) in ctx_live c = 0 \<and> dev_live c = 0 \<and> frame_live c = 0 \<and> tex_live c = 0
      \<and> \<not> codecCtx c \<and> \<not> hwDeviceCtx c \<and> pendingFrame c = None \<and> \<not> texture c"
    using video_cleanup_all assms(3,4) by (simp add: renderer_inv_def)
  show ?thesis using s v c by auto
qed

section \<open>A run\<close>

definition demo_frame :: frame where
  "demo_frame = \<lparr>fr_format = Some PIX_YUV420P, fr_width = 2, fr_height = 2, fr_data = ''abc''\<rparr>"

theorem video_frames_in_order_witness:
  "\<exists>p. pipe_step\<^sup>*\<^sup>* (start_pipeline new_video) p \<and> framesDecoded (vid p) = 1 \<and> frame_live (vid p) = 2 \<and> decoded_log (vid p) = [demo_frame]"
proof -
  let ?p0 = "start_pipeline new_video"
  let ?p1 = "?p0\<lparr>decoding := Some [Received demo_frame (Some demo_frame)], vid := (vid ?p0)\<lparr>frame_live := frame_live (vid ?p0) + 1\<rparr>\<rparr>"
  let ?p2 = "?p1\<lparr>decoding := Some [], uncounted := fst (hand_over demo_frame (Some demo_frame) (vid ?p1)), vid := snd (hand_over demo_frame (Some demo_frame) (vid ?p1))\<rparr>"
  let ?p3 = "?p2\<lparr>uncounted := False, vid := count_decoded (vid ?p2)\<rparr>"
  have "pipe_step ?p0 ?p1" unfolding pipe_step_def by (rule disjI1, rule SubmitStart) (simp add: start_pipeline_def)
  moreover have "pipe_step ?p1 ?p2" unfolding pipe_step_def by (rule disjI1, rule ReceiveFrame) (simp_all add: start_pipeline_def)
  moreover have "pipe_step ?p2 ?p3" unfolding pipe_step_def
    by (rule disjI1, rule CountFrame) (simp add: hand_over_def new_video_def start_pipeline_def Let_def)
  ultimately have r: "pipe_step\<^sup>*\<^sup>* ?p0 ?p3" by (meson converse_rtranclp_into_rtranclp r_into_rtranclp)
  have f: "decoded_log (vid ?p3) = [demo_frame]" "pendingFrame (vid ?p3) \<noteq> None" "hand ?p3 = None" "decoding ?p3 \<noteq> None" "\<not> uncounted ?p3"
    by (simp_all add: hand_over_def count_decoded_def deliver_def new_video_def start_pipeline_def Let_def)
  then show ?thesis using r video_frames_in_order [OF r] by (intro exI [of _ ?p3]) simp
qed

theorem video_lifecycle_witness:
  "\<exists>v. video_setup \<lparr>has_h264 = True, makes_device = True, hw_alloc = True, hw_open = False, sw_alloc = True, sw_open = True\<rparr> 1920 1080 new_video = (0, v)
     \<and> \<not> usingHardware v \<and> dev_live (video_cleanup v) = 0 \<and> ctx_live (video_cleanup v) = 0"
proof -
  let ?a = "\<lparr>has_h264 = True, makes_device = True, hw_alloc = True, hw_open = False, sw_alloc = True, sw_open = True\<rparr>"
  obtain rc v where s: "video_setup ?a 1920 1080 new_video = (rc, v)" by force
  have "decoding (start_pipeline v) = None" "hand (start_pipeline v) = None" "vid (start_pipeline v) = v" by (simp_all add: start_pipeline_def)
  with video_lifecycle [OF s rtranclp.rtrancl_refl] have "rc = 0 \<and> \<not> usingHardware v \<and> dev_live (video_cleanup v) = 0 \<and> ctx_live (video_cleanup v) = 0"
    by (simp add: hw_works_def Let_def)
  with s show ?thesis by blast
qed

end
