(* ===== verification/StreamWindow.thy ===== *)
theory StreamWindow
  imports Prelude Numbers
begin

text \<open>
  The stream's window (\<^verbatim>\<open>src/src/client/stream_window.h\<close>, \<^verbatim>\<open>src/src/client/stream_window.cpp\<close>): creation with
  the software fallback, the event pump with its four controller slots, the reports sent to the host,
  and destruction.  SDL's answers are arguments; the values of the streaming library's button flags
  are a parameter.  The counters \<open>sdl_refs\<close>, \<open>window_live\<close>, \<open>renderer_live\<close> and \<open>pads_live\<close> follow what is
  opened and closed.
\<close>

unbundle bit_operations_syntax

section \<open>Controllers\<close>

datatype pad_button =
    BUTTON_A | BUTTON_B | BUTTON_X | BUTTON_Y | BUTTON_DPAD_UP | BUTTON_DPAD_DOWN | BUTTON_DPAD_LEFT | BUTTON_DPAD_RIGHT
  | BUTTON_LEFTSHOULDER | BUTTON_RIGHTSHOULDER | BUTTON_START | BUTTON_BACK | BUTTON_LEFTSTICK | BUTTON_RIGHTSTICK | BUTTON_GUIDE
  | BUTTON_OTHER nat

datatype pad_flag =
    A_FLAG | B_FLAG | X_FLAG | Y_FLAG | UP_FLAG | DOWN_FLAG | LEFT_FLAG | RIGHT_FLAG
  | LB_FLAG | RB_FLAG | PLAY_FLAG | BACK_FLAG | LS_CLK_FLAG | RS_CLK_FLAG | SPECIAL_FLAG

fun button_flag :: "pad_button \<Rightarrow> pad_flag option" where
  "button_flag BUTTON_A = Some A_FLAG"
| "button_flag BUTTON_B = Some B_FLAG"
| "button_flag BUTTON_X = Some X_FLAG"
| "button_flag BUTTON_Y = Some Y_FLAG"
| "button_flag BUTTON_DPAD_UP = Some UP_FLAG"
| "button_flag BUTTON_DPAD_DOWN = Some DOWN_FLAG"
| "button_flag BUTTON_DPAD_LEFT = Some LEFT_FLAG"
| "button_flag BUTTON_DPAD_RIGHT = Some RIGHT_FLAG"
| "button_flag BUTTON_LEFTSHOULDER = Some LB_FLAG"
| "button_flag BUTTON_RIGHTSHOULDER = Some RB_FLAG"
| "button_flag BUTTON_START = Some PLAY_FLAG"
| "button_flag BUTTON_BACK = Some BACK_FLAG"
| "button_flag BUTTON_LEFTSTICK = Some LS_CLK_FLAG"
| "button_flag BUTTON_RIGHTSTICK = Some RS_CLK_FLAG"
| "button_flag BUTTON_GUIDE = Some SPECIAL_FLAG"
| "button_flag (BUTTON_OTHER n) = None"

definition sdl_button_flag :: "(pad_flag \<Rightarrow> 32 word) \<Rightarrow> pad_button \<Rightarrow> 32 word" where
  "sdl_button_flag flag b = (case button_flag b of Some f \<Rightarrow> flag f | None \<Rightarrow> 0)"

text \<open>All of SDL's buttons: the named ones and some more.\<close>

definition sdl_buttons :: "nat \<Rightarrow> pad_button list" where
  "sdl_buttons extra =
     [BUTTON_A, BUTTON_B, BUTTON_X, BUTTON_Y, BUTTON_BACK, BUTTON_GUIDE, BUTTON_START, BUTTON_LEFTSTICK, BUTTON_RIGHTSTICK,
      BUTTON_LEFTSHOULDER, BUTTON_RIGHTSHOULDER, BUTTON_DPAD_UP, BUTTON_DPAD_DOWN, BUTTON_DPAD_LEFT, BUTTON_DPAD_RIGHT]
     @ map BUTTON_OTHER [0..<extra]"

text \<open>What SDL reports of an open controller: its buttons and six 16-bit axes.\<close>

record pad_state =
  pressed :: "pad_button \<Rightarrow> bool"
  triggerLeft :: "16 word"
  triggerRight :: "16 word"
  leftX :: "16 word"
  leftY :: "16 word"
  rightX :: "16 word"
  rightY :: "16 word"

record pad_report =
  controllerNumber :: nat
  activeGamepadMask :: "16 word"
  buttonFlags :: "32 word"
  leftTrigger :: "8 word"
  rightTrigger :: "8 word"
  leftStickX :: "16 word"
  leftStickY :: "16 word"
  rightStickX :: "16 word"
  rightStickY :: "16 word"

definition trigger_byte :: "16 word \<Rightarrow> 8 word" where
  "trigger_byte axis = of_int (sint axis div 2 ^ 7)"

definition flip_axis :: "16 word \<Rightarrow> 16 word" where
  "flip_axis axis = of_int (- sint axis - 1)"

definition pad_buttons :: "(pad_flag \<Rightarrow> 32 word) \<Rightarrow> nat \<Rightarrow> pad_state \<Rightarrow> 32 word" where
  "pad_buttons flag extra st =
     fold (\<lambda>b buttons. if pressed st b then buttons OR sdl_button_flag flag b else buttons) (sdl_buttons extra) 0"

section \<open>The window\<close>

text \<open>A controller SDL has opened is named by a number.\<close>

record stream_window =
  win_window :: bool
  win_renderer :: bool
  pads :: "nat option list"
  nativeHandle :: string
  win_sdlInited :: bool
  win_quit :: bool
  sdl_refs :: int
  window_live :: int
  renderer_live :: int
  pads_live :: int
  shown :: bool

definition new_window :: stream_window where
  "new_window =
     \<lparr>win_window = False, win_renderer = False, pads = [None, None, None, None], nativeHandle = [], win_sdlInited = False,
      win_quit = False, sdl_refs = 0, window_live = 0, renderer_live = 0, pads_live = 0, shown = False\<rparr>"

record sdl_create =
  init_ok :: bool
  window_ok :: bool
  accelerated_ok :: bool
  software_ok :: bool
  x11_window :: "64 word option"
  sdl_error :: string

definition window_create :: "sdl_create \<Rightarrow> stream_window \<Rightarrow> string option \<times> stream_window" where
  "window_create sdl w =
     (if \<not> init_ok sdl then (Some (''SDL_InitSubSystem failed: '' @ sdl_error sdl), w)
      else
        let w1 = w\<lparr>win_sdlInited := True, sdl_refs := sdl_refs w + 1\<rparr>
        in if \<not> window_ok sdl then (Some (''SDL_CreateWindow failed: '' @ sdl_error sdl), w1\<lparr>win_window := False\<rparr>)
           else
             let w2 = w1\<lparr>win_window := True, window_live := window_live w1 + 1\<rparr>
             in if \<not> accelerated_ok sdl \<and> \<not> software_ok sdl
                then (Some (''SDL_CreateRenderer failed: '' @ sdl_error sdl), w2\<lparr>win_renderer := False\<rparr>)
                else
                  let w3 = w2\<lparr>win_renderer := True, renderer_live := renderer_live w2 + 1\<rparr>
                  in (None, case x11_window sdl of
                              Some h \<Rightarrow> w3\<lparr>nativeHandle := to_string (uint h)\<rparr>
                            | None \<Rightarrow> w3))"

definition window_show :: "stream_window \<Rightarrow> stream_window" where
  "window_show w = (if win_window w then w\<lparr>shown := True\<rparr> else w)"

text \<open>The mask of occupied slots, and one report for each of them.\<close>

definition active_mask :: "nat option list \<Rightarrow> 16 word" where
  "active_mask ps = fold (\<lambda>i m. if ps ! i \<noteq> None then m OR push_bit i 1 else m) [0..<4] 0"

definition report :: "(pad_flag \<Rightarrow> 32 word) \<Rightarrow> nat \<Rightarrow> (nat \<Rightarrow> pad_state) \<Rightarrow> 16 word \<Rightarrow> nat \<Rightarrow> nat \<Rightarrow> pad_report" where
  "report flag extra sdl active i gc =
     (let st = sdl gc
      in \<lparr>controllerNumber = i, activeGamepadMask = active, buttonFlags = pad_buttons flag extra st,
          leftTrigger = trigger_byte (triggerLeft st), rightTrigger = trigger_byte (triggerRight st),
          leftStickX = leftX st, leftStickY = flip_axis (leftY st),
          rightStickX = rightX st, rightStickY = flip_axis (rightY st)\<rparr>)"

definition poll_and_send_gamepads :: "(pad_flag \<Rightarrow> 32 word) \<Rightarrow> nat \<Rightarrow> (nat \<Rightarrow> pad_state) \<Rightarrow> nat option list \<Rightarrow> pad_report list" where
  "poll_and_send_gamepads flag extra sdl ps =
     concat (map (\<lambda>i. case ps ! i of None \<Rightarrow> [] | Some gc \<Rightarrow> [report flag extra sdl (active_mask ps) i gc]) [0..<4])"

text \<open>The events the pump knows: a quit request; a device at an index, with what opening it gives; a device
  that is gone, with the controllers whose joystick it was; and the others.\<close>

datatype sdl_event =
    SDL_QUIT
  | DEVICE_ADDED int "nat option"
  | DEVICE_REMOVED "nat \<Rightarrow> bool"
  | OTHER_EVENT

definition close_pad :: "nat \<Rightarrow> stream_window \<Rightarrow> stream_window" where
  "close_pad i w = w\<lparr>pads := (pads w)[i := None], pads_live := pads_live w - 1\<rparr>"

definition remove_pad :: "(nat \<Rightarrow> bool) \<Rightarrow> nat \<Rightarrow> stream_window \<Rightarrow> stream_window" where
  "remove_pad gone i w = (case pads w ! i of None \<Rightarrow> w | Some gc \<Rightarrow> if gone gc then close_pad i w else w)"

definition remove_pads :: "(nat \<Rightarrow> bool) \<Rightarrow> stream_window \<Rightarrow> stream_window" where
  "remove_pads gone w = fold (remove_pad gone) [0..<4] w"

fun handle_event :: "sdl_event \<Rightarrow> stream_window \<Rightarrow> stream_window" where
  "handle_event SDL_QUIT w = w\<lparr>win_quit := True\<rparr>"
| "handle_event (DEVICE_ADDED idx opened) w =
     (if 0 \<le> idx \<and> idx < 4 \<and> pads w ! nat idx = None
      then w\<lparr>pads := (pads w)[nat idx := opened], pads_live := pads_live w + of_bool (opened \<noteq> None)\<rparr>
      else w)"
| "handle_event (DEVICE_REMOVED gone) w = remove_pads gone w"
| "handle_event OTHER_EVENT w = w"

definition pump ::
  "(pad_flag \<Rightarrow> 32 word) \<Rightarrow> nat \<Rightarrow> (nat \<Rightarrow> pad_state) \<Rightarrow> sdl_event list \<Rightarrow> stream_window \<Rightarrow> bool \<times> pad_report list \<times> stream_window" where
  "pump flag extra sdl evs w =
     (let w1 = fold handle_event evs w
      in (\<not> win_quit w1, poll_and_send_gamepads flag extra sdl (pads w1), w1))"

definition window_destroy :: "stream_window \<Rightarrow> stream_window" where
  "window_destroy w =
     (let w1 = remove_pads (\<lambda>_. True) w;
          w2 = (if win_renderer w1 then w1\<lparr>win_renderer := False, renderer_live := renderer_live w1 - 1\<rparr> else w1);
          w3 = (if win_window w2 then w2\<lparr>win_window := False, window_live := window_live w2 - 1\<rparr> else w2)
      in if win_sdlInited w3 then w3\<lparr>win_sdlInited := False, sdl_refs := sdl_refs w3 - 1\<rparr> else w3)"

section \<open>The slots\<close>

definition occupied :: "nat option list \<Rightarrow> int" where
  "occupied ps = int (length (filter (\<lambda>p. p \<noteq> None) ps))"

lemma occupied_update:
  "i < length ps \<Longrightarrow> occupied (ps[i := x]) = occupied ps - of_bool (ps ! i \<noteq> None) + of_bool (x \<noteq> None)"
proof (induction ps arbitrary: i)
  case (Cons p ps)
  then show ?case by (cases i) (auto simp: occupied_def)
qed simp

text \<open>What removal makes of a slot.\<close>

definition vacate :: "(nat \<Rightarrow> bool) \<Rightarrow> nat option \<Rightarrow> nat option" where
  "vacate gone p = (case p of None \<Rightarrow> None | Some gc \<Rightarrow> if gone gc then None else Some gc)"

definition window_inv :: "stream_window \<Rightarrow> bool" where
  "window_inv w \<longleftrightarrow>
     length (pads w) = 4 \<and> pads_live w = occupied (pads w)
     \<and> sdl_refs w = of_bool (win_sdlInited w) \<and> window_live w = of_bool (win_window w) \<and> renderer_live w = of_bool (win_renderer w)
     \<and> (win_renderer w \<longrightarrow> win_window w) \<and> (win_window w \<longrightarrow> win_sdlInited w)"

lemma remove_pad_effect:
  assumes "i < length (pads w)"
  shows "remove_pad gone i w = w\<lparr>pads := (pads w)[i := vacate gone (pads w ! i)],
           pads_live := pads_live w - occupied (pads w) + occupied ((pads w)[i := vacate gone (pads w ! i)])\<rparr>"
proof (cases "pads w ! i")
  case None
  then have "(pads w)[i := None] = pads w" by (metis list_update_id)
  with None show ?thesis by (simp add: remove_pad_def vacate_def)
next
  case (Some gc)
  then have "(pads w)[i := Some gc] = pads w" by (metis list_update_id)
  with Some show ?thesis using assms by (simp add: remove_pad_def vacate_def close_pad_def occupied_update)
qed

lemma remove_pads_effect:
  assumes "length (pads w) = 4"
  shows "remove_pads gone w = w\<lparr>pads := map (vacate gone) (pads w),
           pads_live := pads_live w - occupied (pads w) + occupied (map (vacate gone) (pads w))\<rparr>"
proof -
  obtain a b c d where ps: "pads w = [a, b, c, d]" using assms by (auto simp: length_Suc_conv eval_nat_numeral)
  have "remove_pads gone w = remove_pad gone 3 (remove_pad gone 2 (remove_pad gone 1 (remove_pad gone 0 w)))"
    unfolding remove_pads_def by (simp add: upt_rec eval_nat_numeral)
  also have "\<dots> = w\<lparr>pads := map (vacate gone) (pads w), pads_live := pads_live w - occupied (pads w) + occupied (map (vacate gone) (pads w))\<rparr>"
    by (simp add: remove_pad_effect ps)
  finally show ?thesis .
qed

lemma window_inv_event: "window_inv w \<Longrightarrow> window_inv (handle_event ev w)"
proof (cases ev)
  case (DEVICE_ADDED idx opened)
  assume "window_inv w"
  then show ?thesis using DEVICE_ADDED occupied_update [of "nat idx" "pads w" opened]
    by (auto simp: window_inv_def)
qed (auto simp: window_inv_def remove_pads_effect)

lemma event_quit: "length (pads w) = 4 \<Longrightarrow> win_quit (handle_event ev w) \<longleftrightarrow> win_quit w \<or> ev = SDL_QUIT"
  by (cases ev) (auto simp: remove_pads_effect)

lemma events_quit: "window_inv w \<Longrightarrow> win_quit (fold handle_event evs w) \<longleftrightarrow> win_quit w \<or> SDL_QUIT \<in> set evs"
proof (induction evs arbitrary: w)
  case (Cons ev evs)
  have "length (pads w) = 4" using Cons.prems by (simp add: window_inv_def)
  then show ?case using Cons.IH [OF window_inv_event [OF Cons.prems]] event_quit [of w ev] by auto
qed simp

definition window_held :: "stream_window \<Rightarrow> int list" where
  "window_held w = [sdl_refs w, window_live w, renderer_live w, pads_live w]"

lemma create_inv: "window_create sdl new_window = (e, w) \<Longrightarrow> window_inv w \<and> (e = None \<longleftrightarrow> win_renderer w) \<and> \<not> win_quit w"
  by (auto simp: window_create_def new_window_def window_inv_def occupied_def Let_def split: if_splits option.splits)

lemma destroy_all:
  assumes "window_inv w"
  shows "let d = window_destroy w in sdl_refs d = 0 \<and> window_live d = 0 \<and> renderer_live d = 0 \<and> pads_live d = 0
           \<and> \<not> win_window d \<and> \<not> win_renderer d \<and> \<not> win_sdlInited d \<and> pads d = replicate 4 None \<and> window_destroy d = d"
proof -
  have l: "length (pads w) = 4" using assms by (simp add: window_inv_def)
  have v: "vacate (\<lambda>_. True) = (\<lambda>_. None)" by (auto simp: vacate_def fun_eq_iff split: option.splits)
  have m: "map (\<lambda>_. None) (pads w) = replicate 4 None" using l by (simp add: map_replicate_const)
  have z: "occupied (replicate 4 None) = 0" by (simp add: occupied_def)
  have r: "remove_pads (\<lambda>_. True) w = w\<lparr>pads := replicate 4 None, pads_live := 0\<rparr>"
    using remove_pads_effect [OF l, of "\<lambda>_. True"] assms by (simp add: v m z window_inv_def)
  have again: "remove_pads (\<lambda>_. True) x = x" if "pads x = replicate 4 None" for x
    using remove_pads_effect [of x "\<lambda>_. True"] that by (simp add: v map_replicate_const z)
  define d where "d = window_destroy w"
  have d: "sdl_refs d = 0" "window_live d = 0" "renderer_live d = 0" "pads_live d = 0" "\<not> win_window d" "\<not> win_renderer d" "\<not> win_sdlInited d"
    "pads d = replicate 4 None"
    using assms unfolding d_def window_destroy_def r Let_def window_inv_def by simp_all
  have "window_destroy d = d" unfolding window_destroy_def Let_def again [OF d(8)] using d(5-7) by simp
  with d show ?thesis unfolding d_def Let_def by blast
qed

interpretation win: resource_owner "by_calls handle_event" window_inv "\<lambda>_. True" window_destroy window_held
proof unfold_locales
  show "window_inv w'" if "by_calls handle_event w w'" "window_inv w" for w w'
    using that window_inv_event by (auto simp: by_calls_def)
  show "set (window_held (window_destroy w)) \<subseteq> {0}" if "window_inv w" for w
    using destroy_all [OF that] by (simp add: window_held_def Let_def)
qed
section \<open>The reports\<close>

lemma sint_range16: "- 32768 \<le> sint (a :: 16 word)" "sint a \<le> 32767"
  using sint_ge [of a] sint_lt [of a] by simp_all

lemma sint_of_int16: "- 32768 \<le> x \<Longrightarrow> x \<le> 32767 \<Longrightarrow> sint (of_int x :: 16 word) = x"
  by (simp add: sint_sbintrunc' signed_take_bit_int_eq_self)

lemma sint_flip_axis: "sint (flip_axis a) = - sint a - 1"
  unfolding flip_axis_def using sint_range16 [of a] by (intro sint_of_int16) simp_all

lemma uint_trigger_byte:
  assumes "0 \<le> sint a" shows "uint (trigger_byte a) = sint a div 128"
proof -
  have "0 \<le> sint a div 128" "sint a div 128 < 256" using assms sint_range16 [of a] by simp_all
  then show ?thesis by (simp add: trigger_byte_def uint_word_of_int)
qed

lemma bit_fold_or:
  "bit (fold (\<lambda>x m. if P x then m OR g x else m) xs m) n \<longleftrightarrow> bit (m :: 'a :: len word) n \<or> (\<exists>x\<in>set xs. P x \<and> bit (g x) n)"
  by (induction xs arbitrary: m) (auto simp: bit_or_iff)

lemma bit_active_mask: "i < 16 \<Longrightarrow> bit (active_mask ps) i \<longleftrightarrow> i < 4 \<and> ps ! i \<noteq> None"
  unfolding active_mask_def bit_fold_or by (auto simp: bit_exp_iff)

lemma button_flag_inj: "button_flag b = Some f \<Longrightarrow> button_flag b' = Some f \<Longrightarrow> b = b'"
  by (cases b; cases b'; simp)

lemma named_buttons: "button_flag b = Some f \<Longrightarrow> b \<in> set (sdl_buttons extra)"
  by (cases b) (simp_all add: sdl_buttons_def)

lemma bit_pad_buttons:
  assumes "inj pos" "\<And>f. pos f < 32" "\<And>f. flag f = push_bit (pos f) 1" "button_flag b = Some f"
  shows "bit (pad_buttons flag extra st) (pos f) \<longleftrightarrow> pressed st b"
proof -
  have bit: "bit (sdl_button_flag flag c) (pos f) \<longleftrightarrow> button_flag c = Some f" for c
    using assms(2) [of f] injD [OF assms(1)] by (auto simp: sdl_button_flag_def assms(3) bit_exp_iff split: option.splits)
  show ?thesis
    unfolding pad_buttons_def bit_fold_or bit using button_flag_inj [OF _ assms(4)] named_buttons [OF assms(4), of extra] assms(4)
    by (metis bit_0_eq bot_apply bot_bool_def)
qed

section \<open>Properties\<close>

text \<open>
  C26. Controller input reaches the host unaltered: each poll sends one report per connected
  controller, in slot order; the mask's bits are exactly the occupied slots; a button's bit is set
  exactly when the button is pressed; a vertical axis is mirrored without wrapping, at both ends of the
  16-bit range too; a trigger is scaled from its 15 bits to a byte.
\<close>

theorem gamepad_reports:
  assumes "inj pos" "\<And>f. pos f < 32" "\<And>f. flag f = push_bit (pos f) 1"
  shows "map controllerNumber (poll_and_send_gamepads flag extra sdl ps) = filter (\<lambda>i. ps ! i \<noteq> None) [0..<4]
         \<and> (\<forall>r \<in> set (poll_and_send_gamepads flag extra sdl ps).
              (\<forall>i < 16. bit (activeGamepadMask r) i \<longleftrightarrow> i < 4 \<and> ps ! i \<noteq> None)
              \<and> (\<exists>gc. ps ! controllerNumber r = Some gc
                   \<and> (\<forall>b f. button_flag b = Some f \<longrightarrow> (bit (buttonFlags r) (pos f) \<longleftrightarrow> pressed (sdl gc) b))
                   \<and> leftStickX r = leftX (sdl gc) \<and> rightStickX r = rightX (sdl gc)
                   \<and> sint (leftStickY r) = - sint (leftY (sdl gc)) - 1 \<and> sint (rightStickY r) = - sint (rightY (sdl gc)) - 1
                   \<and> (0 \<le> sint (triggerLeft (sdl gc)) \<longrightarrow> uint (leftTrigger r) = sint (triggerLeft (sdl gc)) div 128)
                   \<and> (0 \<le> sint (triggerRight (sdl gc)) \<longrightarrow> uint (rightTrigger r) = sint (triggerRight (sdl gc)) div 128)))"
proof -
  let ?one = "\<lambda>i. case ps ! i of None \<Rightarrow> [] | Some gc \<Rightarrow> [report flag extra sdl (active_mask ps) i gc]"
  have "map controllerNumber (concat (map ?one is)) = filter (\<lambda>i. ps ! i \<noteq> None) is" for "is"
    by (induction "is") (auto simp: report_def Let_def split: option.splits)
  moreover have "\<exists>gc i. ps ! i = Some gc \<and> r = report flag extra sdl (active_mask ps) i gc"
    if "r \<in> set (poll_and_send_gamepads flag extra sdl ps)" for r
    using that by (auto simp: poll_and_send_gamepads_def split: option.splits) metis
  ultimately show ?thesis
    unfolding poll_and_send_gamepads_def [symmetric]
    by (fastforce simp: poll_and_send_gamepads_def report_def Let_def bit_active_mask bit_pad_buttons [OF assms] sint_flip_axis uint_trigger_byte)
qed

text \<open>
  The window cleans up after itself: whatever of its creation succeeded and whatever events it
  handled, destroying it closes exactly what was opened, once: no controller, renderer, window or SDL
  reference is left, and a second destruction does nothing.  Creation succeeds exactly when a renderer
  could be made, and the pump asks to end exactly when a quit request has been seen.
\<close>

theorem window_lifecycle:
  assumes "window_create answers new_window = (e, w)"
  shows "(e = None \<longleftrightarrow> init_ok answers \<and> window_ok answers \<and> (accelerated_ok answers \<or> software_ok answers))
         \<and> (fst (pump flag extra sdl evs w) \<longleftrightarrow> SDL_QUIT \<notin> set evs)
         \<and> (let d = window_destroy (snd (snd (pump flag extra sdl evs w)))
            in sdl_refs d = 0 \<and> window_live d = 0 \<and> renderer_live d = 0 \<and> pads_live d = 0
               \<and> \<not> win_window d \<and> \<not> win_renderer d \<and> \<not> win_sdlInited d \<and> pads d = replicate 4 None \<and> window_destroy d = d)"
proof -
  have w: "window_inv w" "\<not> win_quit w" using create_inv [OF assms] by blast+
  have "e = None \<longleftrightarrow> init_ok answers \<and> window_ok answers \<and> (accelerated_ok answers \<or> software_ok answers)"
    using assms by (auto simp: window_create_def Let_def split: if_splits option.splits)
  then show ?thesis
    using events_quit [OF w(1), of evs] destroy_all [OF win.steps [OF fold_by_calls w(1), of evs]] w(2) by (simp add: pump_def Let_def)
qed

definition demo_pos :: "pad_flag \<Rightarrow> nat" where
  "demo_pos f = (case f of UP_FLAG \<Rightarrow> 0 | DOWN_FLAG \<Rightarrow> 1 | LEFT_FLAG \<Rightarrow> 2 | RIGHT_FLAG \<Rightarrow> 3 | PLAY_FLAG \<Rightarrow> 4 | BACK_FLAG \<Rightarrow> 5 | LS_CLK_FLAG \<Rightarrow> 6
     | RS_CLK_FLAG \<Rightarrow> 7 | LB_FLAG \<Rightarrow> 8 | RB_FLAG \<Rightarrow> 9 | SPECIAL_FLAG \<Rightarrow> 10 | A_FLAG \<Rightarrow> 12 | B_FLAG \<Rightarrow> 13 | X_FLAG \<Rightarrow> 14 | Y_FLAG \<Rightarrow> 15)"

theorem gamepad_reports_witness:
  "\<exists>r. poll_and_send_gamepads (\<lambda>f. push_bit (demo_pos f) 1) 6
          (\<lambda>_. \<lparr>pressed = (\<lambda>b. b = BUTTON_A), triggerLeft = 32767, triggerRight = 0, leftX = 0, leftY = 32767, rightX = 0, rightY = 0\<rparr>)
          [None, Some 7, None, None] = [r]
     \<and> controllerNumber r = 1 \<and> sint (leftStickY r) = - 32768 \<and> uint (leftTrigger r) = 255 \<and> bit (buttonFlags r) 12"
proof -
  let ?sdl = "\<lambda>_ :: nat. \<lparr>pressed = (\<lambda>b. b = BUTTON_A), triggerLeft = 32767, triggerRight = 0, leftX = 0, leftY = 32767, rightX = 0, rightY = 0\<rparr>"
  let ?ps = "[None, Some 7, None, None] :: nat option list"
  let ?rs = "poll_and_send_gamepads (\<lambda>f. push_bit (demo_pos f) 1) 6 ?sdl ?ps"
  have "inj demo_pos" by (rule injI) (auto simp: demo_pos_def split: pad_flag.splits)
  moreover have "demo_pos f < 32" for f by (simp add: demo_pos_def split: pad_flag.splits)
  ultimately have g: "map controllerNumber ?rs = filter (\<lambda>i. ?ps ! i \<noteq> None) [0..<4] \<and> (\<forall>r \<in> set ?rs. P r)"
    if "\<And>r gc. \<lbrakk>\<forall>b f. button_flag b = Some f \<longrightarrow> (bit (buttonFlags r) (demo_pos f) \<longleftrightarrow> pressed (?sdl gc) b);
          sint (leftStickY r) = - sint (leftY (?sdl gc)) - 1;
          0 \<le> sint (triggerLeft (?sdl gc)) \<longrightarrow> uint (leftTrigger r) = sint (triggerLeft (?sdl gc)) div 128\<rbrakk> \<Longrightarrow> P r" for P
    using gamepad_reports [of demo_pos "\<lambda>f. push_bit (demo_pos f) 1" 6 ?sdl ?ps] that by meson
  have "sint (32767 :: 16 word) = 32767" "demo_pos A_FLAG = 12" by (simp_all add: demo_pos_def)
  then have p: "map controllerNumber ?rs = filter (\<lambda>i. ?ps ! i \<noteq> None) [0..<4]
      \<and> (\<forall>r \<in> set ?rs. bit (buttonFlags r) 12 \<and> sint (leftStickY r) = - 32768 \<and> uint (leftTrigger r) = 255)"
    by (intro g) (auto dest: spec [of _ BUTTON_A])
  have "filter (\<lambda>i. ?ps ! i \<noteq> None) [0..<4] = [1]" by (simp add: upt_rec)
  with p obtain r where "?rs = [r]" "controllerNumber r = 1" by auto
  with p show ?thesis by auto
qed

theorem window_lifecycle_witness:
  "\<exists>w. window_create \<lparr>init_ok = True, window_ok = True, accelerated_ok = False, software_ok = True, x11_window = Some 9, sdl_error = []\<rparr> new_window = (None, w)
     \<and> pads_live (window_destroy (snd (snd (pump (\<lambda>_. 0) 6 (\<lambda>_. undefined) [DEVICE_ADDED 2 (Some 5)] w)))) = 0"
proof -
  let ?a = "\<lparr>init_ok = True, window_ok = True, accelerated_ok = False, software_ok = True, x11_window = Some 9, sdl_error = []\<rparr>"
  obtain e w where c: "window_create ?a new_window = (e, w)" by force
  with window_lifecycle [OF c, of "\<lambda>_. 0" 6 "\<lambda>_. undefined" "[DEVICE_ADDED 2 (Some 5)]"] show ?thesis by (auto simp: Let_def)
qed

end
