(* ===== verification/AudioRenderer.thy ===== *)
theory AudioRenderer
  imports Prelude
begin

text \<open>
  The audio pipeline (\<^verbatim>\<open>src/src/client/audio_renderer.h\<close>, \<^verbatim>\<open>src/src/client/audio_renderer.cpp\<close>): set-up from the
  negotiated configuration, decoding and queueing of a packet, clean-up.  Opus and SDL are not
  modelled; their results are arguments.  The counters follow what is opened and closed, and \<open>queued\<close>
  records the sizes handed to the audio device.
\<close>

section \<open>Set-up\<close>

record opus_config =
  sampleRate :: int
  oc_channelCount :: int
  oc_samplesPerFrame :: int

record audio_renderer =
  decoder :: bool
  audioDevice :: "32 word"
  channelCount :: int
  samplesPerFrame :: int
  aud_sdlInited :: bool
  pcm_size :: nat
  framesPlayed :: "64 word"
  decoders_live :: int
  devices_live :: int
  audio_refs :: int
  queued :: "int list"

definition new_audio :: audio_renderer where
  "new_audio =
     \<lparr>decoder = False, audioDevice = 0, channelCount = 0, samplesPerFrame = 0, aud_sdlInited = False, pcm_size = 0, framesPlayed = 0,
      decoders_live = 0, devices_live = 0, audio_refs = 0, queued = []\<rparr>"

text \<open>What the device is asked for.\<close>

record audio_spec =
  spec_freq :: int
  spec_channels :: "8 word"
  spec_samples :: "16 word"

text \<open>\<^verbatim>\<open>while (bufSamples < samplesPerFrame_) bufSamples <<= 1\<close> on 32-bit integers; \<^term>\<open>None\<close> when it does not
  end.\<close>

partial_function (option) grow_buffer :: "int \<Rightarrow> int \<Rightarrow> int option" where
  "grow_buffer spf bufSamples =
     (if bufSamples < spf then grow_buffer spf (sint (of_int (bufSamples * 2) :: 32 word)) else Some bufSamples)"

text \<open>What the libraries answer: whether the decoder was made and reported no error, whether SDL's audio
  came up, and the device opened for a request (0 when none).  Opus reports an error exactly when it
  returns no decoder, so the two tests of the code are one answer here; a decoder returned beside an error would
  be dropped by the code without being destroyed.\<close>

record audio_answers =
  opus_ok :: bool
  audio_init_ok :: bool
  open_device :: "audio_spec \<Rightarrow> 32 word"

definition wanted_spec :: "opus_config \<Rightarrow> int \<Rightarrow> audio_spec" where
  "wanted_spec cfg bufSamples =
     \<lparr>spec_freq = sampleRate cfg, spec_channels = of_int (oc_channelCount cfg), spec_samples = of_int bufSamples\<rparr>"

definition audio_init :: "audio_answers \<Rightarrow> opus_config option \<Rightarrow> audio_renderer \<Rightarrow> (int \<times> audio_renderer) option" where
  "audio_init ans config a =
     (case config of
        None \<Rightarrow> Some (- 1, a)
      | Some cfg \<Rightarrow>
          let a1 = a\<lparr>channelCount := oc_channelCount cfg, samplesPerFrame := oc_samplesPerFrame cfg\<rparr>
          in if \<not> opus_ok ans then Some (- 1, a1\<lparr>decoder := False\<rparr>)
             else
               let a2 = a1\<lparr>decoder := True, decoders_live := decoders_live a1 + 1\<rparr>
               in if \<not> audio_init_ok ans then Some (- 1, a2)
                  else
                    let a3 = a2\<lparr>aud_sdlInited := True, audio_refs := audio_refs a2 + 1\<rparr>
                    in case grow_buffer (samplesPerFrame a3) 1024 of
                         None \<Rightarrow> None
                       | Some bufSamples \<Rightarrow>
                           let dev = open_device ans (wanted_spec cfg bufSamples);
                               a4 = a3\<lparr>audioDevice := dev, devices_live := devices_live a3 + of_bool (dev \<noteq> 0)\<rparr>
                           in if dev = 0 then Some (- 1, a4)
                              else Some (0, a4\<lparr>pcm_size := nat (uint (of_int (samplesPerFrame a4) * of_int (channelCount a4) :: 64 word))\<rparr>))"

section \<open>Playing and clean-up\<close>

text \<open>\<^verbatim>\<open>opus_multistream_decode\<close> is given the packet and the room per channel, and answers with the samples
  per channel it wrote, or a negative error.\<close>

definition decode_and_play :: "(bytes \<Rightarrow> int \<Rightarrow> int) \<Rightarrow> (int \<Rightarrow> bool) \<Rightarrow> bytes \<Rightarrow> audio_renderer \<Rightarrow> audio_renderer" where
  "decode_and_play opus queue sampleData a =
     (if \<not> decoder a \<or> audioDevice a = 0 \<or> pcm_size a = 0 then a
      else
        let decoded = opus sampleData (samplesPerFrame a)
        in if decoded \<le> 0 then a
           else
             let size = sint (of_int (decoded * channelCount a * 2) :: 32 word);
                 a1 = a\<lparr>queued := queued a @ [uint (of_int size :: 32 word)]\<rparr>
             in if queue size then a1\<lparr>framesPlayed := framesPlayed a1 + 1\<rparr> else a1)"

definition audio_cleanup :: "audio_renderer \<Rightarrow> audio_renderer" where
  "audio_cleanup a =
     (let a1 = (if audioDevice a \<noteq> 0 then a\<lparr>audioDevice := 0, devices_live := devices_live a - 1\<rparr> else a);
          a2 = (if decoder a1 then a1\<lparr>decoder := False, decoders_live := decoders_live a1 - 1\<rparr> else a1)
      in if aud_sdlInited a2 then a2\<lparr>aud_sdlInited := False, audio_refs := audio_refs a2 - 1\<rparr> else a2)"

text \<open>The callbacks of \<^verbatim>\<open>src/src/client/stream_session.cpp\<close>.\<close>

definition ar_init :: "audio_answers \<Rightarrow> opus_config option \<Rightarrow> audio_renderer option \<Rightarrow> (int \<times> audio_renderer option) option" where
  "ar_init ans config g_audio =
     (case g_audio of None \<Rightarrow> Some (0, None) | Some a \<Rightarrow> map_option (map_prod id Some) (audio_init ans config a))"

definition ar_play :: "(bytes \<Rightarrow> int \<Rightarrow> int) \<Rightarrow> (int \<Rightarrow> bool) \<Rightarrow> bytes \<Rightarrow> audio_renderer option \<Rightarrow> audio_renderer option" where
  "ar_play opus queue sampleData g_audio = map_option (decode_and_play opus queue sampleData) g_audio"

section \<open>The buffer size\<close>

lemma sint_of_int32: "- (2 ^ 31) \<le> x \<Longrightarrow> x < 2 ^ 31 \<Longrightarrow> sint (of_int x :: 32 word) = x"
  by (simp only: sint_sbintrunc') (simp add: signed_take_bit_int_eq_self)

lemma grow_buffer_doubles:
  assumes "spf \<le> 2 ^ 30" "n \<le> 20" "1024 * 2 ^ n < spf \<or> n = 0 \<or> 1024 * 2 ^ (n - 1) < spf"
  shows "\<exists>k. n \<le> k \<and> k \<le> 20 \<and> grow_buffer spf (1024 * 2 ^ n) = Some (1024 * 2 ^ k) \<and> spf \<le> 1024 * 2 ^ k
            \<and> (k = 0 \<or> 1024 * 2 ^ (k - 1) < spf)"
  using assms(2,3)
proof (induction "20 - n" arbitrary: n rule: less_induct)
  case less
  show ?case
  proof (cases "1024 * 2 ^ n < spf")
    case False
    then show ?thesis using less.prems by (intro exI [of _ n]) (subst grow_buffer.simps, auto)
  next
    case True
    have "n < 20"
    proof (rule ccontr)
      assume "\<not> n < 20"
      then have "n = 20" using less.prems by simp
      then show False using True assms(1) by simp
    qed
    have "(2::int) ^ n \<le> 2 ^ 19" using \<open>n < 20\<close> by (intro power_increasing) simp_all
    moreover have "sint (of_int (1024 * x * 2) :: 32 word) = 1024 * x * 2" if "0 \<le> x" "x \<le> 2 ^ 19" for x
      using that by (intro sint_of_int32) simp_all
    ultimately have "sint (of_int (1024 * 2 ^ n * 2) :: 32 word) = 1024 * 2 ^ n * 2" by (simp only: zero_le_power zero_le_numeral)
    then have "sint (of_int (1024 * 2 ^ n * 2) :: 32 word) = 1024 * 2 ^ Suc n" by (simp only: power_Suc mult_ac)
    moreover obtain k where "Suc n \<le> k" "k \<le> 20" "grow_buffer spf (1024 * 2 ^ Suc n) = Some (1024 * 2 ^ k)" "spf \<le> 1024 * 2 ^ k"
        "k = 0 \<or> 1024 * 2 ^ (k - 1) < spf"
    proof -
      have "20 - Suc n < 20 - n" using \<open>n < 20\<close> by simp
      moreover have "1024 * 2 ^ Suc n < spf \<or> Suc n = 0 \<or> 1024 * 2 ^ (Suc n - 1) < spf" using True by simp
      ultimately show thesis using less.hyps [of "Suc n"] \<open>n < 20\<close> that by (metis Suc_leI)
    qed
    ultimately show ?thesis using True by (intro exI [of _ k]) (subst grow_buffer.simps, auto)
  qed
qed

lemma grow_buffer_spec:
  assumes "spf \<le> 2 ^ 30"
  obtains k where "k \<le> 20" "grow_buffer spf 1024 = Some (1024 * 2 ^ k)" "spf \<le> 1024 * 2 ^ k" "k = 0 \<or> 1024 * 2 ^ (k - 1) < spf"
  using grow_buffer_doubles [OF assms, of 0] by auto

section \<open>Properties\<close>

definition audio_inv :: "audio_renderer \<Rightarrow> bool" where
  "audio_inv a \<longleftrightarrow>
     decoders_live a = of_bool (decoder a) \<and> devices_live a = of_bool (audioDevice a \<noteq> 0) \<and> audio_refs a = of_bool (aud_sdlInited a)"

definition sane_config :: "opus_config \<Rightarrow> bool" where
  "sane_config cfg \<longleftrightarrow> 1 \<le> oc_channelCount cfg \<and> oc_channelCount cfg \<le> 255 \<and> 1 \<le> oc_samplesPerFrame cfg \<and> oc_samplesPerFrame cfg \<le> 32768"

text \<open>The device's buffer for a configuration: the requested size, and the bytes the queue may read.\<close>

definition in_buffer :: "audio_renderer \<Rightarrow> bool" where
  "in_buffer a \<longleftrightarrow> (\<forall>n \<in> set (queued a). 0 < n \<and> n \<le> 2 * int (pcm_size a))"

definition pcm_fits :: "audio_renderer \<Rightarrow> bool" where
  "pcm_fits a \<longleftrightarrow> pcm_size a = 0
     \<or> (1 \<le> channelCount a \<and> channelCount a \<le> 255 \<and> samplesPerFrame a \<le> 32768 \<and> int (pcm_size a) = samplesPerFrame a * channelCount a)"

lemma play_keeps:
  assumes "in_buffer a" "pcm_fits a" "\<And>d n. opus d n \<le> n"
  shows "in_buffer (decode_and_play opus queue d a) \<and> pcm_fits (decode_and_play opus queue d a)"
proof -
  let ?n = "opus d (samplesPerFrame a)"
  have "0 < uint (of_int (sint (of_int (?n * channelCount a * 2) :: 32 word)) :: 32 word)
      \<and> uint (of_int (sint (of_int (?n * channelCount a * 2) :: 32 word)) :: 32 word) \<le> 2 * int (pcm_size a)"
    if "pcm_size a \<noteq> 0" "0 < ?n"
  proof -
    have c: "1 \<le> channelCount a" "channelCount a \<le> 255" "samplesPerFrame a \<le> 32768" "int (pcm_size a) = samplesPerFrame a * channelCount a"
      using assms(2) that(1) by (auto simp: pcm_fits_def)
    have n: "?n \<le> samplesPerFrame a" by (rule assms(3))
    have le: "?n * channelCount a \<le> int (pcm_size a)" using n c by (simp add: mult_right_mono)
    have "samplesPerFrame a * channelCount a \<le> 32768 * 255" using c n that(2) by (intro mult_mono) simp_all
    then have "?n * channelCount a \<le> 8355840" using le c(4) by simp
    then have "?n * channelCount a * 2 < 2 ^ 31" by (simp add: mult.commute)
    moreover have "0 < ?n * channelCount a * 2" using c that(2) by simp
    ultimately have x: "0 < ?n * channelCount a * 2" "?n * channelCount a * 2 < 2 ^ 31" by blast+
    then have "sint (of_int (?n * channelCount a * 2) :: 32 word) = ?n * channelCount a * 2" by (intro sint_of_int32) simp_all
    moreover have "uint (of_int (?n * channelCount a * 2) :: 32 word) = ?n * channelCount a * 2"
      using x by (simp only: uint_word_of_int) simp
    moreover have "?n * channelCount a * 2 \<le> 2 * int (pcm_size a)" using le by linarith
    ultimately show ?thesis using x(1) by (simp only:)
  qed
  then show ?thesis
    using assms(1,2) by (auto simp: decode_and_play_def in_buffer_def pcm_fits_def Let_def)
qed

lemma plays_keep:
  assumes "\<And>d n. opus d n \<le> n"
  shows "in_buffer a \<Longrightarrow> pcm_fits a \<Longrightarrow>
     in_buffer (fold (decode_and_play opus queue) ds a) \<and> pcm_fits (fold (decode_and_play opus queue) ds a)"
proof (induction ds arbitrary: a)
  case (Cons d ds)
  then show ?case using play_keeps [of a opus queue d, OF Cons.prems assms] by (simp only: fold_simps)
qed simp

lemma audio_inv_play: "audio_inv (decode_and_play opus queue d a) \<longleftrightarrow> audio_inv a"
  by (simp add: decode_and_play_def audio_inv_def Let_def)

lemma init_keeps:
  assumes "audio_init ans (Some cfg) new_audio = Some (rc, a)" "sane_config cfg"
  shows "audio_inv a \<and> in_buffer a \<and> pcm_fits a"
proof -
  have "oc_samplesPerFrame cfg * oc_channelCount cfg \<le> 32768 * 255"
    using assms(2) by (intro mult_mono) (simp_all add: sane_config_def)
  moreover have "0 \<le> oc_samplesPerFrame cfg * oc_channelCount cfg" using assms(2) by (simp add: sane_config_def)
  ultimately have "uint (of_int (oc_samplesPerFrame cfg * oc_channelCount cfg) :: 64 word) = oc_samplesPerFrame cfg * oc_channelCount cfg"
    by (simp only: uint_word_of_int) simp
  then have "int (nat (uint (of_int (oc_samplesPerFrame cfg) * of_int (oc_channelCount cfg) :: 64 word))) = oc_samplesPerFrame cfg * oc_channelCount cfg"
    using \<open>0 \<le> oc_samplesPerFrame cfg * oc_channelCount cfg\<close> by (simp only: of_int_mult int_nat_eq if_True)
  note size = this
  show ?thesis
  proof (cases "opus_ok ans \<and> audio_init_ok ans")
    case False
    then show ?thesis
      using assms(1) by (cases "opus_ok ans") (auto simp: audio_init_def new_audio_def audio_inv_def in_buffer_def pcm_fits_def Let_def)
  next
    case True
    then obtain n where n: "grow_buffer (oc_samplesPerFrame cfg) 1024 = Some n"
      using assms(1) by (auto simp: audio_init_def Let_def split: option.splits)
    show ?thesis
      using assms True n size
      by (cases "open_device ans (wanted_spec cfg n) = 0")
        (simp_all add: audio_init_def new_audio_def audio_inv_def in_buffer_def pcm_fits_def sane_config_def Let_def, auto)
  qed
qed

lemma audio_cleanup_all:
  "audio_inv a \<Longrightarrow> let c = audio_cleanup a in decoders_live c = 0 \<and> devices_live c = 0 \<and> audio_refs c = 0
     \<and> \<not> decoder c \<and> audioDevice c = 0 \<and> \<not> aud_sdlInited c"
  by (simp add: audio_cleanup_def audio_inv_def Let_def)

definition audio_held :: "audio_renderer \<Rightarrow> int list" where
  "audio_held a = [decoders_live a, devices_live a, audio_refs a]"

interpretation aud: resource_owner "by_calls (decode_and_play opus queue)" audio_inv "\<lambda>_. True" audio_cleanup audio_held
  for opus queue
proof unfold_locales
  show "audio_inv b" if "by_calls (decode_and_play opus queue) a b" "audio_inv a" for a b
    using that by (auto simp: by_calls_def audio_inv_play)
  show "set (audio_held (audio_cleanup a)) \<subseteq> {0}" if "audio_inv a" for a
    using audio_cleanup_all [OF that] by (simp add: audio_held_def Let_def)
qed

text \<open>
  C27. Audio stays inside its buffer and is cleaned up: for a configuration within Opus's range set-up
  always returns; the device is asked for the smallest power of two, from 1024 on, that holds a frame,
  and the request is not truncated; as long as the decoder writes no more samples than it was offered,
  every size handed to the device is positive and within the decode buffer; and after any number of
  packets clean-up closes exactly what set-up opened, whichever of its steps succeeded.
\<close>

theorem audio_safe:
  assumes "sane_config cfg" "\<And>d n. opus d n \<le> n"
  shows "\<exists>rc a k. audio_init ans (Some cfg) new_audio = Some (rc, a)
           \<and> grow_buffer (oc_samplesPerFrame cfg) 1024 = Some (1024 * 2 ^ k)
           \<and> uint (spec_samples (wanted_spec cfg (1024 * 2 ^ k))) = 1024 * 2 ^ k
           \<and> oc_samplesPerFrame cfg \<le> 1024 * 2 ^ k \<and> (k = 0 \<or> 1024 * 2 ^ (k - 1) < oc_samplesPerFrame cfg)
           \<and> in_buffer (fold (decode_and_play opus queue) ds a)
           \<and> (let c = audio_cleanup (fold (decode_and_play opus queue) ds a)
              in decoders_live c = 0 \<and> devices_live c = 0 \<and> audio_refs c = 0 \<and> \<not> decoder c \<and> audioDevice c = 0 \<and> \<not> aud_sdlInited c)"
proof -
  have spf: "oc_samplesPerFrame cfg \<le> 32768" using assms(1) by (simp add: sane_config_def)
  then obtain k where k: "k \<le> 20" "grow_buffer (oc_samplesPerFrame cfg) 1024 = Some (1024 * 2 ^ k)" "oc_samplesPerFrame cfg \<le> 1024 * 2 ^ k"
    "k = 0 \<or> 1024 * 2 ^ (k - 1) < oc_samplesPerFrame cfg"
    using grow_buffer_spec [of "oc_samplesPerFrame cfg"] by auto
  have "k \<le> 5"
  proof (rule ccontr)
    assume "\<not> k \<le> 5"
    then have "(2::int) ^ 5 \<le> 2 ^ (k - 1)" by (intro power_increasing) simp_all
    then show False using k(4) spf \<open>\<not> k \<le> 5\<close> by simp
  qed
  then have "(2::int) ^ k \<le> 2 ^ 5" by (intro power_increasing) simp_all
  then have size: "uint (of_int (1024 * 2 ^ k) :: 16 word) = 1024 * 2 ^ k" by (simp only: uint_word_of_int) simp
  have "audio_init ans (Some cfg) new_audio \<noteq> None" using k(2) by (simp add: audio_init_def Let_def)
  then obtain rc a where i: "audio_init ans (Some cfg) new_audio = Some (rc, a)" by auto
  note keep = plays_keep [of opus a queue ds, OF assms(2)] and inv = aud.steps [OF fold_by_calls, of a opus queue ds]
  show ?thesis
    using i k(2-4) size init_keeps [OF i assms(1)] keep inv audio_cleanup_all by (intro exI [of _ rc] exI [of _ a] exI [of _ k]) (simp add: wanted_spec_def)
qed

theorem audio_safe_witness:
  "\<exists>a. audio_init \<lparr>opus_ok = True, audio_init_ok = True, open_device = (\<lambda>_. 2)\<rparr> (Some \<lparr>sampleRate = 48000, oc_channelCount = 2, oc_samplesPerFrame = 240\<rparr>)
        new_audio = Some (0, a) \<and> in_buffer (fold (decode_and_play (\<lambda>_ n. n) (\<lambda>_. True)) [''x'', ''y''] a)"
proof -
  let ?ans = "\<lparr>opus_ok = True, audio_init_ok = True, open_device = (\<lambda>_. 2)\<rparr>" and ?cfg = "\<lparr>sampleRate = 48000, oc_channelCount = 2, oc_samplesPerFrame = 240\<rparr>"
  have "sane_config ?cfg" by (simp add: sane_config_def)
  from audio_safe [OF this, of "\<lambda>_ n. n" ?ans "\<lambda>_. True" "[''x'', ''y'']"] obtain rc a where
    a: "audio_init ?ans (Some ?cfg) new_audio = Some (rc, a)" "in_buffer (fold (decode_and_play (\<lambda>_ n. n) (\<lambda>_. True)) [''x'', ''y''] a)" by blast
  have "grow_buffer 240 1024 = Some 1024" by (simp add: grow_buffer.simps)
  then have "rc = 0" using a(1) by (simp add: audio_init_def Let_def split: if_splits)
  with a show ?thesis by blast
qed

end
