(* ===== verification/StreamRun.thy ===== *)
theory StreamRun
  imports StreamSession VideoRenderer StreamWindow AudioRenderer
begin

text \<open>
  The worker of a session at full detail (\<^verbatim>\<open>StreamSession::run\<close> in
  \<^verbatim>\<open>src/src/client/stream_session.cpp\<close>, the build with the renderer): the session of \<open>StreamSession\<close>
  together with the window, the video renderer and the audio renderer that the worker owns, and the
  callbacks through which the streaming library's threads reach them.  A step of this machine is a
  step of the session or leaves the session as it is, so what holds of the session holds here; in
  addition the three owned objects are followed from their construction to their destructors.

  Of the library it is assumed, as its interface says, that it sets up video and audio at most once
  per connection and while connecting, that it submits one decode unit at a time and none before the
  set-up, and that its threads have stopped when \<^verbatim>\<open>LiStopConnection\<close> or a failed \<^verbatim>\<open>LiStartConnection\<close>
  returns.
\<close>

section \<open>State\<close>

record stream_stats =
  st_framesDecoded :: "64 word"
  st_framesPresented :: "64 word"
  st_decodeErrors :: "64 word"
  st_hardware :: bool
  st_width :: int
  st_height :: int
  rttMs :: "32 word"
  rttVarMs :: "32 word"

text \<open>The sample the loop takes every second from the renderer and the library.\<close>

definition stats_sample :: "video_stats \<Rightarrow> 32 word \<Rightarrow> 32 word \<Rightarrow> stream_stats" where
  "stats_sample vs rtt rttVar =
     \<lparr>st_framesDecoded = vs_framesDecoded vs, st_framesPresented = vs_framesPresented vs, st_decodeErrors = vs_decodeErrors vs,
      st_hardware = vs_usingHardware vs, st_width = vs_width vs, st_height = vs_height vs, rttMs = rtt, rttVarMs = rttVar\<rparr>"

text \<open>Where the worker is inside a stage: at the head of the loop (or at the start of another stage), about
  to pump events, to take a frame, to draw the one it took, to report; past the release of the
  video or of the audio renderer.\<close>

datatype place = Head | Pumping | Presenting | Drawing | Reporting | VideoGone | AudioGone

text \<open>Beside the session stand the worker's locals, the global the audio callbacks use, whether the library
  has made its set-up calls, and what was sent: statistics with their times, and controller reports.\<close>

record run_state =
  rs_ses :: session
  rs_win :: stream_window
  rs_pip :: pipeline
  rs_aud :: audio_renderer
  g_audio :: bool
  vr_called :: bool
  ar_called :: bool
  place :: place
  connected_at :: "32 word"
  lastStats :: "32 word"
  stats_sent :: "(32 word \<times> stream_stats) list"
  reports_sent :: "pad_report list"

definition new_run :: run_state where
  "new_run =
     \<lparr>rs_ses = new_session, rs_win = new_window, rs_pip = start_pipeline new_video, rs_aud = new_audio, g_audio = False,
      vr_called = False, ar_called = False, place = Head, connected_at = 0, lastStats = 0, stats_sent = [], reports_sent = []\<rparr>"

section \<open>The worker\<close>

text \<open>From the construction of the locals to the connection attempt.\<close>

definition open_stage :: "sdl_create \<Rightarrow> start_info \<Rightarrow> run_state \<Rightarrow> run_state" where
  "open_stage sdl i s =
     (case window_create sdl new_window of (werr, w) \<Rightarrow>
        s\<lparr>rs_ses := (if werr = None then window_made i (nativeHandle w) (rs_ses s) else no_window i (rs_ses s)),
          rs_win := (if werr = None \<and> \<not> embedWindow i then window_show w else w),
          rs_pip := start_pipeline new_video, rs_aud := new_audio, g_audio := True, vr_called := False, ar_called := False,
          place := Head\<rparr>)"

definition failed_stage :: "int \<Rightarrow> run_state \<Rightarrow> run_state" where
  "failed_stage rc s = s\<lparr>rs_ses := connect_failed rc (rs_ses s), g_audio := False, place := Head\<rparr>"

definition connected_stage :: "32 word \<Rightarrow> start_info \<Rightarrow> bool \<Rightarrow> run_state \<Rightarrow> run_state" where
  "connected_stage now i haveWindow s =
     s\<lparr>rs_ses := connection_up i haveWindow (rs_ses s), place := Head, connected_at := now, lastStats := now, stats_sent := []\<rparr>"

definition pump_stage ::
  "(pad_flag \<Rightarrow> 32 word) \<Rightarrow> nat \<Rightarrow> (nat \<Rightarrow> pad_state) \<Rightarrow> sdl_event list \<Rightarrow> run_state \<Rightarrow> run_state" where
  "pump_stage flag extra sdl evs s =
     (case pump flag extra sdl evs (rs_win s) of (alive, reports, w) \<Rightarrow>
        let s1 = s\<lparr>rs_win := w, reports_sent := reports_sent s @ reports\<rparr>
        in if alive then s1\<lparr>place := Presenting\<rparr> else s1\<lparr>rs_ses := leave_loop True (rs_ses s), place := Head\<rparr>)"

text \<open>The two halves of \<^verbatim>\<open>renderer.present(window.renderer())\<close>.\<close>

definition take_stage :: "run_state \<Rightarrow> run_state" where
  "take_stage s =
     (if \<not> win_renderer (rs_win s) then s\<lparr>place := Reporting\<rparr>
      else case take_pending (vid (rs_pip s)) of (f, v) \<Rightarrow>
             s\<lparr>rs_pip := (rs_pip s)\<lparr>hand := f, vid := v\<rparr>, place := (if f = None then Reporting else Drawing)\<rparr>)"

definition draw_stage :: "sdl_answers \<Rightarrow> frame \<Rightarrow> run_state \<Rightarrow> run_state" where
  "draw_stage sdl f s = s\<lparr>rs_pip := (rs_pip s)\<lparr>hand := None, vid := draw sdl f (vid (rs_pip s))\<rparr>, place := Reporting\<rparr>"

text \<open>The ticks are unsigned 32-bit numbers and so is their difference.\<close>

definition report_stage :: "32 word \<Rightarrow> 32 word \<Rightarrow> 32 word \<Rightarrow> run_state \<Rightarrow> run_state" where
  "report_stage now rtt rttVar s =
     (if 1000 \<le> now - lastStats s
      then s\<lparr>lastStats := now, place := Head,
             stats_sent := stats_sent s @ [(now, stats_sample (video_stats_of (vid (rs_pip s))) rtt rttVar)]\<rparr>
      else s\<lparr>place := Head\<rparr>)"

definition release_video :: "run_state \<Rightarrow> run_state" where
  "release_video s = s\<lparr>rs_pip := (rs_pip s)\<lparr>vid := video_cleanup (vid (rs_pip s))\<rparr>, place := VideoGone\<rparr>"

definition release_audio :: "run_state \<Rightarrow> run_state" where
  "release_audio s = s\<lparr>g_audio := False, rs_aud := audio_cleanup (rs_aud s), place := AudioGone\<rparr>"

definition release_window :: "run_state \<Rightarrow> run_state" where
  "release_window s = s\<lparr>rs_win := window_destroy (rs_win s), place := Head\<rparr>"

inductive run_worker :: "(pad_flag \<Rightarrow> 32 word) \<Rightarrow> nat \<Rightarrow> run_state \<Rightarrow> run_state \<Rightarrow> bool"
  for flag :: "pad_flag \<Rightarrow> 32 word" and extra :: nat where
  Open: "ses_worker (rs_ses s) = Setup i \<Longrightarrow> run_worker flag extra s (open_stage sdl i s)"
| StartFails: "ses_worker (rs_ses s) = Connecting i v \<Longrightarrow> rc \<noteq> 0 \<Longrightarrow> decoding (rs_pip s) = None \<Longrightarrow>
     run_worker flag extra s (failed_stage rc s)"
| StartReturns: "ses_worker (rs_ses s) = Connecting i v \<Longrightarrow> run_worker flag extra s (connected_stage now i v s)"
| EnterRound: "ses_worker (rs_ses s) = Looping i v \<Longrightarrow> place s = Head \<Longrightarrow> \<not> stop_requested (rs_ses s) \<Longrightarrow>
     run_worker flag extra s (s\<lparr>place := (if v then Pumping else Reporting)\<rparr>)"
| SeeStop: "ses_worker (rs_ses s) = Looping i v \<Longrightarrow> place s = Head \<Longrightarrow> stop_requested (rs_ses s) \<Longrightarrow>
     run_worker flag extra s (s\<lparr>rs_ses := leave_loop False (rs_ses s)\<rparr>)"
| Pump: "ses_worker (rs_ses s) = Looping i True \<Longrightarrow> place s = Pumping \<Longrightarrow>
     run_worker flag extra s (pump_stage flag extra sdl evs s)"
| Take: "ses_worker (rs_ses s) = Looping i True \<Longrightarrow> place s = Presenting \<Longrightarrow> run_worker flag extra s (take_stage s)"
| Paint: "ses_worker (rs_ses s) = Looping i True \<Longrightarrow> place s = Drawing \<Longrightarrow> hand (rs_pip s) = Some f \<Longrightarrow>
     run_worker flag extra s (draw_stage sdl f s)"
| Report: "ses_worker (rs_ses s) = Looping i v \<Longrightarrow> place s = Reporting \<Longrightarrow>
     run_worker flag extra s (report_stage now rtt rttVar s)"
| StopReturns: "ses_worker (rs_ses s) = Leaving uc \<Longrightarrow> decoding (rs_pip s) = None \<Longrightarrow>
     run_worker flag extra s (s\<lparr>rs_ses := connection_stopped uc (rs_ses s)\<rparr>)"
| CleanVideo: "ses_worker (rs_ses s) = Stopped uc \<Longrightarrow> place s = Head \<Longrightarrow> run_worker flag extra s (release_video s)"
| CleanAudio: "ses_worker (rs_ses s) = Stopped uc \<Longrightarrow> place s = VideoGone \<Longrightarrow> run_worker flag extra s (release_audio s)"
| CleanWindow: "ses_worker (rs_ses s) = Stopped uc \<Longrightarrow> place s = AudioGone \<Longrightarrow>
     run_worker flag extra s ((release_window s)\<lparr>rs_ses := torn_down uc (rs_ses s)\<rparr>)"
| LastEvent: "ses_worker (rs_ses s) = Emitting e \<Longrightarrow> run_worker flag extra s (s\<lparr>rs_ses := emit_last e (rs_ses s)\<rparr>)"
| DropAudio: "ses_worker (rs_ses s) = Returning \<Longrightarrow> place s = Head \<Longrightarrow> run_worker flag extra s (release_audio s)"
| DropVideo: "ses_worker (rs_ses s) = Returning \<Longrightarrow> place s = AudioGone \<Longrightarrow> run_worker flag extra s (release_video s)"
| DropWindow: "ses_worker (rs_ses s) = Returning \<Longrightarrow> place s = VideoGone \<Longrightarrow>
     run_worker flag extra s ((release_window s)\<lparr>rs_ses := returned (rs_ses s)\<rparr>)"

lemmas stage_defs = open_stage_def failed_stage_def connected_stage_def pump_stage_def take_stage_def draw_stage_def report_stage_def
  release_video_def release_audio_def release_window_def

section \<open>The library and the whole\<close>

text \<open>The callbacks reach the renderers through the globals.\<close>

definition call_vr_setup :: "ffmpeg_answers \<Rightarrow> int \<Rightarrow> int \<Rightarrow> run_state \<Rightarrow> run_state" where
  "call_vr_setup a width height s =
     (case vr_setup a width height (if g_video (rs_ses s) then Some (vid (rs_pip s)) else None) of
        (_, Some v) \<Rightarrow> s\<lparr>rs_pip := (rs_pip s)\<lparr>vid := v\<rparr>, vr_called := True\<rparr>
      | (_, None) \<Rightarrow> s\<lparr>vr_called := True\<rparr>)"

definition call_ar_play :: "(bytes \<Rightarrow> int \<Rightarrow> int) \<Rightarrow> (int \<Rightarrow> bool) \<Rightarrow> bytes \<Rightarrow> run_state \<Rightarrow> run_state" where
  "call_ar_play opus queue data s =
     (case ar_play opus queue data (if g_audio s then Some (rs_aud s) else None) of
        Some a \<Rightarrow> s\<lparr>rs_aud := a\<rparr>
      | None \<Rightarrow> s)"

inductive run_library :: "int \<Rightarrow> run_state \<Rightarrow> run_state \<Rightarrow> bool" for graceful :: int where
  Listener: "listening (rs_ses s) \<Longrightarrow> run_library graceful s (s\<lparr>rs_ses := listener graceful e (rs_ses s)\<rparr>)"
| VideoSetup: "ses_worker (rs_ses s) = Connecting i v \<Longrightarrow> \<not> vr_called s \<Longrightarrow> run_library graceful s (call_vr_setup a width height s)"
| VideoDecode: "listening (rs_ses s) \<Longrightarrow> vr_called s \<Longrightarrow> g_video (rs_ses s) \<Longrightarrow> codecCtx (vid (rs_pip s)) \<Longrightarrow>
     decode_step (rs_pip s) p \<Longrightarrow> run_library graceful s (s\<lparr>rs_pip := p\<rparr>)"
| AudioInit: "ses_worker (rs_ses s) = Connecting i v \<Longrightarrow> \<not> ar_called s \<Longrightarrow>
     ar_init ans config (if g_audio s then Some (rs_aud s) else None) = Some (rc, a) \<Longrightarrow>
     run_library graceful s (s\<lparr>rs_aud := (case a of None \<Rightarrow> rs_aud s | Some x \<Rightarrow> x), ar_called := True\<rparr>)"
| AudioPlay: "listening (rs_ses s) \<Longrightarrow> ar_called s \<Longrightarrow> run_library graceful s (call_ar_play opus queue data s)"

inductive run_step :: "int \<Rightarrow> (pad_flag \<Rightarrow> 32 word) \<Rightarrow> nat \<Rightarrow> run_state \<Rightarrow> run_state \<Rightarrow> bool"
  for graceful :: int and flag :: "pad_flag \<Rightarrow> 32 word" and extra :: nat where
  CallStart: "\<not> crashed (rs_ses s) \<Longrightarrow> \<not> joining (rs_ses s) \<Longrightarrow>
     run_step graceful flag extra s (s\<lparr>rs_ses := snd (session_start info (rs_ses s))\<rparr>)"
| CallStop: "\<not> crashed (rs_ses s) \<Longrightarrow> \<not> joining (rs_ses s) \<Longrightarrow>
     run_step graceful flag extra s (s\<lparr>rs_ses := stop_begin (rs_ses s)\<rparr>)"
| Joined: "\<not> crashed (rs_ses s) \<Longrightarrow> joining (rs_ses s) \<Longrightarrow> ses_worker (rs_ses s) = Finished \<Longrightarrow>
     run_step graceful flag extra s (s\<lparr>rs_ses := stop_end (rs_ses s)\<rparr>)"
| OfWorker: "\<not> crashed (rs_ses s) \<Longrightarrow> run_worker flag extra s s' \<Longrightarrow> run_step graceful flag extra s s'"
| OfLibrary: "\<not> crashed (rs_ses s) \<Longrightarrow> run_library graceful s s' \<Longrightarrow> run_step graceful flag extra s s'"

inductive_cases run_worker_cases: "run_worker flag extra s s'"
inductive_cases run_library_cases: "run_library graceful s s'"
inductive_cases run_step_cases: "run_step graceful flag extra s s'"

section \<open>A step of the run is a step of the session\<close>

lemma run_worker_session:
  assumes "run_worker flag extra s s'" shows "worker_step (rs_ses s) (rs_ses s') \<or> rs_ses s' = rs_ses s"
  using assms
  by (cases rule: run_worker.cases)
    (auto simp: stage_defs Let_def intro: worker_step.intros split: prod.splits if_splits)

lemma run_library_session:
  assumes "run_library graceful s s'"
  shows "(listening (rs_ses s) \<and> (\<exists>e. rs_ses s' = listener graceful e (rs_ses s))) \<or> rs_ses s' = rs_ses s"
  using assms
  by (cases rule: run_library.cases) (auto simp: call_vr_setup_def call_ar_play_def split: prod.splits option.splits)

lemma run_step_session:
  assumes "run_step graceful flag extra s s'" shows "(session_step graceful)\<^sup>*\<^sup>* (rs_ses s) (rs_ses s')"
  using assms
proof (cases rule: run_step.cases)
  case OfWorker
  then show ?thesis using run_worker_session [OF OfWorker(2)] session_step.Worker [OF OfWorker(1)] by auto
next
  case OfLibrary
  then show ?thesis using run_library_session [OF OfLibrary(2)] session_step.Callback [OF OfLibrary(1)] by auto
qed (auto intro: session_step.intros)

lemma run_steps_session:
  "(run_step graceful flag extra)\<^sup>*\<^sup>* s s' \<Longrightarrow> (session_step graceful)\<^sup>*\<^sup>* (rs_ses s) (rs_ses s')"
  by (induction rule: rtranclp_induct) (auto intro: rtranclp_trans run_step_session)

section \<open>What each part of the worker keeps of the objects\<close>

definition objects_inv :: "run_state \<Rightarrow> bool" where
  "objects_inv s \<longleftrightarrow> window_inv (rs_win s) \<and> audio_inv (rs_aud s) \<and> renderer_inv (rs_pip s)"

lemma new_objects: "window_inv new_window" "audio_inv new_audio" "renderer_inv (start_pipeline new_video)"
  by (simp_all add: window_inv_def new_window_def occupied_def audio_inv_def new_audio_def renderer_inv_def pipe_inv_def start_pipeline_def new_video_def)

lemma window_show_inv: "window_inv (window_show w) = window_inv w" "win_renderer (window_show w) = win_renderer w"
  by (simp_all add: window_show_def window_inv_def)

lemma events_renderer: "length (pads w) = 4 \<Longrightarrow> win_renderer (fold handle_event evs w) = win_renderer w"
proof (induction evs arbitrary: w)
  case (Cons ev evs)
  have "length (pads (handle_event ev w)) = 4 \<and> win_renderer (handle_event ev w) = win_renderer w"
    by (cases ev) (use Cons.prems in \<open>auto simp: remove_pads_effect\<close>)
  then show ?case using Cons.IH [of "handle_event ev w"] by simp
qed simp

lemma pump_window:
  assumes "pump flag extra sdl evs w = (alive, reports, w')" "window_inv w"
  shows "window_inv w' \<and> win_renderer w' = win_renderer w"
  using assms win.steps [OF fold_by_calls assms(2), of evs] events_renderer [of w evs] by (auto simp: pump_def Let_def window_inv_def)

lemma audio_init_inv: "audio_init ans config new_audio = Some (rc, a) \<Longrightarrow> audio_inv a"
  by (auto simp: audio_init_def new_audio_def audio_inv_def Let_def split: option.splits if_splits)

lemma audio_cleanup_inv: "audio_inv a \<Longrightarrow> audio_inv (audio_cleanup a)"
  by (simp add: audio_cleanup_def audio_inv_def Let_def)

lemma window_destroy_inv: "window_inv w \<Longrightarrow> window_inv (window_destroy w)"
  using destroy_all [of w] by (simp add: window_inv_def occupied_def Let_def)

lemma video_cleanup_inv:
  assumes "renderer_inv p" "decoding p = None" "hand p = None"
  shows "renderer_inv (p\<lparr>vid := video_cleanup (vid p)\<rparr>)"
proof -
  let ?v = "vid p" and ?c = "video_cleanup (vid p)"
  have keep: "screen ?c = screen ?v" "decoded_log ?c = decoded_log ?v" "framesDecoded ?c = framesDecoded ?v" "framesPresented ?c = framesPresented ?v"
    by (simp_all add: video_cleanup_def free_context_def unref_device_def Let_def)
  have inv: "pipe_inv p" using assms(1) by (simp add: renderer_inv_def)
  have "subseq (screen ?v) (screen ?v @ opt_list (pendingFrame ?v))" by (rule list_emb_prefix) simp
  also have "subseq (screen ?v @ opt_list (pendingFrame ?v)) (decoded_log ?v)" using inv assms(3) by (simp add: pipe_inv_def)
  finally show ?thesis
    using inv video_cleanup_all [of p] assms keep by (simp add: renderer_inv_def pipe_inv_def Let_def)
qed

lemma video_setup_texture: "texture (snd (video_setup a width height v)) = texture v"
  by (simp add: video_setup_def setup_hw_def setup_sw_def alloc_context_def free_context_def unref_device_def Let_def split: prod.splits if_splits)

lemma video_setup_inv:
  assumes "video_setup a width height new_video = (rc, v)"
  shows "renderer_inv (start_pipeline v) \<and> \<not> texture v"
  using video_setup_new [OF assms] video_setup_texture [of a width height new_video] assms
  by (auto simp: renderer_inv_def fresh_frames_def start_pipeline_def contexts_def new_video_def split: if_splits)

lemma decode_keeps: "decode_step p q \<Longrightarrow> texture (vid q) = texture (vid p) \<and> hand q = hand p"
proof (induction rule: decode_step.induct)
  case (ReceiveFrame p f c rs)
  then show ?case by (auto simp: hand_over_def deliver_def Let_def split: option.splits)
qed (auto simp: count_decoded_def)

lemma decode_renderer: "decode_step p q \<Longrightarrow> renderer_inv p \<Longrightarrow> renderer_inv q"
  using renderer_inv_step [of p q] by (simp add: pipe_step_def)

lemma take_renderer:
  assumes "renderer_inv p" "hand p = None"
  shows "renderer_inv (p\<lparr>hand := pendingFrame (vid p), vid := (vid p)\<lparr>pendingFrame := None\<rparr>\<rparr>)"
  using renderer_inv_step [of p] assms TakePending [of p] by (simp add: pipe_step_def take_pending_def)

lemma draw_renderer: "renderer_inv p \<Longrightarrow> hand p = Some f \<Longrightarrow> renderer_inv (p\<lparr>hand := None, vid := draw sdl f (vid p)\<rparr>)"
  using renderer_inv_step [of p] Draw [of p f sdl] by (simp add: pipe_step_def)

section \<open>The invariant\<close>

text \<open>The set-up calls find fresh objects, and a decode under way finds its target and its decoder.\<close>

definition fresh_inv :: "run_state \<Rightarrow> bool" where
  "fresh_inv s \<longleftrightarrow>
     (\<forall>i v. ses_worker (rs_ses s) = Connecting i v \<longrightarrow>
        (\<not> vr_called s \<longrightarrow> rs_pip s = start_pipeline new_video) \<and> (\<not> ar_called s \<longrightarrow> rs_aud s = new_audio))
     \<and> (decoding (rs_pip s) \<noteq> None \<longrightarrow> listening (rs_ses s) \<and> g_video (rs_ses s) \<and> vr_called s \<and> codecCtx (vid (rs_pip s)))
     \<and> (g_video (rs_ses s) \<longrightarrow> listening (rs_ses s))
     \<and> (listening (rs_ses s) \<longrightarrow> g_audio s)"

text \<open>Which places belong to which stage.\<close>

fun place_ok :: "worker \<Rightarrow> place \<Rightarrow> bool" where
  "place_ok (Looping i v) pl \<longleftrightarrow> pl = Head \<or> pl = Reporting \<or> (v \<and> (pl = Pumping \<or> pl = Presenting \<or> pl = Drawing))"
| "place_ok (Stopped uc) pl \<longleftrightarrow> pl = Head \<or> pl = VideoGone \<or> pl = AudioGone"
| "place_ok Returning pl \<longleftrightarrow> pl = Head \<or> pl = AudioGone \<or> pl = VideoGone"
| "place_ok w pl \<longleftrightarrow> pl = Head"

definition place_inv :: "run_state \<Rightarrow> bool" where
  "place_inv s \<longleftrightarrow>
     place_ok (ses_worker (rs_ses s)) (place s)
     \<and> (hand (rs_pip s) \<noteq> None \<longleftrightarrow> place s = Drawing)"

text \<open>The session's flag stands for the window's renderer, whoever draws has one, and no texture outlives it.\<close>

fun has_window :: "worker \<Rightarrow> bool" where
  "has_window (Connecting i v) = v"
| "has_window (Looping i v) = v"
| "has_window w = False"

definition texture_inv :: "run_state \<Rightarrow> bool" where
  "texture_inv s \<longleftrightarrow>
     window_up (rs_ses s) = win_renderer (rs_win s)
     \<and> (has_window (ses_worker (rs_ses s)) \<or> g_video (rs_ses s) \<or> texture (vid (rs_pip s)) \<longrightarrow> win_renderer (rs_win s))
     \<and> (place s = VideoGone \<or> (\<exists>uc. ses_worker (rs_ses s) = Stopped uc) \<and> place s = AudioGone \<longrightarrow> \<not> texture (vid (rs_pip s)))"

definition none_held :: "int list \<Rightarrow> bool" where
  "none_held xs \<longleftrightarrow> set xs \<subseteq> {0}"

definition released :: "run_state \<Rightarrow> bool" where
  "released s \<longleftrightarrow> none_held (video_held (vid (rs_pip s))) \<and> none_held (window_held (rs_win s)) \<and> none_held (audio_held (rs_aud s))"

text \<open>Nothing is held outside a run, and the destructors release one object after the other.\<close>

definition release_inv :: "run_state \<Rightarrow> bool" where
  "release_inv s \<longleftrightarrow>
     (case ses_worker (rs_ses s) of
        NoThread \<Rightarrow> released s
      | Setup i \<Rightarrow> released s
      | Finished \<Rightarrow> released s
      | Returning \<Rightarrow> (place s \<noteq> Head \<longrightarrow> none_held (audio_held (rs_aud s))) \<and> (place s = VideoGone \<longrightarrow> none_held (video_held (vid (rs_pip s))))
      | _ \<Rightarrow> True)"

definition run_inv :: "run_state \<Rightarrow> bool" where
  "run_inv s \<longleftrightarrow> objects_inv s \<and> fresh_inv s \<and> place_inv s \<and> texture_inv s \<and> release_inv s"

lemma cleanup_none_held:
  "window_inv w \<Longrightarrow> none_held (window_held (window_destroy w))"
  "audio_inv a \<Longrightarrow> none_held (audio_held (audio_cleanup a))"
  "renderer_inv p \<Longrightarrow> decoding p = None \<Longrightarrow> hand p = None \<Longrightarrow> none_held (video_held (video_cleanup (vid p)))"
  using win.released [of w] aud.released [of a] renderer.released [of p] by (simp_all add: none_held_def threads_done_def)

lemma destroy_renderer: "window_inv w \<Longrightarrow> \<not> win_renderer (window_destroy w)"
  using destroy_all [of w] by (simp add: Let_def)

lemma cleanup_texture: "renderer_inv p \<Longrightarrow> decoding p = None \<Longrightarrow> hand p = None \<Longrightarrow> \<not> texture (video_cleanup (vid p))"
  using video_cleanup_all [of p] by (simp add: renderer_inv_def Let_def)

text \<open>The worker's steps, one at a time.\<close>

lemmas run_inv_defs = run_inv_def objects_inv_def fresh_inv_def place_inv_def texture_inv_def release_inv_def

lemma open_keeps:
  assumes "run_inv s" "ses_worker (rs_ses s) = Setup i" shows "run_inv (open_stage sdl i s)"
proof -
  obtain e w where w: "window_create sdl new_window = (e, w)" by force
  note c = create_inv [OF w]
  have t: "\<not> texture new_video" "decoding (start_pipeline new_video) = None" "hand (start_pipeline new_video) = None" "vid (start_pipeline new_video) = new_video"
    by (simp_all add: new_video_def start_pipeline_def)
  have old: "\<not> g_video (rs_ses s)" "\<not> win_renderer (rs_win s)" "\<not> window_up (rs_ses s)"
    using assms by (auto simp: run_inv_defs listening_def released_def none_held_def window_held_def window_inv_def)
  have "objects_inv (open_stage sdl i s)" using c new_objects by (simp add: objects_inv_def open_stage_def w window_show_inv)
  moreover have "fresh_inv (open_stage sdl i s)" using t old by (simp add: fresh_inv_def open_stage_def w worker_ops listening_def)
  moreover have "place_inv (open_stage sdl i s)" using t by (simp add: place_inv_def open_stage_def w worker_ops)
  moreover have "texture_inv (open_stage sdl i s)" using t c old by (simp add: texture_inv_def open_stage_def w worker_ops window_show_inv)
  moreover have "release_inv (open_stage sdl i s)" by (simp add: release_inv_def open_stage_def w worker_ops)
  ultimately show ?thesis by (simp add: run_inv_def)
qed

lemma connect_keeps:
  assumes "run_inv s" "ses_worker (rs_ses s) = Connecting i v"
  shows "run_inv (connected_stage now i v s)" "decoding (rs_pip s) = None \<Longrightarrow> run_inv (failed_stage rc s)"
  using assms by (auto simp: run_inv_defs stage_defs worker_ops listening_def)

lemma round_keeps:
  assumes "run_inv s" "ses_worker (rs_ses s) = Looping i v" "place s = Head"
  shows "v \<Longrightarrow> run_inv (s\<lparr>place := Pumping\<rparr>)" "\<not> v \<Longrightarrow> run_inv (s\<lparr>place := Reporting\<rparr>)" "run_inv (s\<lparr>rs_ses := leave_loop False (rs_ses s)\<rparr>)"
  using assms by (auto simp: run_inv_defs worker_ops listening_def)

lemma pump_keeps:
  assumes "run_inv s" "ses_worker (rs_ses s) = Looping i True" "place s = Pumping"
  shows "run_inv (pump_stage flag extra sdl evs s)"
proof -
  obtain alive reports w where p: "pump flag extra sdl evs (rs_win s) = (alive, reports, w)" by (metis prod_cases3)
  have "window_inv w \<and> win_renderer w = win_renderer (rs_win s)"
    using pump_window [OF p] assms(1) by (simp add: run_inv_def objects_inv_def)
  then show ?thesis using assms p by (auto simp: run_inv_defs pump_stage_def worker_ops listening_def Let_def)
qed

lemma take_keeps:
  assumes "run_inv s" "ses_worker (rs_ses s) = Looping i True" "place s = Presenting"
  shows "run_inv (take_stage s)"
proof -
  have "hand (rs_pip s) = None" "renderer_inv (rs_pip s)" using assms by (auto simp: run_inv_defs)
  then show ?thesis using assms take_renderer [of "rs_pip s"] by (auto simp: run_inv_defs take_stage_def take_pending_def listening_def)
qed

lemma paint_keeps:
  assumes "run_inv s" "ses_worker (rs_ses s) = Looping i True" "place s = Drawing" "hand (rs_pip s) = Some f"
  shows "run_inv (draw_stage sdl f s)"
  using assms draw_renderer [of "rs_pip s" f sdl] contexts_draw [of sdl f "vid (rs_pip s)"] by (auto simp: run_inv_defs draw_stage_def listening_def contexts_def)

lemma report_keeps:
  assumes "run_inv s" "ses_worker (rs_ses s) = Looping i v" "place s = Reporting"
  shows "run_inv (report_stage now rtt rttVar s)"
  using assms by (auto simp: run_inv_defs report_stage_def listening_def)

lemma leaving_keeps:
  assumes "run_inv s" "ses_worker (rs_ses s) = Leaving uc" "decoding (rs_pip s) = None"
  shows "run_inv (s\<lparr>rs_ses := connection_stopped uc (rs_ses s)\<rparr>)"
  using assms by (auto simp: run_inv_defs worker_ops listening_def)

lemma quiet_stages:
  assumes "run_inv s" "\<not> listening (rs_ses s)" shows "decoding (rs_pip s) = None"
  using assms by (auto simp: run_inv_defs)

lemma quiet_hand:
  assumes "run_inv s" "place s \<noteq> Drawing" shows "hand (rs_pip s) = None"
  using assms by (auto simp: run_inv_defs)

lemma clean_video_keeps:
  assumes "run_inv s"
  shows "ses_worker (rs_ses s) = Stopped uc \<Longrightarrow> place s = Head \<Longrightarrow> run_inv (release_video s)"
    "ses_worker (rs_ses s) = Returning \<Longrightarrow> place s = AudioGone \<Longrightarrow> run_inv (release_video s)"
proof -
  have r: "renderer_inv (rs_pip s)" using assms by (simp add: run_inv_defs)
  have q: "decoding (rs_pip s) = None" if "\<not> listening (rs_ses s)" using quiet_stages [OF assms that] .
  note h = quiet_hand [OF assms]
  note c = video_cleanup_inv [OF r] cleanup_texture [OF r] cleanup_none_held(3) [OF r]
  show "run_inv (release_video s)" if "ses_worker (rs_ses s) = Stopped uc" "place s = Head"
    using that assms c q h by (simp add: run_inv_defs release_video_def listening_def)
  show "run_inv (release_video s)" if "ses_worker (rs_ses s) = Returning" "place s = AudioGone"
    using that assms c q h by (simp add: run_inv_defs release_video_def listening_def)
qed

lemma clean_audio_keeps:
  assumes "run_inv s"
  shows "ses_worker (rs_ses s) = Stopped uc \<Longrightarrow> place s = VideoGone \<Longrightarrow> run_inv (release_audio s)"
    "ses_worker (rs_ses s) = Returning \<Longrightarrow> place s = Head \<Longrightarrow> run_inv (release_audio s)"
proof -
  have a: "audio_inv (rs_aud s)" using assms by (simp add: run_inv_defs)
  note c = audio_cleanup_inv [OF a] cleanup_none_held(2) [OF a]
  show "run_inv (release_audio s)" if "ses_worker (rs_ses s) = Stopped uc" "place s = VideoGone"
    using that assms c by (simp add: run_inv_defs release_audio_def listening_def)
  show "run_inv (release_audio s)" if "ses_worker (rs_ses s) = Returning" "place s = Head"
    using that assms c by (simp add: run_inv_defs release_audio_def listening_def)
qed

lemma clean_window_keeps:
  assumes "run_inv s"
  shows "ses_worker (rs_ses s) = Stopped uc \<Longrightarrow> place s = AudioGone \<Longrightarrow> run_inv ((release_window s)\<lparr>rs_ses := torn_down uc (rs_ses s)\<rparr>)"
    "ses_worker (rs_ses s) = Returning \<Longrightarrow> place s = VideoGone \<Longrightarrow> run_inv ((release_window s)\<lparr>rs_ses := returned (rs_ses s)\<rparr>)"
  using assms cleanup_none_held(1) [of "rs_win s"] window_destroy_inv [of "rs_win s"] destroy_renderer [of "rs_win s"]
  by (auto simp: run_inv_defs release_window_def listening_def worker_ops released_def)

lemma last_event_keeps:
  assumes "run_inv s" "ses_worker (rs_ses s) = Emitting e" shows "run_inv (s\<lparr>rs_ses := emit_last e (rs_ses s)\<rparr>)"
  using assms by (cases e) (auto simp: run_inv_defs worker_ops listening_def emit_event_frame)

lemmas worker_keeps = open_keeps connect_keeps round_keeps pump_keeps take_keeps paint_keeps report_keeps leaving_keeps
  clean_video_keeps clean_audio_keeps clean_window_keeps last_event_keeps

lemma run_inv_worker: "run_worker flag extra s s' \<Longrightarrow> run_inv s \<Longrightarrow> run_inv s'"
  by (erule run_worker_cases) (auto intro: worker_keeps)

text \<open>The library's.\<close>

lemma listener_frame:
  "ses_worker (listener graceful e t) = ses_worker t" "g_video (listener graceful e t) = g_video t" "listening (listener graceful e t) = listening t"
  "window_up (listener graceful e t) = window_up t" "stop_requested (listener graceful e t) = stop_requested t"
  by (cases e; simp add: emit_event_frame listening_def)+

lemma setup_keeps:
  assumes "run_inv s" "ses_worker (rs_ses s) = Connecting i v" "\<not> vr_called s"
  shows "run_inv (call_vr_setup a width height s)"
proof -
  have p: "rs_pip s = start_pipeline new_video" using assms by (simp add: run_inv_defs)
  obtain rc x where x: "video_setup a width height new_video = (rc, x)" by force
  have y: "start_pipeline new_video\<lparr>vid := x\<rparr> = start_pipeline x" "vid (start_pipeline new_video) = new_video"
    "decoding (start_pipeline x) = None" "hand (start_pipeline x) = None" "vid (start_pipeline x) = x"
    by (simp_all add: start_pipeline_def)
  show ?thesis
    using assms p x y video_setup_inv [OF x] by (auto simp: run_inv_defs call_vr_setup_def vr_setup_def)
qed

lemma decode_keeps_run:
  assumes "run_inv s" "listening (rs_ses s)" "vr_called s" "g_video (rs_ses s)" "codecCtx (vid (rs_pip s))" "decode_step (rs_pip s) p"
  shows "run_inv (s\<lparr>rs_pip := p\<rparr>)"
proof -
  have r: "renderer_inv p" using decode_renderer [OF assms(6)] assms(1) by (simp add: run_inv_defs)
  have "codecCtx (vid p)" using contexts_decode [OF assms(6)] assms(5) by (simp add: contexts_def)
  then show ?thesis
    using assms(1-4) r decode_keeps [OF assms(6)] by (cases "ses_worker (rs_ses s)") (simp_all add: run_inv_defs listening_def)
qed

lemma audio_init_keeps:
  assumes "run_inv s" "ses_worker (rs_ses s) = Connecting i v" "\<not> ar_called s"
    "ar_init ans config (if g_audio s then Some (rs_aud s) else None) = Some (rc, a)"
  shows "run_inv (s\<lparr>rs_aud := (case a of None \<Rightarrow> rs_aud s | Some x \<Rightarrow> x), ar_called := True\<rparr>)"
proof -
  have n: "rs_aud s = new_audio" "g_audio s" using assms(1-3) by (simp_all add: run_inv_defs listening_def)
  then obtain x where x: "audio_init ans config new_audio = Some (rc, x)" "a = Some x" using assms(4) by (auto simp: ar_init_def)
  then show ?thesis using assms(1-3) audio_init_inv [OF x(1)] by (auto simp: run_inv_defs)
qed

lemma play_keeps_run:
  assumes "run_inv s" "listening (rs_ses s)" "ar_called s" shows "run_inv (call_ar_play opus queue data s)"
proof -
  have "g_audio s" using assms by (simp add: run_inv_defs)
  then have p: "call_ar_play opus queue data s = s\<lparr>rs_aud := decode_and_play opus queue data (rs_aud s)\<rparr>"
    by (simp add: call_ar_play_def ar_play_def)
  show ?thesis
    using assms by (cases "ses_worker (rs_ses s)") (simp_all add: p run_inv_defs audio_inv_play listening_def)
qed

lemma listener_keeps: "run_inv s \<Longrightarrow> run_inv (s\<lparr>rs_ses := listener graceful e (rs_ses s)\<rparr>)"
  by (simp add: run_inv_defs released_def listener_frame cong: worker.case_cong)

lemma run_inv_library: "run_library graceful s s' \<Longrightarrow> run_inv s \<Longrightarrow> run_inv s'"
  by (erule run_library_cases) (auto intro: listener_keeps setup_keeps decode_keeps_run audio_init_keeps play_keeps_run)

text \<open>And the calls of the other thread.\<close>

lemma session_start_cases:
  "\<not> crashed t \<Longrightarrow> \<not> crashed (snd (session_start info t)) \<Longrightarrow> snd (session_start info t) = t
     \<or> (ses_worker t = NoThread
        \<and> snd (session_start info t) = t\<lparr>g_sink := True, ses_running := True, stop_requested := False, ses_worker := Setup info\<rparr>)"
  by (auto simp: session_start_def Let_def split: if_splits)

lemma start_keeps:
  assumes "run_inv s" "\<not> crashed (rs_ses s)" "\<not> crashed (snd (session_start info (rs_ses s)))"
  shows "run_inv (s\<lparr>rs_ses := snd (session_start info (rs_ses s))\<rparr>)"
  using session_start_cases [OF assms(2,3)]
proof (elim disjE conjE)
  assume "ses_worker (rs_ses s) = NoThread"
    "snd (session_start info (rs_ses s)) = (rs_ses s)\<lparr>g_sink := True, ses_running := True, stop_requested := False, ses_worker := Setup info\<rparr>"
  then show ?thesis using assms(1) by (simp add: run_inv_defs released_def listening_def)
qed (use assms(1) in simp)

lemma stop_keeps:
  assumes "run_inv s"
  shows "ses_worker (rs_ses s) \<noteq> NoThread \<Longrightarrow> run_inv (s\<lparr>rs_ses := (rs_ses s)\<lparr>stop_requested := True, joining := True\<rparr>\<rparr>)"
    "ses_worker (rs_ses s) = NoThread \<or> ses_worker (rs_ses s) = Finished \<Longrightarrow> run_inv (s\<lparr>rs_ses := stop_end (rs_ses s)\<rparr>)"
    "ses_worker (rs_ses s) = NoThread \<Longrightarrow> run_inv (s\<lparr>rs_ses := stop_end ((rs_ses s)\<lparr>stop_requested := True\<rparr>)\<rparr>)"
  subgoal using assms by (simp add: run_inv_defs released_def listening_def cong: worker.case_cong)
  subgoal using assms by (elim disjE) (simp_all add: run_inv_defs released_def stop_end_def listening_def)
  subgoal using assms by (simp add: run_inv_defs released_def stop_end_def listening_def)
  done

lemma run_inv_step:
  assumes "run_step graceful flag extra s s'" "run_inv s" "\<not> crashed (rs_ses s')" shows "run_inv s'"
  using assms(1)
proof (cases rule: run_step.cases)
  case (CallStop)
  then show ?thesis using stop_keeps [OF assms(2)] by (auto simp: stop_begin_def Let_def)
qed (use assms start_keeps stop_keeps run_inv_worker run_inv_library in auto)

lemma crash_stays: "run_step graceful flag extra s s' \<Longrightarrow> \<not> crashed (rs_ses s)"
  by (auto elim: run_step_cases)

interpretation run: step_invariant "run_step graceful flag extra" "\<lambda>s. crashed (rs_ses s) \<or> run_inv s" for graceful flag extra
  by unfold_locales (use crash_stays run_inv_step in blast)

lemma run_inv_reachable:
  assumes "(run_step graceful flag extra)\<^sup>*\<^sup>* new_run s" "\<not> crashed (rs_ses s)" shows "run_inv s"
proof -
  have "run_inv new_run"
    using new_objects
    by (simp add: run_inv_defs new_run_def new_session_def listening_def released_def none_held_def video_held_def window_held_def audio_held_def
        start_pipeline_def new_video_def new_window_def new_audio_def)
  then show ?thesis using run.steps [OF assms(1)] assms(2) by blast
qed

text \<open>The audio target is set from the first step of the worker until the connection failed or the audio
  renderer is about to be released.\<close>

definition audio_target :: "run_state \<Rightarrow> bool" where
  "audio_target s \<longleftrightarrow> (g_audio s \<longleftrightarrow> listening (rs_ses s) \<or> ((\<exists>uc. ses_worker (rs_ses s) = Stopped uc) \<and> place s \<noteq> AudioGone))"

lemma audio_target_worker:
  assumes "run_worker flag extra s s'" "run_inv s" "audio_target s" shows "audio_target s'"
  using assms(1)
proof (cases rule: run_worker.cases)
  case (StopReturns uc)
  then show ?thesis using assms(2,3) by (auto simp: audio_target_def listening_def worker_ops run_inv_defs)
qed (use assms(3) in \<open>auto simp: audio_target_def listening_def worker_ops stage_defs emit_event_frame Let_def split: prod.splits option.splits\<close>)

lemma audio_target_library:
  assumes "run_library graceful s s'" "audio_target s" shows "audio_target s'"
  using assms(1)
  by (cases rule: run_library.cases)
    (use assms(2) in \<open>auto simp: audio_target_def listener_frame call_vr_setup_def call_ar_play_def split: prod.splits option.splits\<close>)

lemma audio_target_step:
  assumes "run_step graceful flag extra s s'" "run_inv s" "audio_target s" "\<not> crashed (rs_ses s')" shows "audio_target s'"
  using assms(1)
proof (cases rule: run_step.cases)
  case (CallStart info)
  then show ?thesis
    using session_start_cases [of "rs_ses s" info] assms(3,4) by (auto simp: audio_target_def listening_def)
next
  case CallStop
  then show ?thesis using assms(3) by (auto simp: audio_target_def listening_def stop_begin_def stop_end_def Let_def)
next
  case Joined
  then show ?thesis using assms(3) by (auto simp: audio_target_def listening_def stop_end_def)
qed (use assms(2,3) audio_target_worker audio_target_library in blast)+

interpretation targeted: step_invariant "run_step graceful flag extra" "\<lambda>s. crashed (rs_ses s) \<or> run_inv s \<and> audio_target s" for graceful flag extra
  by unfold_locales (use crash_stays run_inv_step audio_target_step in blast)

lemma audio_target_reachable:
  assumes "(run_step graceful flag extra)\<^sup>*\<^sup>* new_run s" "\<not> crashed (rs_ses s)" shows "audio_target s"
proof -
  have "run_inv new_run" using run_inv_reachable [of graceful flag extra new_run] by (simp add: new_run_def new_session_def)
  then show ?thesis using targeted.steps [OF assms(1)] assms(2) by (simp add: audio_target_def new_run_def new_session_def listening_def)
qed

section \<open>Pacing and progress\<close>

fun spaced :: "32 word \<Rightarrow> 32 word list \<Rightarrow> bool" where
  "spaced t [] = True"
| "spaced t (u # us) \<longleftrightarrow> 1000 \<le> u - t \<and> spaced u us"

lemma spaced_snoc: "spaced t (us @ [u]) \<longleftrightarrow> spaced t us \<and> 1000 \<le> u - last (t # us)"
  by (induction us arbitrary: t) auto

definition paced :: "run_state \<Rightarrow> bool" where
  "paced s \<longleftrightarrow> spaced (connected_at s) (map fst (stats_sent s)) \<and> lastStats s = last (connected_at s # map fst (stats_sent s))"

lemma paced_report: "paced s \<Longrightarrow> paced (report_stage now rtt rttVar s)"
  by (auto simp: paced_def report_stage_def spaced_snoc)

lemma paced_worker: "run_worker flag extra s s' \<Longrightarrow> paced s \<Longrightarrow> paced s'"
  by (erule run_worker_cases)
    (simp_all add: paced_report, auto simp: paced_def open_stage_def failed_stage_def connected_stage_def pump_stage_def take_stage_def draw_stage_def
      release_video_def release_audio_def release_window_def Let_def split: prod.splits)

lemma paced_step: "run_step graceful flag extra s s' \<Longrightarrow> paced s \<Longrightarrow> paced s'"
  by (erule run_step_cases)
    (auto simp: paced_worker, auto simp: paced_def call_vr_setup_def call_ar_play_def elim!: run_library_cases split: prod.splits option.splits)

interpretation pace: step_invariant "run_step graceful flag extra" paced for graceful flag extra
  by unfold_locales (rule paced_step)

text \<open>How many steps the worker has left once a stop is requested: a round under way is finished first.\<close>

fun stage_left :: "worker \<Rightarrow> place \<Rightarrow> nat" where
  "stage_left (Setup i) pl = 16"
| "stage_left (Connecting i v) pl = 15"
| "stage_left (Looping i v) pl = (case pl of Pumping \<Rightarrow> 14 | Presenting \<Rightarrow> 13 | Drawing \<Rightarrow> 12 | Reporting \<Rightarrow> 11 | _ \<Rightarrow> 10)"
| "stage_left (Leaving c) pl = 9"
| "stage_left (Stopped c) pl = (case pl of VideoGone \<Rightarrow> 7 | AudioGone \<Rightarrow> 6 | _ \<Rightarrow> 8)"
| "stage_left (Emitting e) pl = 5"
| "stage_left Returning pl = (case pl of AudioGone \<Rightarrow> 3 | VideoGone \<Rightarrow> 2 | _ \<Rightarrow> 4)"
| "stage_left NoThread pl = 0"
| "stage_left Finished pl = 0"

definition run_left :: "run_state \<Rightarrow> nat" where
  "run_left s = stage_left (ses_worker (rs_ses s)) (place s)"

lemma run_left_bound: "run_left s \<le> 16"
  by (cases "ses_worker (rs_ses s)") (simp_all add: run_left_def split: place.splits)

lemma run_left_zero: "run_left s = 0 \<longleftrightarrow> ses_worker (rs_ses s) = NoThread \<or> ses_worker (rs_ses s) = Finished"
  by (cases "ses_worker (rs_ses s)") (simp_all add: run_left_def split: place.splits)

lemma worker_decreases:
  assumes "run_worker flag extra s s'" "stop_requested (rs_ses s)"
  shows "run_left s' < run_left s \<and> stop_requested (rs_ses s')"
  using assms(1)
  by (cases rule: run_worker.cases)
    (use assms(2) in \<open>auto simp: run_left_def stage_defs worker_ops emit_event_frame Let_def split: prod.splits option.splits place.splits\<close>)

lemma library_keeps_left:
  assumes "run_library graceful s s'" shows "run_left s' = run_left s \<and> stop_requested (rs_ses s') = stop_requested (rs_ses s)"
  using assms
  by (cases rule: run_library.cases)
    (auto simp: run_left_def listener_frame call_vr_setup_def call_ar_play_def split: prod.splits option.splits)

lemma decode_enabled:
  assumes "decoding p = Some rs" shows "\<exists>q. decode_step p q"
proof (cases "uncounted p")
  case False
  show ?thesis
  proof (cases rs)
    case Nil
    then show ?thesis using assms False decode_step.SubmitEnd by blast
  next
    case (Cons r rs')
    then show ?thesis using assms False by (cases r) (blast intro: decode_step.intros)+
  qed
qed (blast intro: decode_step.CountFrame)

lemma worker_enabled_run:
  assumes "run_inv s" "stop_requested (rs_ses s)" "run_left s \<noteq> 0" "decoding (rs_pip s) = None"
  shows "\<exists>s'. run_worker flag extra s s'"
proof -
  have pl: "place_ok (ses_worker (rs_ses s)) (place s)" "place s = Drawing \<Longrightarrow> \<exists>f. hand (rs_pip s) = Some f"
    using assms(1) by (auto simp: run_inv_defs)
  show ?thesis
  proof (cases "ses_worker (rs_ses s)")
    case (Looping i v)
    show ?thesis
    proof (cases "place s")
      case Drawing
      then show ?thesis using pl Looping run_worker.Paint [of s i] by fastforce
    qed (use pl Looping assms(2) in \<open>auto intro: run_worker.intros\<close>)
  next
    case (Stopped uc)
    then show ?thesis using pl by (auto intro: run_worker.intros)
  next
    case Returning
    then show ?thesis using pl by (auto intro: run_worker.intros)
  qed (use assms(3,4) run_left_zero in \<open>auto intro: run_worker.intros\<close>)
qed

section \<open>Properties\<close>

text \<open>
  C12. The worker with its window and renderers does what the session machine says: every run of the
  detailed machine is, as far as the session goes, a run of the session.  While the process lives,
  the session's window flag is exactly the state of the window; the video callbacks have a target exactly
  while there is a window and the library may still call, the audio callbacks exactly from the opening until a failed connect, or
  until the audio renderer is about to be released after \<^verbatim>\<open>LiStopConnection\<close>; and the library decodes
  only into a target.
\<close>

theorem run_refines_session:
  assumes "(run_step graceful flag extra)\<^sup>*\<^sup>* new_run s"
  shows "(session_step graceful)\<^sup>*\<^sup>* new_session (rs_ses s)
         \<and> (\<not> crashed (rs_ses s) \<longrightarrow>
              window_up (rs_ses s) = win_renderer (rs_win s)
              \<and> (g_video (rs_ses s) \<longleftrightarrow> listening (rs_ses s) \<and> win_renderer (rs_win s))
              \<and> (decoding (rs_pip s) \<noteq> None \<longrightarrow> listening (rs_ses s) \<and> g_video (rs_ses s))
              \<and> (g_audio s \<longleftrightarrow> listening (rs_ses s) \<or> ((\<exists>uc. ses_worker (rs_ses s) = Stopped uc) \<and> place s \<noteq> AudioGone)))"
proof -
  have ses: "(session_step graceful)\<^sup>*\<^sup>* new_session (rs_ses s)" using run_steps_session [OF assms] by (simp add: new_run_def)
  have "run_inv s \<and> session_inv (rs_ses s) \<and> audio_target s" if "\<not> crashed (rs_ses s)"
    using run_inv_reachable [OF assms that] session_inv_reachable [OF ses] audio_target_reachable [OF assms that] that by blast
  then have "window_up (rs_ses s) = win_renderer (rs_win s)" "g_video (rs_ses s) \<longleftrightarrow> listening (rs_ses s) \<and> window_up (rs_ses s)"
    "decoding (rs_pip s) \<noteq> None \<longrightarrow> listening (rs_ses s) \<and> g_video (rs_ses s)"
    "g_audio s \<longleftrightarrow> listening (rs_ses s) \<or> ((\<exists>uc. ses_worker (rs_ses s) = Stopped uc) \<and> place s \<noteq> AudioGone)"
    if "\<not> crashed (rs_ses s)"
    using that unfolding run_inv_def texture_inv_def fresh_inv_def session_inv_def audio_target_def by blast+
  then show ?thesis using ses by metis
qed

text \<open>
  C11. The worker's objects are safe in every interleaving with the library's threads and the other
  calls: a texture never outlives the renderer it was made with, a decoder in use is not freed, each
  count of live resources agrees with the object that holds it (so nothing leaks and nothing is freed
  twice), and once the worker has returned nothing is held, whichever way the run ended.
\<close>

theorem run_owns_objects:
  assumes "(run_step graceful flag extra)\<^sup>*\<^sup>* new_run s" "\<not> crashed (rs_ses s)"
  shows "let v = vid (rs_pip s); w = rs_win s; a = rs_aud s in
           (texture v \<longrightarrow> win_renderer w) \<and> (decoding (rs_pip s) \<noteq> None \<longrightarrow> codecCtx v)
           \<and> ctx_live v = of_bool (codecCtx v) \<and> dev_live v = of_bool (hwDeviceCtx v) \<and> tex_live v = of_bool (texture v)
           \<and> frame_live v = of_bool (pendingFrame v \<noteq> None) + of_bool (hand (rs_pip s) \<noteq> None) + of_bool (decoding (rs_pip s) \<noteq> None)
           \<and> sdl_refs w = of_bool (win_sdlInited w) \<and> window_live w = of_bool (win_window w) \<and> renderer_live w = of_bool (win_renderer w)
           \<and> decoders_live a = of_bool (decoder a) \<and> devices_live a = of_bool (audioDevice a \<noteq> 0) \<and> audio_refs a = of_bool (aud_sdlInited a)
           \<and> (ses_worker (rs_ses s) = NoThread \<or> ses_worker (rs_ses s) = Finished \<longrightarrow>
                set (video_held v @ window_held w @ audio_held a) \<subseteq> {0})"
proof -
  note inv = run_inv_reachable [OF assms]
  have "window_inv (rs_win s)" "audio_inv (rs_aud s)" "renderer_inv (rs_pip s)" using inv by (simp_all add: run_inv_def objects_inv_def)
  moreover have "texture (vid (rs_pip s)) \<longrightarrow> win_renderer (rs_win s)" "decoding (rs_pip s) \<noteq> None \<longrightarrow> codecCtx (vid (rs_pip s))"
    using inv by (simp_all add: run_inv_def texture_inv_def fresh_inv_def)
  moreover have "released s" if "ses_worker (rs_ses s) = NoThread \<or> ses_worker (rs_ses s) = Finished"
    using inv that by (auto simp: run_inv_def release_inv_def)
  ultimately show ?thesis
    unfolding Let_def by (simp add: renderer_inv_def pipe_inv_def window_inv_def audio_inv_def released_def none_held_def)
qed

text \<open>
  C28. Statistics are paced: in every run the times of the statistics sent on a connection, taken modulo
  \<open>2 ^ 32\<close> as the tick counter is, are at least a second apart, the first at least a second after
  the connection came up.
\<close>

theorem stats_paced:
  assumes "(run_step graceful flag extra)\<^sup>*\<^sup>* new_run s"
  shows "spaced (connected_at s) (map fst (stats_sent s))"
  using pace.steps [OF assms] by (simp add: paced_def new_run_def)

text \<open>
  C13. A stop gets through the whole worker: once it is requested at most sixteen steps of the worker are
  left, each of its steps uses one up and no step of the library adds any, and until it has returned
  it has a next step, or the library is still decoding and has one.
\<close>

theorem run_stop_completes:
  assumes "(run_step graceful flag extra)\<^sup>*\<^sup>* new_run s" "\<not> crashed (rs_ses s)" "stop_requested (rs_ses s)"
  shows "run_left s \<le> 16
         \<and> (\<forall>s'. run_worker flag extra s s' \<longrightarrow> run_left s' < run_left s \<and> stop_requested (rs_ses s'))
         \<and> (\<forall>s'. run_library graceful s s' \<longrightarrow> run_left s' = run_left s \<and> stop_requested (rs_ses s'))
         \<and> (run_left s = 0 \<longleftrightarrow> ses_worker (rs_ses s) = NoThread \<or> ses_worker (rs_ses s) = Finished)
         \<and> (run_left s \<noteq> 0 \<longrightarrow> (\<exists>s'. run_worker flag extra s s') \<or> (decoding (rs_pip s) \<noteq> None \<and> (\<exists>s'. run_library graceful s s')))"
proof -
  note inv = run_inv_reachable [OF assms(1,2)]
  have "\<exists>s'. run_library graceful s s'" if "decoding (rs_pip s) \<noteq> None"
    using that inv decode_enabled [of "rs_pip s"] run_library.VideoDecode [of s _ graceful] by (fastforce simp: run_inv_defs)
  then show ?thesis
    using run_left_bound run_left_zero worker_decreases [OF _ assms(3)] library_keeps_left [of graceful s] assms(3)
      worker_enabled_run [OF inv assms(3)] by blast
qed

section \<open>A run\<close>

definition run_request :: start_info where
  "run_request =
     \<lparr>si_host = ''h'', serverAppVersion = [], si_gfeVersion = [], si_rtspSessionUrl = ''rtsp://h'', serverCodecModeSupport = 0,
      si_settings = default_settings, si_riKey = replicate 16 (CHR ''k''), si_riKeyId = 1, embedWindow = False\<rparr>"

definition demo_started :: run_state where
  "demo_started = new_run\<lparr>rs_ses := snd (session_start run_request new_session)\<rparr>"

lemma demo_started_step: "run_step 0 flag extra new_run demo_started"
  using run_step.CallStart [of new_run 0 flag extra run_request] by (simp add: demo_started_def new_run_def new_session_def)

lemma demo_started_session: "rs_ses demo_started
    = new_session\<lparr>g_sink := True, ses_running := True, stop_requested := False, ses_worker := Setup run_request\<rparr>"
  by (simp add: demo_started_def session_start_def run_request_def new_session_def Let_def)

lemma demo_started_facts: "\<not> crashed (rs_ses demo_started)" "\<not> joining (rs_ses demo_started)" "ses_worker (rs_ses demo_started) = Setup run_request"
  by (simp_all only: demo_started_session) (simp_all add: new_session_def)

lemma demo_open_step: "run_step 0 flag extra demo_started (open_stage sdl run_request demo_started)"
  using run_step.OfWorker [OF demo_started_facts(1) run_worker.Open [OF demo_started_facts(3)]] .

lemma demo_open_run: "(run_step 0 flag extra)\<^sup>*\<^sup>* new_run (open_stage sdl run_request demo_started)"
  using demo_started_step demo_open_step by (rule converse_rtranclp_into_rtranclp [OF _ r_into_rtranclp])

lemma demo_open_facts:
  assumes "window_create sdl new_window = (e, w)"
  shows "\<not> crashed (rs_ses (open_stage sdl run_request demo_started))"
    "ses_worker (rs_ses (open_stage sdl run_request demo_started)) = Connecting run_request (e = None)"
    "g_video (rs_ses (open_stage sdl run_request demo_started)) = (e = None)"
    "win_renderer (rs_win (open_stage sdl run_request demo_started)) = win_renderer w"
    "stop_requested (rs_ses (open_stage sdl run_request demo_started)) = False"
  by (simp_all add: open_stage_def assms demo_started_session worker_ops window_show_inv) (simp_all add: new_session_def)

definition demo_sdl :: sdl_create where
  "demo_sdl = \<lparr>init_ok = True, window_ok = True, accelerated_ok = False, software_ok = True, x11_window = Some 7, sdl_error = []\<rparr>"

definition demo_opened :: run_state where
  "demo_opened = open_stage demo_sdl run_request demo_started"

lemma demo_window: "\<exists>w. window_create demo_sdl new_window = (None, w) \<and> win_renderer w"
  by (simp add: window_create_def demo_sdl_def Let_def)

lemma demo_opened_facts: "\<not> crashed (rs_ses demo_opened)" "g_video (rs_ses demo_opened)" "win_renderer (rs_win demo_opened)"
  using demo_window demo_open_facts [of demo_sdl] unfolding demo_opened_def by blast+

theorem run_refines_session_witness:
  "\<exists>s. (run_step 0 (\<lambda>_. 0) 6)\<^sup>*\<^sup>* new_run s \<and> (session_step 0)\<^sup>*\<^sup>* new_session (rs_ses s) \<and> g_video (rs_ses s) \<and> window_up (rs_ses s)"
  using run_refines_session [OF demo_open_run [of _ _ demo_sdl, folded demo_opened_def]] demo_open_run [of _ _ demo_sdl, folded demo_opened_def]
    demo_opened_facts by blast

theorem run_owns_objects_witness:
  "\<exists>s. (run_step 0 (\<lambda>_. 0) 6)\<^sup>*\<^sup>* new_run s \<and> renderer_live (rs_win s) = 1 \<and> tex_live (vid (rs_pip s)) = of_bool (texture (vid (rs_pip s)))"
proof -
  have r: "(run_step 0 (\<lambda>_. 0) 6)\<^sup>*\<^sup>* new_run demo_opened" unfolding demo_opened_def by (rule demo_open_run)
  have "renderer_live (rs_win demo_opened) = of_bool (win_renderer (rs_win demo_opened))"
    "tex_live (vid (rs_pip demo_opened)) = of_bool (texture (vid (rs_pip demo_opened)))"
    using run_owns_objects [OF r demo_opened_facts(1)] unfolding Let_def by blast+
  with r demo_opened_facts(3) show ?thesis by (intro exI [of _ demo_opened]) simp
qed

theorem stats_paced_witness:
  "\<exists>s. (run_step 0 (\<lambda>_. 0) 6)\<^sup>*\<^sup>* new_run s \<and> map fst (stats_sent s) = [1005] \<and> spaced (connected_at s) (map fst (stats_sent s))"
proof -
  define s2 where "s2 = open_stage (demo_sdl\<lparr>init_ok := False\<rparr>) run_request demo_started"
  define s3 where "s3 = connected_stage 5 run_request False s2"
  define s4 where "s4 = s3\<lparr>place := Reporting\<rparr>"
  define s5 where "s5 = report_stage 1005 0 0 s4"
  have f: "\<not> crashed (rs_ses s2)" "ses_worker (rs_ses s2) = Connecting run_request False" "\<not> stop_requested (rs_ses s2)"
    using demo_open_facts [of "demo_sdl\<lparr>init_ok := False\<rparr>"] by (simp_all add: s2_def window_create_def)
  have g: "\<not> crashed (rs_ses s3)" "ses_worker (rs_ses s3) = Looping run_request False" "\<not> stop_requested (rs_ses s3)" "place s3 = Head"
    using f by (simp_all add: s3_def connected_stage_def connection_up_def)
  have "run_step 0 (\<lambda>_. 0) 6 s2 s3"
    using run_step.OfWorker [OF f(1) run_worker.StartReturns [OF f(2)]] by (simp add: s3_def)
  moreover have "run_step 0 (\<lambda>_. 0) 6 s3 s4"
    using run_step.OfWorker [OF g(1) run_worker.EnterRound [OF g(2,4,3)]] by (simp add: s4_def)
  moreover have "run_step 0 (\<lambda>_. 0) 6 s4 s5"
    unfolding s5_def by (rule run_step.OfWorker [OF _ run_worker.Report]) (use g in \<open>simp_all add: s4_def\<close>)
  moreover have "(run_step 0 (\<lambda>_. 0) 6)\<^sup>*\<^sup>* new_run s2" unfolding s2_def by (rule demo_open_run)
  ultimately have r: "(run_step 0 (\<lambda>_. 0) 6)\<^sup>*\<^sup>* new_run s5" by (meson rtranclp.rtrancl_into_rtrancl)
  have "map fst (stats_sent s5) = [1005]"
    by (simp add: s5_def s4_def s3_def report_stage_def connected_stage_def)
  then show ?thesis using r stats_paced [OF r] by (intro exI [of _ s5] conjI)
qed

theorem run_stop_completes_witness:
  "\<exists>s. (run_step 0 (\<lambda>_. 0) 6)\<^sup>*\<^sup>* new_run s \<and> stop_requested (rs_ses s) \<and> run_left s = 16
     \<and> (\<forall>s'. run_worker (\<lambda>_. 0) 6 s s' \<longrightarrow> run_left s' < 16 \<and> stop_requested (rs_ses s'))"
proof -
  define s where "s = demo_started\<lparr>rs_ses := stop_begin (rs_ses demo_started)\<rparr>"
  have "run_step 0 (\<lambda>_. 0) 6 demo_started s" using run_step.CallStop [OF demo_started_facts(1,2)] by (simp add: s_def)
  with demo_started_step have r: "(run_step 0 (\<lambda>_. 0) 6)\<^sup>*\<^sup>* new_run s" by (rule converse_rtranclp_into_rtranclp [OF _ r_into_rtranclp])
  have f: "\<not> crashed (rs_ses s)" "stop_requested (rs_ses s)" "run_left s = 16"
    using demo_started_facts by (simp_all add: s_def stop_begin_def run_left_def Let_def)
  show ?thesis using run_stop_completes [OF r f(1,2)] r f by auto
qed

end
