(* ===== verification/Transport.thy ===== *)
theory Transport
  imports Numbers
begin

text \<open>
  The byte transport under the IPC framing (\<^verbatim>\<open>src/src/ipc/transport.h\<close>,
  \<^verbatim>\<open>src/src/ipc/transport_posix.cpp\<close>, \<^verbatim>\<open>src/src/ipc/transport_win.cpp\<close>).

  \<^verbatim>\<open>ITransport\<close> is a record of operations on a transport state.  The kernel's side of a
  connection is data: the segments the peer has sent, with the interruptions and errors that
  \<^verbatim>\<open>recv\<close> or \<^verbatim>\<open>ReadFile\<close> will report between them (the end of the list is the peer's close), and
  the decisions \<^verbatim>\<open>send\<close> or \<^verbatim>\<open>WriteFile\<close> will take on each call (accept some bytes, be interrupted,
  fail; with no decision left, everything is accepted).  The loops \<^verbatim>\<open>read_exact\<close> and \<^verbatim>\<open>write_all\<close>
  are translated over these, and the locale \<open>transport\<close> states what their clients rely on.
\<close>

section \<open>The interface\<close>

record 't itransport =
  read_exact :: "'t \<Rightarrow> nat \<Rightarrow> 't \<times> bytes option"
  write_all :: "'t \<Rightarrow> bytes \<Rightarrow> 't \<times> bool"
  close_t :: "'t \<Rightarrow> 't"

text \<open>
  The contract: \<open>rx t\<close> are the bytes the peer has sent and the engine has not read, \<open>tx t\<close> those
  handed to the peer, and a transport is \<open>healthy\<close> while no system call on it fails.
\<close>

locale transport =
  fixes ops :: "'t itransport"
    and rx :: "'t \<Rightarrow> bytes"
    and tx :: "'t \<Rightarrow> bytes"
    and healthy :: "'t \<Rightarrow> bool"
  assumes read_Some: "read_exact ops t n = (t', Some bs) \<Longrightarrow> length bs = n \<and> rx t = bs @ rx t'"
    and read_tx: "read_exact ops t n = (t', r) \<Longrightarrow> tx t' = tx t"
    and read_healthy: "healthy t \<Longrightarrow> n \<le> length (rx t) \<Longrightarrow>
          \<exists>t'. read_exact ops t n = (t', Some (take n (rx t))) \<and> healthy t'"
    and read_closed: "healthy t \<Longrightarrow> length (rx t) < n \<Longrightarrow>
          \<exists>t'. read_exact ops t n = (t', None) \<and> healthy t'"
    and write_True: "write_all ops t bs = (t', True) \<Longrightarrow> tx t' = tx t @ bs"
    and write_False: "write_all ops t bs = (t', False) \<Longrightarrow> \<exists>k\<le>length bs. tx t' = tx t @ take k bs"
    and write_rx: "write_all ops t bs = (t', b) \<Longrightarrow> rx t' = rx t"
    and write_healthy: "healthy t \<Longrightarrow> \<exists>t'. write_all ops t bs = (t', True) \<and> healthy t'"
begin

text \<open>How the peer's bytes were cut into segments does not show: the result of a read is a function
  of the bytes alone.\<close>

lemma read_result:
  assumes "healthy t"
  shows "snd (read_exact ops t n) = (if n \<le> length (rx t) then Some (take n (rx t)) else None)"
    and "healthy (fst (read_exact ops t n))"
  using read_healthy [OF assms, of n] read_closed [OF assms, of n]
  by (cases "n \<le> length (rx t)"; auto simp: not_le)+

lemma read_rest:
  assumes "healthy t" "n \<le> length (rx t)"
  shows "rx (fst (read_exact ops t n)) = drop n (rx t)"
  using read_healthy [OF assms] read_Some by (metis append_eq_conv_conj fst_conv)

end

section \<open>Kernel events\<close>

datatype recv_event = Data bytes | RInterrupted | RFailed

datatype send_event = Accept nat | SInterrupted | SFailed

fun event_bytes :: "recv_event \<Rightarrow> bytes" where
  "event_bytes (Data bs) = bs"
| "event_bytes _ = []"

record conn =
  handle :: int
  rxq :: "recv_event list"
  txq :: "send_event list"
  sent :: bytes

datatype sys_result = Bytes bytes | Interrupted | Failed

text \<open>One \<^verbatim>\<open>recv\<close>/\<^verbatim>\<open>ReadFile\<close> of up to \<open>n\<close> bytes, and one \<^verbatim>\<open>send\<close>/\<^verbatim>\<open>WriteFile\<close>; on a closed handle
  both fail.\<close>

definition sys_recv :: "conn \<Rightarrow> nat \<Rightarrow> conn \<times> sys_result" where
  "sys_recv c n =
     (if handle c < 0 then (c, Failed)
      else (case rxq c of
              [] \<Rightarrow> (c, Bytes [])
            | RInterrupted # q \<Rightarrow> (c\<lparr>rxq := q\<rparr>, Interrupted)
            | RFailed # q \<Rightarrow> (c\<lparr>rxq := q\<rparr>, Failed)
            | Data bs # q \<Rightarrow>
                if length bs \<le> n then (c\<lparr>rxq := q\<rparr>, Bytes bs)
                else (c\<lparr>rxq := Data (drop n bs) # q\<rparr>, Bytes (take n bs))))"

definition sys_send :: "conn \<Rightarrow> bytes \<Rightarrow> conn \<times> sys_result" where
  "sys_send c bs =
     (if handle c < 0 then (c, Failed)
      else (case txq c of
              [] \<Rightarrow> (c\<lparr>sent := sent c @ bs\<rparr>, Bytes bs)
            | SInterrupted # q \<Rightarrow> (c\<lparr>txq := q\<rparr>, Interrupted)
            | SFailed # q \<Rightarrow> (c\<lparr>txq := q\<rparr>, Failed)
            | Accept k # q \<Rightarrow> (c\<lparr>txq := q, sent := sent c @ take k bs\<rparr>, Bytes (take k bs))))"

section \<open>The POSIX socket\<close>

text \<open>\<^verbatim>\<open>SocketTransport::read_exact\<close>: \<open>need\<close> bytes remain to be read, \<open>got\<close> have been.\<close>

function sock_read :: "conn \<Rightarrow> bytes \<Rightarrow> nat \<Rightarrow> conn \<times> bytes option" where
  "sock_read c got need =
     (if need = 0 then (c, Some got)
      else (case sys_recv c need of
              (c', Bytes bs) \<Rightarrow>
                if bs = [] then (c', None) else sock_read c' (got @ bs) (need - length bs)
            | (c', Interrupted) \<Rightarrow> sock_read c' got need
            | (c', Failed) \<Rightarrow> (c', None)))"
  by pat_completeness auto
termination
proof (relation "measure (\<lambda>(c, got, need). need + length (rxq c))", goal_cases)
  case (2 c got need c' r bs)
  then have "sys_recv c need = (c', Bytes bs)" "0 < need" "bs \<noteq> []" by auto
  then have "0 < length bs" "length bs \<le> need" "length (rxq c') \<le> length (rxq c)"
    by (auto simp: sys_recv_def split: if_splits list.splits recv_event.splits)
  then have "need - length bs + length (rxq c') < need + length (rxq c)" by linarith
  then show ?case by simp
next
  case (3 c got need c' r)
  then have "sys_recv c need = (c', Interrupted)" by auto
  then show ?case
    by (auto simp: sys_recv_def split: if_splits list.splits recv_event.splits)
qed simp

function sock_write :: "conn \<Rightarrow> bytes \<Rightarrow> conn \<times> bool" where
  "sock_write c bs =
     (if bs = [] then (c, True)
      else (case sys_send c bs of
              (c', Bytes w) \<Rightarrow> sock_write c' (drop (length w) bs)
            | (c', Interrupted) \<Rightarrow> sock_write c' bs
            | (c', Failed) \<Rightarrow> (c', False)))"
  by pat_completeness auto
termination
proof (relation "measure (\<lambda>(c, bs). length bs + length (txq c))", goal_cases)
  case (2 c bs c' r w)
  then have "sys_send c bs = (c', Bytes w)" "bs \<noteq> []" by auto
  then show ?case
    by (cases "txq c") (auto simp: sys_send_def split: if_splits send_event.splits)
next
  case (3 c bs c' r)
  then have "sys_send c bs = (c', Interrupted)" by auto
  then show ?case
    by (auto simp: sys_send_def split: if_splits list.splits send_event.splits)
qed simp

declare sock_read.simps [simp del] sock_write.simps [simp del]

definition sock_close :: "conn \<Rightarrow> conn" where
  "sock_close c = (if 0 \<le> handle c then c\<lparr>handle := - 1\<rparr> else c)"

definition socket_transport :: "conn itransport" where
  "socket_transport =
     \<lparr>read_exact = (\<lambda>c n. sock_read c [] n), write_all = sock_write, close_t = sock_close\<rparr>"

section \<open>The Windows named pipe\<close>

text \<open>\<^verbatim>\<open>PipeTransport\<close>: a failed call or an empty transfer ends the loop; nothing is retried.\<close>

function pipe_read :: "conn \<Rightarrow> bytes \<Rightarrow> nat \<Rightarrow> conn \<times> bytes option" where
  "pipe_read c got need =
     (if need = 0 then (c, Some got)
      else (case sys_recv c need of
              (c', Bytes bs) \<Rightarrow>
                if bs = [] then (c', None) else pipe_read c' (got @ bs) (need - length bs)
            | (c', _) \<Rightarrow> (c', None)))"
  by pat_completeness auto
termination
  by (relation "measure (\<lambda>(c, got, need). need)") auto

function pipe_write :: "conn \<Rightarrow> bytes \<Rightarrow> conn \<times> bool" where
  "pipe_write c bs =
     (if bs = [] then (c, True)
      else (case sys_send c bs of
              (c', Bytes w) \<Rightarrow> if w = [] then (c', False) else pipe_write c' (drop (length w) bs)
            | (c', _) \<Rightarrow> (c', False)))"
  by pat_completeness auto
termination
  by (relation "measure (\<lambda>(c, bs). length bs)") auto

declare pipe_read.simps [simp del] pipe_write.simps [simp del]

definition pipe_transport :: "conn itransport" where
  "pipe_transport =
     \<lparr>read_exact = (\<lambda>c n. pipe_read c [] n), write_all = pipe_write, close_t = sock_close\<rparr>"

section \<open>What the loops promise\<close>

definition conn_rx :: "conn \<Rightarrow> bytes" where
  "conn_rx c = concat (map event_bytes (rxq c))"

definition sock_healthy :: "conn \<Rightarrow> bool" where
  "sock_healthy c \<longleftrightarrow> 0 \<le> handle c \<and> list_all (\<lambda>e. e \<noteq> RFailed \<and> e \<noteq> Data []) (rxq c)
     \<and> list_all (\<lambda>e. e \<noteq> SFailed) (txq c)"

definition pipe_healthy :: "conn \<Rightarrow> bool" where
  "pipe_healthy c \<longleftrightarrow> sock_healthy c \<and> RInterrupted \<notin> set (rxq c)
     \<and> SInterrupted \<notin> set (txq c) \<and> Accept 0 \<notin> set (txq c)"

lemmas recv_splits = if_splits list.splits recv_event.splits
lemmas send_splits = if_splits list.splits send_event.splits

lemma sys_recv_Bytes:
  "sys_recv c n = (c', Bytes bs) \<Longrightarrow> conn_rx c = bs @ conn_rx c' \<and> length bs \<le> n \<and> sent c' = sent c"
  by (auto simp: sys_recv_def conn_rx_def split: recv_splits)

lemma sys_recv_none:
  "sys_recv c n = (c', r) \<Longrightarrow> r \<in> {Interrupted, Failed} \<Longrightarrow> conn_rx c' = conn_rx c \<and> sent c' = sent c"
  by (auto simp: sys_recv_def conn_rx_def split: recv_splits)

lemma sys_recv_sock:
  "sock_healthy c \<Longrightarrow> 0 < n \<Longrightarrow> sys_recv c n = (c', r) \<Longrightarrow>
     sock_healthy c' \<and> r \<noteq> Failed \<and> (r = Bytes [] \<longrightarrow> conn_rx c = [])"
  by (auto simp: sys_recv_def conn_rx_def sock_healthy_def split: recv_splits)

lemma sys_recv_pipe:
  assumes "pipe_healthy c" "0 < n" "sys_recv c n = (c', r)"
  shows "pipe_healthy c' \<and> (\<exists>bs. r = Bytes bs \<and> (bs = [] \<longrightarrow> conn_rx c = []))"
proof -
  have s: "sock_healthy c" using assms(1) by (simp add: pipe_healthy_def)
  note k = sys_recv_sock [OF s assms(2,3)]
  have "r \<noteq> Interrupted \<and> set (rxq c') \<subseteq> set (rxq c) \<union> range Data \<and> txq c' = txq c"
    using assms(1,3) by (cases "rxq c"; cases "hd (rxq c)") (auto simp: sys_recv_def pipe_healthy_def split: if_splits)
  then show ?thesis using assms(1) k by (cases r) (auto simp: pipe_healthy_def)
qed

lemma sys_send_Bytes:
  "sys_send c bs = (c', Bytes w) \<Longrightarrow> take (length w) bs = w \<and> sent c' = sent c @ w \<and> conn_rx c' = conn_rx c"
  by (auto simp: sys_send_def conn_rx_def min_def split: send_splits)

lemma sys_send_none:
  "sys_send c bs = (c', r) \<Longrightarrow> r \<in> {Interrupted, Failed} \<Longrightarrow> conn_rx c' = conn_rx c \<and> sent c' = sent c"
  by (auto simp: sys_send_def conn_rx_def split: send_splits)

lemma sys_send_sock:
  "sock_healthy c \<Longrightarrow> sys_send c bs = (c', r) \<Longrightarrow> sock_healthy c' \<and> r \<noteq> Failed"
  by (auto simp: sys_send_def sock_healthy_def split: send_splits)

lemma sys_send_pipe:
  assumes "pipe_healthy c" "bs \<noteq> []" "sys_send c bs = (c', r)"
  shows "pipe_healthy c' \<and> (\<exists>w. r = Bytes w \<and> w \<noteq> [])"
proof -
  have s: "sock_healthy c" using assms(1) by (simp add: pipe_healthy_def)
  note k = sys_send_sock [OF s assms(3)]
  have "r \<noteq> Interrupted \<and> r \<noteq> Bytes [] \<and> set (txq c') \<subseteq> set (txq c) \<and> rxq c' = rxq c"
    using assms by (cases "txq c"; cases "hd (txq c)") (auto simp: sys_send_def pipe_healthy_def split: if_splits)
  then show ?thesis using assms(1) k by (cases r) (auto simp: pipe_healthy_def)
qed

lemma sock_read_Some:
  "sock_read c got n = (c', Some bs) \<Longrightarrow>
     \<exists>r. bs = got @ r \<and> length r = n \<and> conn_rx c = r @ conn_rx c'"
proof (induction c got n arbitrary: c' rule: sock_read.induct)
  case (1 c got need)
  show ?case
  proof (cases "need = 0")
    case False
    obtain d r where recv: "sys_recv c need = (d, r)" by force
    show ?thesis
    proof (cases r)
      case (Bytes w)
      with 1(3) recv False have "w \<noteq> []" "sock_read d (got @ w) (need - length w) = (c', Some bs)"
        by (auto simp: sock_read.simps [of c] split: if_splits)
      from 1(1) [OF False recv [symmetric] Bytes this] sys_recv_Bytes [OF recv [unfolded Bytes]]
      show ?thesis by auto
    next
      case Interrupted
      with 1(3) recv False have "sock_read d got need = (c', Some bs)"
        by (auto simp: sock_read.simps [of c])
      from 1(2) [OF False recv [symmetric] Interrupted this] sys_recv_none [OF recv]
      show ?thesis using Interrupted by auto
    qed (use 1(3) recv False in \<open>auto simp: sock_read.simps [of c]\<close>)
  qed (use 1(3) in \<open>auto simp: sock_read.simps\<close>)
qed

lemma sock_read_sent: "sent (fst (sock_read c got n)) = sent c"
proof (induction c got n rule: sock_read.induct)
  case (1 c got need)
  then show ?case
    using sys_recv_Bytes [of c need] sys_recv_none [of c need]
    by (subst sock_read.simps) (auto split: prod.splits sys_result.splits)
qed

lemma sock_read_healthy:
  "sock_healthy c \<Longrightarrow>
     snd (sock_read c got n) = (if n \<le> length (conn_rx c) then Some (got @ take n (conn_rx c)) else None)
     \<and> sock_healthy (fst (sock_read c got n))"
proof (induction c got n rule: sock_read.induct)
  case (1 c got need)
  show ?case
  proof (cases "need = 0")
    case False
    obtain d r where recv: "sys_recv c need = (d, r)" by force
    have h: "sock_healthy d" and nf: "r \<noteq> Failed" and e: "r = Bytes [] \<Longrightarrow> conn_rx c = []"
      using sys_recv_sock [OF 1(3) _ recv] False by auto
    show ?thesis
    proof (cases r)
      case (Bytes w)
      note rw = sys_recv_Bytes [OF recv [unfolded Bytes]]
      show ?thesis
      proof (cases "w = []")
        case False
        from 1(1) [OF \<open>need \<noteq> 0\<close> recv [symmetric] Bytes False h] rw show ?thesis
          using \<open>need \<noteq> 0\<close> False recv Bytes by (subst (1 2) sock_read.simps) auto
      qed (use False recv Bytes h e in \<open>auto simp: sock_read.simps [of c]\<close>)
    next
      case Interrupted
      from 1(2) [OF False recv [symmetric] Interrupted h] sys_recv_none [OF recv] show ?thesis
        using False recv Interrupted by (auto simp: sock_read.simps [of c])
    qed (use nf in simp)
  qed (use 1(3) in \<open>simp add: sock_read.simps\<close>)
qed

lemma sock_write_spec:
  "sock_write c bs = (c', ok) \<Longrightarrow>
     conn_rx c' = conn_rx c \<and> (\<exists>k. (ok \<longrightarrow> length bs \<le> k) \<and> sent c' = sent c @ take k bs)"
proof (induction c bs rule: sock_write.induct)
  case (1 c bs)
  show ?case
  proof (cases "bs = []")
    case False
    obtain d r where send: "sys_send c bs = (d, r)" by force
    show ?thesis
    proof (cases r)
      case (Bytes w)
      with 1(3) send False have "sock_write d (drop (length w) bs) = (c', ok)"
        by (simp add: sock_write.simps [of c])
      from 1(1) [OF False send [symmetric] Bytes this]
      obtain k where k: "conn_rx c' = conn_rx d" "ok \<longrightarrow> length bs - length w \<le> k"
          "sent c' = sent d @ take k (drop (length w) bs)" by auto
      have m: "take (length w) bs = w" "sent d = sent c @ w" "conn_rx d = conn_rx c"
        using sys_send_Bytes [OF send [unfolded Bytes]] by auto
      have "w @ take k (drop (length w) bs) = take (length w + k) bs"
        using m(1) by (simp add: take_add)
      with k m show ?thesis by (intro conjI exI [of _ "length w + k"]) auto
    next
      case Interrupted
      with 1(3) send False have "sock_write d bs = (c', ok)" by (simp add: sock_write.simps [of c])
      from 1(2) [OF False send [symmetric] Interrupted this] sys_send_none [OF send]
      show ?thesis using Interrupted by auto
    next
      case Failed
      with 1(3) send False sys_send_none [OF send] show ?thesis
        by (auto simp: sock_write.simps [of c] intro: exI [of _ 0])
    qed
  qed (use 1(3) in \<open>auto simp: sock_write.simps\<close>)
qed

lemma sock_write_healthy:
  "sock_healthy c \<Longrightarrow> snd (sock_write c bs) \<and> sock_healthy (fst (sock_write c bs))"
proof (induction c bs rule: sock_write.induct)
  case (1 c bs)
  then show ?case
    using sys_send_sock [OF 1(3), of bs]
    by (subst (1 2) sock_write.simps) (auto split: prod.splits sys_result.splits)
qed

lemma pipe_read_Some:
  "pipe_read c got n = (c', Some bs) \<Longrightarrow>
     \<exists>r. bs = got @ r \<and> length r = n \<and> conn_rx c = r @ conn_rx c'"
proof (induction c got n arbitrary: c' rule: pipe_read.induct)
  case (1 c got need)
  show ?case
  proof (cases "need = 0")
    case False
    then obtain d w where recv: "sys_recv c need = (d, Bytes w)" and w: "w \<noteq> []"
        and rest: "pipe_read d (got @ w) (need - length w) = (c', Some bs)"
      using 1(2) by (auto simp: pipe_read.simps [of c] split: prod.splits sys_result.splits if_splits)
    from 1(1) [OF False recv [symmetric] refl w rest] sys_recv_Bytes [OF recv]
    show ?thesis by auto
  qed (use 1(2) in \<open>auto simp: pipe_read.simps\<close>)
qed

lemma pipe_read_sent: "sent (fst (pipe_read c got n)) = sent c"
proof (induction c got n rule: pipe_read.induct)
  case (1 c got need)
  then show ?case
    using sys_recv_Bytes [of c need] sys_recv_none [of c need]
    by (subst pipe_read.simps) (auto split: prod.splits sys_result.splits)
qed

lemma pipe_read_healthy:
  "pipe_healthy c \<Longrightarrow>
     snd (pipe_read c got n) = (if n \<le> length (conn_rx c) then Some (got @ take n (conn_rx c)) else None)
     \<and> pipe_healthy (fst (pipe_read c got n))"
proof (induction c got n rule: pipe_read.induct)
  case (1 c got need)
  show ?case
  proof (cases "need = 0")
    case False
    then obtain d w where recv: "sys_recv c need = (d, Bytes w)" and h: "pipe_healthy d"
        and e: "w = [] \<longrightarrow> conn_rx c = []"
      using sys_recv_pipe [OF 1(2), of need] by (cases "sys_recv c need") auto
    show ?thesis
    proof (cases "w = []")
      case False
      from 1(1) [OF \<open>need \<noteq> 0\<close> recv [symmetric] refl False h] sys_recv_Bytes [OF recv] show ?thesis
        using \<open>need \<noteq> 0\<close> False recv by (subst (1 2) pipe_read.simps) auto
    qed (use False recv h e in \<open>auto simp: pipe_read.simps [of c]\<close>)
  qed (use 1(2) in \<open>simp add: pipe_read.simps\<close>)
qed

lemma pipe_write_spec:
  "pipe_write c bs = (c', ok) \<Longrightarrow>
     conn_rx c' = conn_rx c \<and> (\<exists>k. (ok \<longrightarrow> length bs \<le> k) \<and> sent c' = sent c @ take k bs)"
proof (induction c bs rule: pipe_write.induct)
  case (1 c bs)
  show ?case
  proof (cases "bs = []")
    case False
    obtain d r where send: "sys_send c bs = (d, r)" by force
    show ?thesis
    proof (cases "\<exists>w. r = Bytes w \<and> w \<noteq> []")
      case True
      then obtain w where Bytes: "r = Bytes w" and w: "w \<noteq> []" by blast
      with 1(2) send False have "pipe_write d (drop (length w) bs) = (c', ok)"
        by (simp add: pipe_write.simps [of c])
      from 1(1) [OF False send [symmetric] Bytes w this]
      obtain k where k: "conn_rx c' = conn_rx d" "ok \<longrightarrow> length bs - length w \<le> k"
          "sent c' = sent d @ take k (drop (length w) bs)" by auto
      have m: "take (length w) bs = w" "sent d = sent c @ w" "conn_rx d = conn_rx c"
        using sys_send_Bytes [OF send [unfolded Bytes]] by auto
      have "w @ take k (drop (length w) bs) = take (length w + k) bs"
        using m(1) by (simp add: take_add)
      with k m show ?thesis by (intro conjI exI [of _ "length w + k"]) auto
    next
      case False': False
      then have "c' = d" "\<not> ok" using 1(2) send False
        by (auto simp: pipe_write.simps [of c] split: sys_result.splits)
      moreover have "conn_rx d = conn_rx c \<and> sent d = sent c"
        using False' sys_send_none [OF send] sys_send_Bytes [of c bs d "[]"] send by (cases r) auto
      ultimately show ?thesis by (auto intro: exI [of _ 0])
    qed
  qed (use 1(2) in \<open>auto simp: pipe_write.simps\<close>)
qed

lemma pipe_write_healthy:
  "pipe_healthy c \<Longrightarrow> snd (pipe_write c bs) \<and> pipe_healthy (fst (pipe_write c bs))"
proof (induction c bs rule: pipe_write.induct)
  case (1 c bs)
  show ?case
  proof (cases "bs = []")
    case False
    then obtain d w where send: "sys_send c bs = (d, Bytes w)" and "pipe_healthy d" and w: "w \<noteq> []"
      using sys_send_pipe [OF 1(2) False] by (cases "sys_send c bs") auto
    with 1(1) [OF False send [symmetric] refl w] show ?thesis
      using False by (subst (1 2) pipe_write.simps) auto
  qed (use 1(2) in \<open>simp add: pipe_write.simps\<close>)
qed

section \<open>Both transports keep the contract\<close>

lemma prod_result: "snd p = x \<Longrightarrow> Q (fst p) \<Longrightarrow> \<exists>t'. p = (t', x) \<and> Q t'"
  by (cases p) auto

interpretation sock: transport socket_transport conn_rx sent sock_healthy
proof
  fix t t' n bs r b
  show "read_exact socket_transport t n = (t', Some bs) \<Longrightarrow> length bs = n \<and> conn_rx t = bs @ conn_rx t'"
    using sock_read_Some [of t "[]"] by (auto simp: socket_transport_def)
  show "read_exact socket_transport t n = (t', r) \<Longrightarrow> sent t' = sent t"
    using sock_read_sent [of t "[]" n] by (auto simp: socket_transport_def)
  show "write_all socket_transport t bs = (t', True) \<Longrightarrow> sent t' = sent t @ bs"
    using sock_write_spec [of t bs t' True] by (auto simp: socket_transport_def)
  show "write_all socket_transport t bs = (t', b) \<Longrightarrow> conn_rx t' = conn_rx t"
    using sock_write_spec [of t bs t' b] by (simp add: socket_transport_def)
  show "write_all socket_transport t bs = (t', False) \<Longrightarrow> \<exists>k\<le>length bs. sent t' = sent t @ take k bs"
    using sock_write_spec [of t bs t' False]
    by (auto simp: socket_transport_def) (metis le_cases take_all_iff order.refl)
  assume h: "sock_healthy t"
  note rd = sock_read_healthy [OF h, of "[]" n]
  show "n \<le> length (conn_rx t) \<Longrightarrow>
      \<exists>t'. read_exact socket_transport t n = (t', Some (take n (conn_rx t))) \<and> sock_healthy t'"
    using rd by (intro prod_result) (auto simp: socket_transport_def)
  show "length (conn_rx t) < n \<Longrightarrow>
      \<exists>t'. read_exact socket_transport t n = (t', None) \<and> sock_healthy t'"
    using rd by (intro prod_result) (auto simp: socket_transport_def)
  show "\<exists>t'. write_all socket_transport t bs = (t', True) \<and> sock_healthy t'"
    using sock_write_healthy [OF h, of bs] by (intro prod_result) (auto simp: socket_transport_def)
qed

interpretation pipe: transport pipe_transport conn_rx sent pipe_healthy
proof
  fix t t' n bs r b
  show "read_exact pipe_transport t n = (t', Some bs) \<Longrightarrow> length bs = n \<and> conn_rx t = bs @ conn_rx t'"
    using pipe_read_Some [of t "[]"] by (auto simp: pipe_transport_def)
  show "read_exact pipe_transport t n = (t', r) \<Longrightarrow> sent t' = sent t"
    using pipe_read_sent [of t "[]" n] by (auto simp: pipe_transport_def)
  show "write_all pipe_transport t bs = (t', True) \<Longrightarrow> sent t' = sent t @ bs"
    using pipe_write_spec [of t bs t' True] by (auto simp: pipe_transport_def)
  show "write_all pipe_transport t bs = (t', b) \<Longrightarrow> conn_rx t' = conn_rx t"
    using pipe_write_spec [of t bs t' b] by (simp add: pipe_transport_def)
  show "write_all pipe_transport t bs = (t', False) \<Longrightarrow> \<exists>k\<le>length bs. sent t' = sent t @ take k bs"
    using pipe_write_spec [of t bs t' False]
    by (auto simp: pipe_transport_def) (metis le_cases take_all_iff order.refl)
  assume h: "pipe_healthy t"
  note rd = pipe_read_healthy [OF h, of "[]" n]
  show "n \<le> length (conn_rx t) \<Longrightarrow>
      \<exists>t'. read_exact pipe_transport t n = (t', Some (take n (conn_rx t))) \<and> pipe_healthy t'"
    using rd by (intro prod_result) (auto simp: pipe_transport_def)
  show "length (conn_rx t) < n \<Longrightarrow>
      \<exists>t'. read_exact pipe_transport t n = (t', None) \<and> pipe_healthy t'"
    using rd by (intro prod_result) (auto simp: pipe_transport_def)
  show "\<exists>t'. write_all pipe_transport t bs = (t', True) \<and> pipe_healthy t'"
    using pipe_write_healthy [OF h, of bs] by (intro prod_result) (auto simp: pipe_transport_def)
qed

section \<open>Connecting to the launcher\<close>

text \<open>
  What \<^verbatim>\<open>connect_local\<close> asks of the system on POSIX: the environment, the outcome of \<^verbatim>\<open>socket()\<close>
  (a descriptor or the text of \<^verbatim>\<open>errno\<close>) and that of \<^verbatim>\<open>connect()\<close> on a path (the connection's
  events, or the text of \<^verbatim>\<open>errno\<close>).
\<close>

record posix_env =
  env_var :: "string \<Rightarrow> string option"
  open_socket :: "string + nat"
  connect_to :: "string \<Rightarrow> string + (recv_event list \<times> send_event list)"

definition socket_path :: "posix_env \<Rightarrow> string \<Rightarrow> string" where
  "socket_path sys token =
     (let dir = (case env_var sys ''XDG_RUNTIME_DIR'' of
                   Some d \<Rightarrow> if d \<noteq> [] then d else ''/tmp''
                 | None \<Rightarrow> ''/tmp'')
      in dir @ ''/arcade-stream-engine-'' @ token @ ''.sock'')"

text \<open>\<^verbatim>\<open>sizeof(addr.sun_path)\<close>.\<close>

definition sun_path_size :: nat where
  "sun_path_size = 108"

text \<open>The result is an error text or the transport's connection; beside it stand the descriptors
  closed on the way.\<close>

definition connect_local :: "posix_env \<Rightarrow> string \<Rightarrow> (string + conn) \<times> nat list" where
  "connect_local sys token =
     (let path = socket_path sys token
      in case open_socket sys of
           Inl e \<Rightarrow> (Inl (''socket() failed: '' @ e), [])
         | Inr fd \<Rightarrow>
             if sun_path_size \<le> length path then (Inl (''socket path too long: '' @ path), [fd])
             else (case connect_to sys (takeWhile (\<lambda>c. c \<noteq> CHR 0x00) path) of
                     Inl e \<Rightarrow> (Inl (''failed to connect to '' @ path @ '': '' @ e), [fd])
                   | Inr (rq, tq) \<Rightarrow> (Inr \<lparr>handle = int fd, rxq = rq, txq = tq, sent = []\<rparr>, [])))"

text \<open>On Windows one attempt opens the pipe, fails with an error code, or finds every instance
  busy; then \<^verbatim>\<open>WaitNamedPipeA\<close> says whether to try again.\<close>

datatype pipe_attempt = Opened int "recv_event list" "send_event list" | NotBusy nat | Busy bool nat

fun pipe_connect :: "(nat \<Rightarrow> pipe_attempt) \<Rightarrow> nat \<Rightarrow> nat \<Rightarrow> nat \<Rightarrow> nat + conn" where
  "pipe_connect sys i 0 last_error = Inl last_error"
| "pipe_connect sys i (Suc left) last_error =
     (case sys i of
        Opened h rq tq \<Rightarrow> Inr \<lparr>handle = h, rxq = rq, txq = tq, sent = []\<rparr>
      | NotBusy e \<Rightarrow> Inl e
      | Busy waited e \<Rightarrow> if waited then pipe_connect sys (Suc i) left e else Inl e)"

definition connect_local_win :: "(nat \<Rightarrow> pipe_attempt) \<Rightarrow> string \<Rightarrow> string + conn" where
  "connect_local_win sys token =
     (let name = [CHR 0x5C, CHR 0x5C] @ ''.'' @ [CHR 0x5C] @ ''pipe'' @ [CHR 0x5C]
                   @ ''arcade-stream-engine-'' @ token
      in case pipe_connect sys 0 50 0 of
           Inr c \<Rightarrow> Inr c
         | Inl e \<Rightarrow> Inl (''failed to connect to pipe '' @ name @ '' (GetLastError='' @ to_string (int e) @ '')''))"

lemma pipe_connect_retry:
  "(\<And>j. j < n \<Longrightarrow> \<exists>e. sys (i + j) = Busy True e) \<Longrightarrow>
     \<exists>e. pipe_connect sys i (n + k) e0 = pipe_connect sys (i + n) k e"
proof (induction n arbitrary: i e0)
  case (Suc n)
  obtain e where "sys i = Busy True e" using Suc.prems [of 0] by auto
  moreover have "\<exists>e'. pipe_connect sys (Suc i) (n + k) e = pipe_connect sys (Suc i + n) k e'"
    using Suc.prems [of "Suc j" for j] by (intro Suc.IH) auto
  ultimately show ?case by simp
qed auto

section \<open>Properties\<close>

text \<open>
  C31. On both systems the loops hide how the peer's bytes are cut into segments and how many bytes
  each write accepts: two healthy connections holding the same bytes give the same answer to a
  read of any size, exactly the next \<open>n\<close> bytes or, when the peer closed before, failure; and
  every write succeeds and hands over exactly its bytes, in order.
\<close>

theorem transport_segmentation:
  assumes "sock_healthy c" "pipe_healthy p" "conn_rx p = conn_rx c"
  shows "snd (read_exact socket_transport c n)
           = (if n \<le> length (conn_rx c) then Some (take n (conn_rx c)) else None)
         \<and> snd (read_exact pipe_transport p n) = snd (read_exact socket_transport c n)
         \<and> snd (write_all socket_transport c bs) \<and> snd (write_all pipe_transport p bs)
         \<and> sent (fst (write_all socket_transport c bs)) = sent c @ bs
         \<and> sent (fst (write_all pipe_transport p bs)) = sent p @ bs"
  using sock.read_result(1) [OF assms(1)] pipe.read_result(1) [OF assms(2)] assms(3)
    sock.write_healthy [OF assms(1), of bs] pipe.write_healthy [OF assms(2), of bs]
    sock.write_True [of c bs] pipe.write_True [of p bs]
  by auto

theorem transport_segmentation_witness:
  "snd (read_exact socket_transport
          \<lparr>handle = 3, rxq = [Data ''ab'', RInterrupted, Data ''cde''], txq = [Accept 1, SInterrupted],
           sent = []\<rparr> 4) = Some ''abcd''"
  using transport_segmentation
    [of "\<lparr>handle = 3, rxq = [Data ''ab'', RInterrupted, Data ''cde''], txq = [Accept 1, SInterrupted], sent = []\<rparr>"
        "\<lparr>handle = 7, rxq = [Data ''a'', Data ''bcd'', Data ''e''], txq = [], sent = []\<rparr>" 4 "''xyz''"]
  by (simp add: sock_healthy_def pipe_healthy_def conn_rx_def)

text \<open>
  \<^verbatim>\<open>connect_local\<close> never leaks a descriptor and never truncates the socket's name: a success
  closes nothing, holds the open descriptor and connected to the whole path of less than
  \<^verbatim>\<open>sizeof(sun_path)\<close> bytes; a failure after \<^verbatim>\<open>socket()\<close> closes that descriptor exactly once.
\<close>

theorem connect_local_no_leak:
  assumes "open_socket sys = Inr fd"
  shows "case connect_local sys token of
           (Inr c, fds) \<Rightarrow> fds = [] \<and> handle c = int fd \<and> sent c = []
              \<and> length (socket_path sys token) < sun_path_size
              \<and> connect_to sys (takeWhile (\<lambda>c. c \<noteq> CHR 0x00) (socket_path sys token)) = Inr (rxq c, txq c)
         | (Inl e, fds) \<Rightarrow> fds = [fd] \<and> e \<noteq> []"
  using assms by (auto simp: connect_local_def Let_def split: sum.splits)

theorem connect_local_no_leak_witness:
  "connect_local \<lparr>env_var = (\<lambda>_. None), open_socket = Inr 5, connect_to = (\<lambda>_. Inr ([], []))\<rparr> ''t''
     = (Inr \<lparr>handle = 5, rxq = [], txq = [], sent = []\<rparr>, [])"
  using connect_local_no_leak
    [of "\<lparr>env_var = (\<lambda>_. None), open_socket = Inr 5, connect_to = (\<lambda>_. Inr ([], []))\<rparr>" 5 "''t''"]
  by (simp add: connect_local_def socket_path_def sun_path_size_def)

text \<open>
  The Windows client rides out a busy pipe: while at most 49 attempts find every instance busy
  (and waiting succeeds each time), the next attempt that opens the pipe is used.
\<close>

theorem connect_local_win_retries:
  assumes "n < 50" "\<And>j. j < n \<Longrightarrow> \<exists>e. sys j = Busy True e" "sys n = Opened h rq tq"
  shows "connect_local_win sys token = Inr \<lparr>handle = h, rxq = rq, txq = tq, sent = []\<rparr>"
proof -
  obtain e where "pipe_connect sys 0 (n + (50 - n)) 0 = pipe_connect sys n (50 - n) e"
    using pipe_connect_retry [of n sys 0 "50 - n" 0] assms(2) by auto
  moreover have "pipe_connect sys n (50 - n) e = Inr \<lparr>handle = h, rxq = rq, txq = tq, sent = []\<rparr>"
    using assms(1,3) by (cases "50 - n") auto
  ultimately show ?thesis using assms(1) by (simp add: connect_local_win_def Let_def)
qed

theorem connect_local_win_retries_witness:
  "connect_local_win (\<lambda>i. if i < 49 then Busy True 231 else Opened 4 [] []) ''t''
     = Inr \<lparr>handle = 4, rxq = [], txq = [], sent = []\<rparr>"
  using connect_local_win_retries [of 49 "\<lambda>i. if i < 49 then Busy True 231 else Opened 4 [] []"] by simp

end
