(* ===== verification/Frame.thy ===== *)
theory Frame
  imports Transport
begin

text \<open>
  The wire framing (\<^verbatim>\<open>src/src/ipc/frame.h\<close>, \<^verbatim>\<open>src/src/ipc/frame.cpp\<close>): a four-byte little-endian
  length and the payload, written and read over any transport.  The \<^verbatim>\<open>err\<close> argument of
  \<^verbatim>\<open>read_frame\<close> is empty when the callers pass it in, so that its two failures, a clean close
  (\<^verbatim>\<open>err\<close> still empty) and an error, are two constructors of the result.
\<close>

unbundle bit_operations_syntax

section \<open>Reading and writing a frame\<close>

definition kMaxFrame :: nat where
  "kMaxFrame = 8 * 1024 * 1024"

definition frame_header :: "32 word \<Rightarrow> bytes" where
  "frame_header n =
     [to_byte (n AND 0xFF), to_byte (drop_bit 8 n AND 0xFF),
      to_byte (drop_bit 16 n AND 0xFF), to_byte (drop_bit 24 n AND 0xFF)]"

definition header_word :: "bytes \<Rightarrow> 32 word" where
  "header_word hdr =
     of_nat (byte_of (hdr ! 0)) OR push_bit 8 (of_nat (byte_of (hdr ! 1)))
       OR push_bit 16 (of_nat (byte_of (hdr ! 2))) OR push_bit 24 (of_nat (byte_of (hdr ! 3)))"

text \<open>\<^term>\<open>None\<close> is success, \<^term>\<open>Some e\<close> the error text.\<close>

definition write_frame :: "'t itransport \<Rightarrow> 't \<Rightarrow> bytes \<Rightarrow> 't \<times> string option" where
  "write_frame ops t payload =
     (if kMaxFrame < length payload then (t, Some ''frame exceeds 8 MiB cap'')
      else
        let n = of_nat (length payload) :: 32 word;
            (t1, ok) = write_all ops t (frame_header n)
        in if \<not> ok then (t1, Some ''write frame header failed'')
           else if n \<noteq> 0 then
             (let (t2, ok2) = write_all ops t1 payload
              in if \<not> ok2 then (t2, Some ''write frame body failed'') else (t2, None))
           else (t1, None))"

datatype frame_result = Frame bytes | Eof | Err string

definition read_frame :: "'t itransport \<Rightarrow> 't \<Rightarrow> 't \<times> frame_result" where
  "read_frame ops t =
     (case read_exact ops t 4 of
        (t1, None) \<Rightarrow> (t1, Eof)
      | (t1, Some hdr) \<Rightarrow>
          let n = header_word hdr
          in if of_nat kMaxFrame < n then (t1, Err ''incoming frame exceeds 8 MiB cap'')
             else if n \<noteq> 0 then
               (case read_exact ops t1 (unat n) of
                  (t2, None) \<Rightarrow> (t2, Err ''truncated frame body'')
                | (t2, Some out) \<Rightarrow> (t2, Frame out))
             else (t1, Frame []))"

text \<open>The specification of \<open>read_frame\<close>: what a byte stream starts with.\<close>

definition split_frame :: "bytes \<Rightarrow> frame_result" where
  "split_frame bs =
     (let n = unat (header_word (take 4 bs))
      in if length bs < 4 then Eof
         else if kMaxFrame < n then Err ''incoming frame exceeds 8 MiB cap''
         else if length bs < 4 + n then Err ''truncated frame body''
         else Frame (take n (drop 4 bs)))"

text \<open>A peer that sends, and one that receives, several frames.\<close>

primrec write_frames :: "'t itransport \<Rightarrow> 't \<Rightarrow> bytes list \<Rightarrow> 't" where
  "write_frames ops t [] = t"
| "write_frames ops t (p # ps) = write_frames ops (fst (write_frame ops t p)) ps"

primrec read_frames :: "'t itransport \<Rightarrow> 't \<Rightarrow> nat \<Rightarrow> frame_result list" where
  "read_frames ops t 0 = []"
| "read_frames ops t (Suc n) =
     (case read_frame ops t of (t', r) \<Rightarrow> r # read_frames ops t' n)"

text \<open>The bytes of one frame, and of a sequence of frames.\<close>

definition frame_bytes :: "bytes \<Rightarrow> bytes" where
  "frame_bytes payload = frame_header (of_nat (length payload)) @ payload"

definition frames_bytes :: "bytes list \<Rightarrow> bytes" where
  "frames_bytes ps = concat (map frame_bytes ps)"

definition frame_ok :: "bytes \<Rightarrow> bool" where
  "frame_ok payload \<longleftrightarrow> length payload \<le> kMaxFrame"

section \<open>The header\<close>

lemma byte_of_to_byte: "byte_of (to_byte w) = unat w mod 256"
  by (simp add: to_byte_def byte_of_def)

lemma length_frame_header [simp]: "length (frame_header n) = 4"
  by (simp add: frame_header_def)

lemma header_byte: "(of_nat (byte_of (to_byte (v AND 0xFF))) :: 32 word) = take_bit 8 v"
proof -
  have "v AND 0xFF = take_bit 8 v" by (simp add: take_bit_eq_mask mask_numeral)
  moreover have "unat (take_bit 8 v) < 256"
    by (simp only: unsigned_take_bit_eq) (simp add: take_bit_eq_mod)
  ultimately show ?thesis by (simp add: byte_of_to_byte)
qed

lemma header_word_frame_header [simp]: "header_word (frame_header n) = n"
proof (rule bit_word_eqI)
  fix i assume "i < LENGTH(32)"
  then show "bit (header_word (frame_header n)) i = bit n i"
    unfolding header_word_def frame_header_def
    by (simp add: header_byte bit_or_iff bit_push_bit_iff bit_take_bit_iff bit_drop_bit_eq)
       (cases "24 \<le> i"; cases "16 \<le> i"; auto)
qed

lemma kMaxFrame_less: "n \<le> kMaxFrame \<Longrightarrow> n < 2 ^ 32"
  by (simp add: kMaxFrame_def)

lemma unat_frame_len: "n \<le> kMaxFrame \<Longrightarrow> unat (of_nat n :: 32 word) = n"
  by (rule unat_of_nat32) (rule kMaxFrame_less)

section \<open>Frames over a transport that keeps the contract\<close>

context transport
begin

lemma write_frame_ok:
  assumes "healthy t" "frame_ok p"
  obtains t' where "write_frame ops t p = (t', None)" "tx t' = tx t @ frame_bytes p" "rx t' = rx t" "healthy t'"
proof -
  let ?n = "of_nat (length p) :: 32 word"
  obtain t1 where h: "write_all ops t (frame_header ?n) = (t1, True)" "healthy t1"
    using write_healthy [OF assms(1)] by blast
  obtain t2 where b: "write_all ops t1 p = (t2, True)" "healthy t2"
    using write_healthy [OF h(2)] by blast
  have n0: "?n = 0 \<longleftrightarrow> p = []"
    using unat_frame_len [of "length p"] assms(2) by (auto simp: frame_ok_def)
  show thesis
  proof (cases "p = []")
    case True
    with h show thesis using that [of t1] write_True [OF h(1)] write_rx [OF h(1)]
      by (simp add: write_frame_def frame_bytes_def)
  next
    case False
    with h b n0 assms(2) show thesis
      using that [of t2] write_True [OF h(1)] write_rx [OF h(1)] write_True [OF b(1)] write_rx [OF b(1)]
      by (simp add: write_frame_def frame_bytes_def frame_ok_def)
  qed
qed

text \<open>Whatever fails, what reaches the peer is a prefix of the one frame, and success means all of it.\<close>

lemma write_frame_tx:
  assumes "write_frame ops t p = (t', r)"
  shows "\<exists>k. tx t' = tx t @ take k (frame_bytes p)" and "r = None \<Longrightarrow> tx t' = tx t @ frame_bytes p"
    and "rx t' = rx t"
proof -
  let ?h = "frame_header (of_nat (length p))"
  obtain t1 ok where h: "write_all ops t ?h = (t1, ok)" by force
  obtain t2 ok2 where b: "write_all ops t1 p = (t2, ok2)" by force
  have h': "rx t1 = rx t" "ok \<Longrightarrow> tx t1 = tx t @ ?h" "\<not> ok \<Longrightarrow> \<exists>k\<le>4. tx t1 = tx t @ take k ?h"
    using write_rx [OF h] write_True [of t ?h t1] write_False [of t ?h t1] h by auto
  have b': "rx t2 = rx t1" "ok2 \<Longrightarrow> tx t2 = tx t1 @ p" "\<not> ok2 \<Longrightarrow> \<exists>k. tx t2 = tx t1 @ take k p"
    using write_rx [OF b] write_True [of t1 p t2] write_False [of t1 p t2] b by auto
  consider (big) "t' = t" "r \<noteq> None" | (hdr) "\<not> ok" "t' = t1" "r \<noteq> None"
    | (empty) "ok" "t' = t1" "r = None" "p = []" | (body) "ok" "\<not> ok2" "t' = t2" "r \<noteq> None"
    | (all) "ok" "ok2" "t' = t2" "r = None"
    using assms h b unat_frame_len [of "length p"]
    by (auto simp: write_frame_def Let_def split: if_splits)
  note cs = this
  show "\<exists>k. tx t' = tx t @ take k (frame_bytes p)"
  proof (cases rule: cs)
    case big then show ?thesis by (auto intro: exI [of _ 0])
  next
    case hdr
    with h'(3) obtain k where "k \<le> 4" "tx t1 = tx t @ take k ?h" by blast
    with hdr show ?thesis by (auto simp: frame_bytes_def intro!: exI [of _ k])
  next
    case empty
    with h'(2) show ?thesis by (auto simp: frame_bytes_def intro!: exI [of _ 4])
  next
    case body
    with b'(3) obtain k where "tx t2 = tx t1 @ take k p" by blast
    with body h'(2) show ?thesis by (auto simp: frame_bytes_def intro!: exI [of _ "4 + k"])
  next
    case all
    with h'(2) b'(2) show ?thesis by (auto simp: frame_bytes_def intro!: exI [of _ "4 + length p"])
  qed
  show "rx t' = rx t" by (cases rule: cs) (use h' b' in auto)
  show "r = None \<Longrightarrow> tx t' = tx t @ frame_bytes p"
    by (cases rule: cs) (use h' b' in \<open>auto simp: frame_bytes_def\<close>)
qed

lemma read_frame_bytes:
  assumes "healthy t" "rx t = frame_bytes p @ rest" "frame_ok p"
  obtains t' where "read_frame ops t = (t', Frame p)" "rx t' = rest" "healthy t'" "tx t' = tx t"
proof -
  let ?n = "of_nat (length p) :: 32 word"
  have u: "unat ?n = length p" using unat_frame_len assms(3) by (simp add: frame_ok_def)
  obtain t1 where h: "read_exact ops t 4 = (t1, Some (frame_header ?n))" "healthy t1"
    using read_healthy [OF assms(1), of 4] assms(2) by (auto simp: frame_bytes_def)
  have r1: "rx t1 = p @ rest" using read_Some [OF h(1)] assms(2) by (simp add: frame_bytes_def)
  obtain t2 where b: "read_exact ops t1 (length p) = (t2, Some p)" "healthy t2"
    using read_healthy [OF h(2), of "length p"] r1 by auto
  have r2: "rx t2 = rest" using read_Some [OF b(1)] r1 by simp
  have cap: "\<not> of_nat kMaxFrame < ?n"
    using assms(3) u by (simp add: frame_ok_def word_less_nat_alt kMaxFrame_def)
  show thesis
  proof (cases "p = []")
    case True
    with h r1 that [of t1] read_tx [OF h(1)] cap show thesis by (simp add: read_frame_def)
  next
    case False
    then have "?n \<noteq> 0" using u by auto
    with h b r2 u that [of t2] read_tx [OF h(1)] read_tx [OF b(1)] cap show thesis
      by (simp add: read_frame_def)
  qed
qed

lemma read_frame_eof:
  assumes "healthy t" "length (rx t) < 4"
  obtains t' where "read_frame ops t = (t', Eof)" "healthy t'" "tx t' = tx t"
  using read_closed [OF assms] read_tx that by (auto simp: read_frame_def)

lemma read_frame_refines:
  assumes "healthy t"
  shows "snd (read_frame ops t) = split_frame (rx t) \<and> healthy (fst (read_frame ops t))
         \<and> tx (fst (read_frame ops t)) = tx t
         \<and> (\<forall>p. split_frame (rx t) = Frame p \<longrightarrow> rx (fst (read_frame ops t)) = drop (4 + length p) (rx t))"
proof (cases "length (rx t) < 4")
  case True
  then have eof: "split_frame (rx t) = Eof" by (simp add: split_frame_def)
  obtain t' where "read_frame ops t = (t', Eof)" "healthy t'" "tx t' = tx t"
    by (rule read_frame_eof [OF assms True])
  with eof show ?thesis by simp
next
  case False
  let ?n = "header_word (take 4 (rx t))"
  obtain t1 where h: "read_exact ops t 4 = (t1, Some (take 4 (rx t)))" "healthy t1"
    using read_healthy [OF assms, of 4] False by auto
  have r1: "rx t1 = drop 4 (rx t)" using read_rest [OF assms, of 4] False h by simp
  have cap: "of_nat kMaxFrame < ?n \<longleftrightarrow> kMaxFrame < unat ?n"
    by (simp add: word_less_nat_alt kMaxFrame_def)
  note facts = False h r1 cap read_tx [OF h(1)]
  show ?thesis
  proof (cases "kMaxFrame < unat ?n \<or> ?n = 0")
    case True
    with facts show ?thesis by (auto simp: read_frame_def split_frame_def Let_def)
  next
    case False
    show ?thesis
    proof (cases "unat ?n \<le> length (rx t1)")
      case True
      then obtain t2 where b: "read_exact ops t1 (unat ?n) = (t2, Some (take (unat ?n) (rx t1)))" "healthy t2"
        using read_healthy [OF h(2)] by blast
      have "rx t2 = drop (unat ?n) (rx t1)" using read_rest [OF h(2) True] b by simp
      with False True facts b read_tx [OF b(1)] show ?thesis
        by (auto simp: read_frame_def split_frame_def Let_def add.commute)
    next
      case ge: False
      then obtain t2 where b: "read_exact ops t1 (unat ?n) = (t2, None)" "healthy t2"
        using read_closed [OF h(2), of "unat ?n"] by auto
      with False ge facts b read_tx [OF b(1)] show ?thesis
        by (auto simp: read_frame_def split_frame_def Let_def)
    qed
  qed
qed

lemma write_frames_tx:
  "healthy t \<Longrightarrow> list_all frame_ok ps \<Longrightarrow> tx (write_frames ops t ps) = tx t @ frames_bytes ps"
proof (induction ps arbitrary: t)
  case (Cons p ps)
  obtain t' where "write_frame ops t p = (t', None)" "tx t' = tx t @ frame_bytes p" "healthy t'"
    using write_frame_ok [OF Cons.prems(1), of p] Cons.prems(2) by auto
  then show ?case using Cons by (simp add: frames_bytes_def)
qed (simp add: frames_bytes_def)

lemma read_frames_rx:
  "healthy t \<Longrightarrow> list_all frame_ok ps \<Longrightarrow> rx t = frames_bytes ps @ tail \<Longrightarrow>
     \<exists>t'. healthy t' \<and> rx t' = tail \<and> read_frames ops t (length ps + n) = map Frame ps @ read_frames ops t' n"
proof (induction ps arbitrary: t)
  case (Cons p ps)
  obtain t' where t': "read_frame ops t = (t', Frame p)" "rx t' = frames_bytes ps @ tail" "healthy t'"
    using read_frame_bytes [OF Cons.prems(1), of p "frames_bytes ps @ tail"] Cons.prems
    by (auto simp: frames_bytes_def)
  then show ?case using Cons.IH [OF t'(3) _ t'(2)] Cons.prems(2) by auto
qed (auto simp: frames_bytes_def)

end

section \<open>Properties\<close>

text \<open>
  Framing round trip: any sequence of payloads of at most 8 MiB written on one end of a
  connection is read back on the other end, frame by frame and in order, and then the close is
  seen as a clean end, however the bytes were split on the way.
\<close>

theorem frames_roundtrip:
  assumes "list_all frame_ok ps" "sock_healthy a" "sent a = []" "pipe_healthy b"
    "conn_rx b = sent (write_frames socket_transport a ps)"
  shows "read_frames pipe_transport b (length ps + 1) = map Frame ps @ [Eof]"
proof -
  have "conn_rx b = frames_bytes ps @ []"
    using sock.write_frames_tx [OF assms(2,1)] assms(3,5) by simp
  then obtain t' where t': "pipe_healthy t'" "conn_rx t' = []"
      "read_frames pipe_transport b (length ps + 1) = map Frame ps @ read_frames pipe_transport t' 1"
    using pipe.read_frames_rx [OF assms(4,1)] by blast
  with pipe.read_frame_refines [OF t'(1)] show ?thesis
    by (simp add: split_frame_def split: prod.splits)
qed

theorem frames_roundtrip_witness:
  "read_frames pipe_transport
     \<lparr>handle = 9, rxq = [Data (frames_bytes [''{}'', [], ''[1]''])], txq = [], sent = []\<rparr> 4
     = [Frame ''{}'', Frame [], Frame ''[1]'', Eof]"
proof -
  let ?a = "\<lparr>handle = 3, rxq = [], txq = [Accept 2, SInterrupted], sent = []\<rparr>"
  let ?b = "\<lparr>handle = 9, rxq = [Data (frames_bytes [''{}'', [], ''[1]''])], txq = [], sent = []\<rparr>"
  have ok: "list_all frame_ok [''{}'', [], ''[1]'']" by (simp add: frame_ok_def kMaxFrame_def)
  have h: "sock_healthy ?a" by (simp add: sock_healthy_def)
  have b: "pipe_healthy ?b"
    by (simp add: pipe_healthy_def sock_healthy_def frames_bytes_def frame_bytes_def)
  have "conn_rx ?b = sent (write_frames socket_transport ?a [''{}'', [], ''[1]''])"
    using sock.write_frames_tx [OF h ok] by (simp add: conn_rx_def)
  from frames_roundtrip [OF ok h _ b this] show ?thesis by (simp add: eval_nat_numeral)
qed

text \<open>
  C30. \<open>read_frame\<close> is exactly its specification on every byte stream: no header means a clean
  end, a length above the cap and a truncated body are errors, anything else is the payload and
  consumes exactly its bytes.  (A stream that ends inside the header is a clean end too.)
\<close>

theorem read_frame_spec:
  assumes "sock_healthy t"
  shows "snd (read_frame socket_transport t) = split_frame (conn_rx t)
         \<and> sock_healthy (fst (read_frame socket_transport t))
         \<and> (\<forall>p. split_frame (conn_rx t) = Frame p \<longrightarrow>
              conn_rx (fst (read_frame socket_transport t)) = drop (4 + length p) (conn_rx t))"
  using sock.read_frame_refines [OF assms] by blast

theorem read_frame_spec_witness:
  "snd (read_frame socket_transport \<lparr>handle = 3, rxq = [Data [CHR 0x01, CHR 0x00]], txq = [], sent = []\<rparr>) = Eof
   \<and> snd (read_frame socket_transport
            \<lparr>handle = 3, rxq = [Data [CHR 0x02, CHR 0x00, CHR 0x00, CHR 0x00], Data ''x''], txq = [], sent = []\<rparr>)
       = Err ''truncated frame body''"
  using read_frame_spec [of "\<lparr>handle = 3, rxq = [Data [CHR 0x01, CHR 0x00]], txq = [], sent = []\<rparr>"]
    read_frame_spec [of "\<lparr>handle = 3, rxq = [Data [CHR 0x02, CHR 0x00, CHR 0x00, CHR 0x00], Data ''x''], txq = [], sent = []\<rparr>"]
  by (simp add: sock_healthy_def conn_rx_def split_frame_def header_word_def byte_of_def kMaxFrame_def)

text \<open>
  \<open>write_frame\<close> on any transport state, healthy or not: what has reached the peer is a prefix
  of the frame, the whole frame when the call succeeds, and nothing at all when the payload is
  over the cap, which is an error.
\<close>

theorem write_frame_safe:
  assumes "write_frame socket_transport t p = (t', r)"
  shows "(\<exists>k. sent t' = sent t @ take k (frame_bytes p))
         \<and> (r = None \<longrightarrow> sent t' = sent t @ frame_bytes p)
         \<and> (\<not> frame_ok p \<longrightarrow> t' = t \<and> r = Some ''frame exceeds 8 MiB cap'')"
  using sock.write_frame_tx [OF assms] assms by (auto simp: write_frame_def frame_ok_def)

theorem write_frame_safe_witness:
  "\<exists>k. sent (fst (write_frame socket_transport
                  \<lparr>handle = 3, rxq = [], txq = [Accept 2, SFailed], sent = []\<rparr> ''ab''))
        = take k (frame_bytes ''ab'')"
  using write_frame_safe [of "\<lparr>handle = 3, rxq = [], txq = [Accept 2, SFailed], sent = []\<rparr>" "''ab''",
      OF prod.collapse [symmetric]]
  by simp

end
