(* ===== verification/Server.thy ===== *)
theory Server
  imports Json Frame
begin

text \<open>
  The dispatch server of the launcher protocol (\<^verbatim>\<open>src/src/ipc/server.h\<close>, \<^verbatim>\<open>src/src/ipc/server.cpp\<close>)
  and the helpers of \<^verbatim>\<open>src/src/ipc/ipc.cpp\<close>.  A method handler is a function of the parameters and
  of the state the handlers share; it returns the result with the error code and message it set.
  \<^verbatim>\<open>Server::run\<close> is a loop that may never end (the peer may never close), so it is a partial
  function, and the theorems prove that it does return once the peer has closed.
\<close>

section \<open>Messages\<close>

definition kProtocolVersion :: int where
  "kProtocolVersion = 1"

text \<open>\<^verbatim>\<open>ipc_token_from_args\<close>.\<close>

fun ipc_token_from_args :: "string list \<Rightarrow> string" where
  "ipc_token_from_args [] = []"
| "ipc_token_from_args [a] = []"
| "ipc_token_from_args (a # b # rest) =
     (if a = ''--ipc'' then b else ipc_token_from_args (b # rest))"

type_synonym 's handler = "jvalue \<Rightarrow> 's \<Rightarrow> (jvalue \<times> string \<times> string) \<times> 's"
type_synonym 's handlers = "'s handler omap"

text \<open>\<^verbatim>\<open>Server::on\<close>.\<close>

definition on :: "string \<Rightarrow> 's handler \<Rightarrow> 's handlers \<Rightarrow> 's handlers" where
  "on name h hs = map_put name h hs"

definition hello_msg :: "string \<Rightarrow> jvalue" where
  "hello_msg engine_version =
     obj [(''kind'', JStr ''hello''), (''protocolVersion'', JNum (double_of_int kProtocolVersion)),
          (''engineVersion'', JStr engine_version)]"

definition event_msg :: "string \<Rightarrow> jvalue \<Rightarrow> jvalue" where
  "event_msg event data = obj [(''kind'', JStr ''event''), (''event'', JStr event), (''data'', data)]"

definition response :: "64 word \<Rightarrow> jvalue \<Rightarrow> string \<Rightarrow> string \<Rightarrow> jvalue" where
  "response i result ecode emsg =
     (let r = [(''kind'', JStr ''res''), (''id'', JNum (double_of_int (uint i)))]
      in if ecode = [] then obj (r @ [(''ok'', JBool True), (''result'', result)])
         else obj (r @ [(''ok'', JBool False),
                        (''error'', obj [(''code'', JStr ecode), (''message'', JStr emsg)])]))"

section \<open>Handshake, events, dispatch\<close>

text \<open>The handshake returns the error text, or \<^term>\<open>None\<close> when the versions agree.\<close>

definition check_hello :: "bytes \<Rightarrow> string option" where
  "check_hello raw =
     (case parse raw of
        None \<Rightarrow> Some ''malformed handshake frame''
      | Some peer \<Rightarrow>
          if \<not> is_object peer then Some ''malformed handshake frame''
          else if get_str ''kind'' [] peer \<noteq> ''hello''
          then Some (''expected hello, got '' @ [CHR 0x27] @ get_str ''kind'' [] peer @ [CHR 0x27])
          else
            let peer_ver = cast_int (get_num ''protocolVersion'' (double_of_int (- 1)) peer)
            in if peer_ver \<noteq> kProtocolVersion
               then Some (''protocol version mismatch (engine '' @ to_string kProtocolVersion
                            @ '', launcher '' @ to_string peer_ver @ '')'')
               else None)"

definition handshake :: "string \<Rightarrow> 't itransport \<Rightarrow> 't \<Rightarrow> 't \<times> string option" where
  "handshake engine_version ops t =
     (case write_frame ops t (dump (hello_msg engine_version)) of
        (t1, Some e) \<Rightarrow> (t1, Some e)
      | (t1, None) \<Rightarrow>
          (case read_frame ops t1 of
             (t2, Eof) \<Rightarrow> (t2, Some ''connection closed before handshake'')
           | (t2, Err e) \<Rightarrow> (t2, Some e)
           | (t2, Frame raw) \<Rightarrow> (t2, check_hello raw)))"

definition emit :: "'t itransport \<Rightarrow> 't \<Rightarrow> string \<Rightarrow> jvalue \<Rightarrow> 't" where
  "emit ops t event data = fst (write_frame ops t (dump (event_msg event data)))"

text \<open>One iteration of \<^verbatim>\<open>Server::run\<close> between the read and the write: the response, if the frame is
  a request.\<close>

definition dispatch :: "'s handlers \<Rightarrow> bytes \<Rightarrow> 's \<Rightarrow> jvalue option \<times> 's" where
  "dispatch hs raw s =
     (case parse raw of
        None \<Rightarrow> (None, s)
      | Some msg \<Rightarrow>
          if \<not> is_object msg then (None, s)
          else if get_str ''kind'' [] msg \<noteq> ''req'' then (None, s)
          else
            let i = cast_u64 (get_num ''id'' (double_of_int 0) msg);
                meth = get_str ''method'' [] msg;
                params = (case jfind ''params'' msg of Some p \<Rightarrow> p | None \<Rightarrow> jobject)
            in (case map_of hs meth of
                  None \<Rightarrow>
                    (Some (response i JNull ''unsupported_method'' (''unknown method: '' @ meth)), s)
                | Some h \<Rightarrow>
                    (case h params s of
                       ((result, ecode, emsg), s') \<Rightarrow> (Some (response i result ecode emsg), s'))))"

text \<open>\<^verbatim>\<open>Server::run\<close>: the outcome is \<^term>\<open>None\<close> on a clean end and the error text otherwise.\<close>

partial_function (option) run ::
  "'t itransport \<Rightarrow> 's handlers \<Rightarrow> 't \<Rightarrow> 's \<Rightarrow> ('t \<times> 's \<times> string option) option" where
  "run ops hs t s =
     (case read_frame ops t of
        (t1, Eof) \<Rightarrow> Some (t1, s, None)
      | (t1, Err e) \<Rightarrow> Some (t1, s, Some e)
      | (t1, Frame raw) \<Rightarrow>
          (case dispatch hs raw s of
             (None, s') \<Rightarrow> run ops hs t1 s'
           | (Some res, s') \<Rightarrow>
               (case write_frame ops t1 (dump res) of
                  (t2, Some e) \<Rightarrow> Some (t2, s', Some e)
                | (t2, None) \<Rightarrow> run ops hs t2 s')))"

text \<open>The specification of the loop: the responses to a sequence of frames, and the final state.\<close>

primrec serve :: "'s handlers \<Rightarrow> bytes list \<Rightarrow> 's \<Rightarrow> jvalue list \<times> 's" where
  "serve hs [] s = ([], s)"
| "serve hs (raw # ps) s =
     (case dispatch hs raw s of
        (r, s') \<Rightarrow> (case serve hs ps s' of
                     (rs, s'') \<Rightarrow> ((case r of None \<Rightarrow> rs | Some res \<Rightarrow> res # rs), s'')))"

text \<open>A frame that is a request, and the id a response to it carries.\<close>

definition request_of :: "bytes \<Rightarrow> jvalue option" where
  "request_of raw =
     (case parse raw of
        Some msg \<Rightarrow> if is_object msg \<and> get_str ''kind'' [] msg = ''req'' then Some msg else None
      | None \<Rightarrow> None)"

definition echoed_id :: "jvalue \<Rightarrow> double" where
  "echoed_id msg = double_of_int (uint (cast_u64 (get_num ''id'' (double_of_int 0) msg)))"

text \<open>What every handler preserves holds when the loop returns.\<close>

lemma run_preserves:
  assumes "run ops hs t s = Some (t', s', e)" "I s"
    and "\<And>m h p s. map_of hs m = Some h \<Longrightarrow> I s \<Longrightarrow> I (snd (h p s))"
  shows "I s'"
proof -
  have disp: "I (snd (dispatch hs raw s))" if "I s" for raw s
    using that assms(3) by (auto simp: dispatch_def Let_def split: option.splits prod.splits) (metis snd_conv)+
  define P where "P = (\<lambda>(ops' :: 'a itransport) hs' (t :: 'a) s (r :: 'a \<times> 'b \<times> string option). hs' = hs \<longrightarrow> I s \<longrightarrow> I (fst (snd r)))"
  have "P ops hs t s (t', s', e)"
  proof (rule run.raw_induct [OF _ assms(1)])
    fix f ops' hs' t s r
    assume IH: "\<And>ops' hs' t s r. f ops' hs' t s = Some r \<Longrightarrow> P ops' hs' t s r"
      and r: "(case read_frame ops' t of
          (t1, Frame raw) \<Rightarrow>
            (case dispatch hs' raw s of
               (None, s') \<Rightarrow> f ops' hs' t1 s'
             | (Some res, s') \<Rightarrow>
                 (case write_frame ops' t1 (dump res) of
                    (t2, None) \<Rightarrow> f ops' hs' t2 s'
                  | (t2, Some e) \<Rightarrow> Some (t2, s', Some e)))
        | (t1, Eof) \<Rightarrow> Some (t1, s, None)
        | (t1, Err e) \<Rightarrow> Some (t1, s, Some e)) = Some r"
    have "I (fst (snd r))" if hs: "hs' = hs" and s: "I s"
    proof -
      have d: "I s''" if "dispatch hs raw s = (x, s'')" for raw x s''
        using disp [OF s, of raw] that by simp
      have IH': "I (fst (snd r))" if "f ops' hs t s = Some r" "I s" for t s
        using IH [OF that(1)] that(2) by (simp add: P_def)
      show ?thesis
        using r s unfolding hs
        by (auto split: prod.splits frame_result.splits option.splits dest!: d intro: IH')
    qed
    then show "P ops' hs' t s r" by (simp add: P_def)
  qed
  then show ?thesis using assms(2) by (simp add: P_def)
qed

section \<open>One request, one response\<close>

lemma dispatch_ignored: "request_of raw = None \<Longrightarrow> dispatch hs raw s = (None, s)"
  by (auto simp: request_of_def dispatch_def split: option.splits if_splits)

lemma dispatch_request:
  assumes "request_of raw = Some msg"
  obtains result ecode emsg s' where
    "dispatch hs raw s = (Some (response (cast_u64 (get_num ''id'' (double_of_int 0) msg)) result ecode emsg), s')"
    "result = JNull \<or> (\<exists>m h p. map_of hs m = Some h \<and> result = fst (fst (h p s)))"
proof -
  have msg: "parse raw = Some msg" "is_object msg" "get_str ''kind'' [] msg = ''req''"
    using assms by (auto simp: request_of_def split: option.splits if_splits)
  let ?p = "case jfind ''params'' msg of Some p \<Rightarrow> p | None \<Rightarrow> jobject"
  show thesis
  proof (cases "map_of hs (get_str ''method'' [] msg)")
    case None
    show thesis
      by (rule that [of JNull]) (use msg None in \<open>simp_all add: dispatch_def Let_def\<close>)
  next
    case (Some h)
    obtain result ecode emsg s' where h: "h ?p s = ((result, ecode, emsg), s')"
      by (metis prod.collapse)
    then have "result = fst (fst (h ?p s))" by simp
    with Some have "\<exists>m h p. map_of hs m = Some h \<and> result = fst (fst (h p s))" by blast
    then show thesis
      by (intro that [of result ecode emsg s'] disjI2)
        (use msg Some h in \<open>auto simp: dispatch_def Let_def\<close>)
  qed
qed

lemma response_fields [simp]:
  "jfind ''kind'' (response i result ecode emsg) = Some (JStr ''res'')"
  "jfind ''id'' (response i result ecode emsg) = Some (JNum (double_of_int (uint i)))"
  "jfind ''ok'' (response i result ecode emsg) = Some (JBool (ecode = []))"
  by (simp_all add: response_def Let_def)

lemma double_of_word_representable: "representable (double_of_int (uint (i :: 64 word)))"
proof (cases "i = 0")
  case False
  then have "1 \<le> uint i" by (metis linorder_not_le uint_0_iff unsigned_greater_eq zless_add1_eq add_0 order_antisym_conv)
  moreover have "uint i < 2 ^ 1000" using uint_bounded [of i] by simp
  ultimately have "rat_of_int 1 \<le> rat_of_int (uint i)" "rat_of_int (uint i) < rat_of_int (2 ^ 1000)"
    by (simp_all only: of_int_le_iff of_int_less_iff)
  then show ?thesis
    using round_double_finite [of "rat_of_int (uint i)"] representable_round_double [of "rat_of_int (uint i)"]
    by (auto simp: double_of_int_def)
qed simp

lemma wf_response: "wf_json result \<Longrightarrow> wf_json (response i result ecode emsg)"
  by (auto simp: response_def Let_def double_of_word_representable intro!: wf_obj)

definition handlers_wf :: "'s handlers \<Rightarrow> bool" where
  "handlers_wf hs \<longleftrightarrow> (\<forall>(m, h)\<in>set hs. \<forall>p s. wf_json (fst (fst (h p s))))"

lemma serve_responses:
  "handlers_wf hs \<Longrightarrow>
     map (jfind ''id'') (fst (serve hs ps s)) = map (Some \<circ> JNum \<circ> echoed_id) (List.map_filter request_of ps)
     \<and> list_all (\<lambda>r. wf_json r \<and> jfind ''kind'' r = Some (JStr ''res'')) (fst (serve hs ps s))"
proof (induction ps arbitrary: s)
  case (Cons raw ps)
  show ?case
  proof (cases "request_of raw")
    case None
    moreover obtain rs s' where "serve hs ps s = (rs, s')" by force
    ultimately show ?thesis using Cons.IH [OF Cons.prems, of s]
      by (simp add: dispatch_ignored List.map_filter_simps)
  next
    case (Some msg)
    obtain result ecode emsg s' where
      d: "dispatch hs raw s = (Some (response (cast_u64 (get_num ''id'' (double_of_int 0) msg)) result ecode emsg), s')"
      and "result = JNull \<or> (\<exists>m h p. map_of hs m = Some h \<and> result = fst (fst (h p s)))"
      using dispatch_request [OF Some] .
    then have "wf_json result"
      using Cons.prems by (fastforce simp: handlers_wf_def dest: map_of_SomeD)
    moreover obtain rs s'' where "serve hs ps s' = (rs, s'')" by force
    ultimately show ?thesis using Some d Cons.IH [OF Cons.prems, of s']
      by (simp add: List.map_filter_simps echoed_id_def wf_response)
  qed
qed (simp add: List.map_filter_simps)

section \<open>The loop\<close>

definition stream_error :: "bytes \<Rightarrow> string option" where
  "stream_error bs = (case split_frame bs of Err e \<Rightarrow> Some e | _ \<Rightarrow> None)"

context transport
begin

lemma run_serves:
  "healthy t \<Longrightarrow> list_all frame_ok ps \<Longrightarrow> rx t = frames_bytes ps @ tail \<Longrightarrow> (\<And>p. split_frame tail \<noteq> Frame p) \<Longrightarrow>
     list_all (frame_ok \<circ> dump) (fst (serve hs ps s)) \<Longrightarrow>
     \<exists>t'. run ops hs t s = Some (t', snd (serve hs ps s), stream_error tail) \<and> healthy t'
        \<and> tx t' = tx t @ frames_bytes (map dump (fst (serve hs ps s)))"
proof (induction ps arbitrary: t s)
  case Nil
  then have "split_frame (rx t) = split_frame tail" by (simp add: frames_bytes_def)
  with Nil read_frame_refines [OF Nil.prems(1)] show ?case
    by (subst run.simps)
      (auto simp: stream_error_def frames_bytes_def split: prod.splits frame_result.splits)
next
  case (Cons raw ps)
  obtain t1 where t1: "read_frame ops t = (t1, Frame raw)" "rx t1 = frames_bytes ps @ tail" "healthy t1" "tx t1 = tx t"
    using read_frame_bytes [OF Cons.prems(1), of raw "frames_bytes ps @ tail"] Cons.prems
    by (auto simp: frames_bytes_def)
  obtain r s' where d: "dispatch hs raw s = (r, s')" by force
  show ?case
  proof (cases r)
    case None
    have "\<exists>t'. run ops hs t1 s' = Some (t', snd (serve hs ps s'), stream_error tail) \<and> healthy t'
            \<and> tx t' = tx t1 @ frames_bytes (map dump (fst (serve hs ps s')))"
      using Cons.prems t1 d None by (intro Cons.IH) (auto split: prod.splits)
    with d t1 None show ?thesis by (subst run.simps) (auto split: prod.splits)
  next
    case (Some res)
    then have "frame_ok (dump res)" using Cons.prems(5) d by (auto split: prod.splits)
    then obtain t2 where t2: "write_frame ops t1 (dump res) = (t2, None)"
        "tx t2 = tx t1 @ frame_bytes (dump res)" "rx t2 = rx t1" "healthy t2"
      using write_frame_ok [OF t1(3)] by blast
    have "\<exists>t'. run ops hs t2 s' = Some (t', snd (serve hs ps s'), stream_error tail) \<and> healthy t'
            \<and> tx t' = tx t2 @ frames_bytes (map dump (fst (serve hs ps s')))"
      using Cons.prems t1 t2 d Some by (intro Cons.IH) (auto split: prod.splits)
    with d t1 t2 Some show ?thesis
      by (subst run.simps) (auto simp: frames_bytes_def split: prod.splits)
  qed
qed

text \<open>Every iteration consumes a frame, so on a stream that ends the loop ends, whatever it holds.\<close>

lemma run_terminates: "healthy t \<Longrightarrow> \<exists>r. run ops hs t s = Some r"
proof (induction "length (rx t)" arbitrary: t s rule: less_induct)
  case less
  note rf = read_frame_refines [OF less.prems]
  obtain t1 f where f: "read_frame ops t = (t1, f)" by force
  show ?case
  proof (cases f)
    case (Frame raw)
    then have "rx t1 = drop (4 + length raw) (rx t)" "4 \<le> length (rx t)" "healthy t1"
      using rf f by (auto simp: split_frame_def Let_def split: if_splits)
    then have shorter: "length (rx t1) < length (rx t)" and "healthy t1" by auto
    obtain r s' where d: "dispatch hs raw s = (r, s')" by force
    show ?thesis
    proof (cases r)
      case None
      with f Frame d less.hyps [OF shorter \<open>healthy t1\<close>] show ?thesis by (subst run.simps) simp
    next
      case (Some res)
      show ?thesis
      proof (cases "frame_ok (dump res)")
        case True
        then obtain t2 where "write_frame ops t1 (dump res) = (t2, None)" "rx t2 = rx t1" "healthy t2"
          using write_frame_ok [OF \<open>healthy t1\<close>] by metis
        with f Frame d Some less.hyps [of t2] shorter show ?thesis by (subst run.simps) simp
      next
        case False
        then show ?thesis
          using f Frame d Some by (subst run.simps) (simp add: write_frame_def frame_ok_def)
      qed
    qed
  qed (use f in \<open>subst run.simps, simp\<close>)+
qed

lemma handshake_spec:
  assumes "healthy t" "frame_ok (dump (hello_msg v))"
  shows "snd (handshake v ops t) =
           (case split_frame (rx t) of Eof \<Rightarrow> Some ''connection closed before handshake''
            | Err e \<Rightarrow> Some e | Frame raw \<Rightarrow> check_hello raw)
         \<and> tx (fst (handshake v ops t)) = tx t @ frame_bytes (dump (hello_msg v))
         \<and> healthy (fst (handshake v ops t))"
proof -
  obtain t1 where t1: "write_frame ops t (dump (hello_msg v)) = (t1, None)"
      "tx t1 = tx t @ frame_bytes (dump (hello_msg v))" "rx t1 = rx t" "healthy t1"
    using write_frame_ok [OF assms] .
  with read_frame_refines [OF t1(4)] show ?thesis
    by (auto simp: handshake_def split: prod.splits frame_result.splits)
qed

end

section \<open>Properties of the server\<close>

text \<open>
  C3. The loop refines its specification and ends.  On a healthy connection whose bytes are the
  frames \<open>ps\<close> and a rest that starts no frame, \<open>run\<close> returns; the handlers' state is that of
  serving \<open>ps\<close> in order, the bytes sent are exactly the responses of the specification, each in
  its own frame, and the outcome is clean if the rest is a clean end and its error otherwise.
\<close>

theorem server_run_refines:
  assumes "sock_healthy t" "list_all frame_ok ps" "conn_rx t = frames_bytes ps @ tail"
    "\<And>p. split_frame tail \<noteq> Frame p" "list_all (frame_ok \<circ> dump) (fst (serve hs ps s))"
  shows "\<exists>t'. run socket_transport hs t s = Some (t', snd (serve hs ps s), stream_error tail)
           \<and> sent t' = sent t @ frames_bytes (map dump (fst (serve hs ps s)))"
  using sock.run_serves [OF assms] by blast

theorem server_run_refines_witness:
  "\<exists>t'. run socket_transport ([] :: unit handlers)
          \<lparr>handle = 3, rxq = [Data (frame_bytes ''[]''), Data (frame_bytes ''{}'')], txq = [], sent = []\<rparr> ()
        = Some (t', (), None) \<and> sent t' = []"
proof -
  have p: "parse ''[]'' = Some (JArr [])" "parse ''{}'' = Some (JObj [])" by code_simp+
  have d: "dispatch ([] :: unit handlers) ''[]'' () = (None, ())"
      "dispatch ([] :: unit handlers) ''{}'' () = (None, ())"
    by (simp_all add: dispatch_def p get_str_def)
  have ok: "list_all frame_ok [''[]'', ''{}'']" by (simp add: frame_ok_def kMaxFrame_def)
  show ?thesis
    using server_run_refines [OF _ ok, of "\<lparr>handle = 3, rxq = [Data (frame_bytes ''[]''), Data (frame_bytes ''{}'')], txq = [], sent = []\<rparr>"
        "[]" "[]" "()"]
    by (simp add: d sock_healthy_def conn_rx_def frames_bytes_def frame_bytes_def split_frame_def stream_error_def)
qed

text \<open>
  Exactly one response per request, in order, with the request's id: whatever frames arrive,
  the responses are well-formed objects of kind \<^verbatim>\<open>res\<close> that parse back on the launcher's side,
  and their ids are those of the requests among the frames, in the order of arrival; frames that
  are no requests get none.
\<close>

theorem server_one_response_each:
  assumes "handlers_wf hs"
  shows "map (\<lambda>r. map_option (jfind ''id'') (parse (dump r))) (fst (serve hs ps s))
           = map (\<lambda>msg. Some (Some (JNum (echoed_id msg)))) (List.map_filter request_of ps)
         \<and> (\<forall>r\<in>set (fst (serve hs ps s)). jfind ''kind'' r = Some (JStr ''res''))"
proof -
  note sr = serve_responses [OF assms, of ps s]
  have "map (\<lambda>r. map_option (jfind ''id'') (parse (dump r))) (fst (serve hs ps s))
          = map (\<lambda>r. Some (jfind ''id'' r)) (fst (serve hs ps s))"
    using sr by (intro map_cong refl) (simp add: parse_dump list_all_iff)
  also have "\<dots> = map Some (map (jfind ''id'') (fst (serve hs ps s)))" by simp
  also have "\<dots> = map (\<lambda>msg. Some (Some (JNum (echoed_id msg)))) (List.map_filter request_of ps)"
    using sr by simp
  finally show ?thesis using sr unfolding list_all_iff by blast
qed

theorem server_one_response_each_witness:
  "map (\<lambda>r. map_option (jfind ''id'') (parse (dump r)))
     (fst (serve ([] :: unit handlers) [dump (obj [(''kind'', JStr ''req''), (''id'', JNum (double_of_int 7))]), dump JNull] ()))
   = [Some (Some (JNum (Fin 7)))]"
proof -
  have r: "request_of (dump (obj [(''kind'', JStr ''req''), (''id'', JNum (double_of_int 7))]))
             = Some (obj [(''kind'', JStr ''req''), (''id'', JNum (double_of_int 7))])" "request_of (dump JNull) = None"
    by (simp_all add: request_of_def parse_dump wf_obj)
  have "cast_u64 (Fin 7) = 7" using cast_u64_of_nat [of 7] by simp
  then have "echoed_id (obj [(''kind'', JStr ''req''), (''id'', JNum (double_of_int 7))]) = Fin 7"
    by (simp add: echoed_id_def double_of_int_small)
  then show ?thesis
    using server_one_response_each [of "[] :: unit handlers"
        "[dump (obj [(''kind'', JStr ''req''), (''id'', JNum (double_of_int 7))]), dump JNull]" "()"]
    by (simp add: r handlers_wf_def List.map_filter_simps)
qed

text \<open>
  Request ids below nine million billion are echoed verbatim: they survive the passage through
  the double of the JSON value, the conversion to \<^verbatim>\<open>uint64_t\<close> and back, and the response prints
  them as the same decimal digits.
\<close>

theorem request_id_verbatim:
  assumes "get_num ''id'' (double_of_int 0) msg = Fin (of_nat n)" "n < 9 * 10 ^ 15"
  shows "echoed_id msg = Fin (of_nat n) \<and> dump_num (echoed_id msg) = to_string (int n)"
proof -
  have "cast_u64 (Fin (of_nat n)) = of_nat n" using assms(2) by (intro cast_u64_of_nat) simp
  moreover have "uint (of_nat n :: 64 word) = int n"
    using assms(2) by (simp add: uint_nat unat_of_nat)
  ultimately have e: "echoed_id msg = double_of_int (int n)" using assms(1) by (simp add: echoed_id_def)
  have "double_of_int (int n) = Fin (of_nat n)" using assms(2) double_of_int_small [of "int n"] by simp
  with e show ?thesis using dump_num_int [of "int n"] assms(2) by simp
qed

theorem request_id_verbatim_witness:
  "echoed_id (obj [(''id'', JNum (Fin 42))]) = Fin 42"
  using request_id_verbatim [of "obj [(''id'', JNum (Fin 42))]" 42] by simp

lemma check_hello_iff:
  "check_hello raw = None \<longleftrightarrow>
     (\<exists>peer. parse raw = Some peer \<and> is_object peer \<and> get_str ''kind'' [] peer = ''hello''
        \<and> cast_int (get_num ''protocolVersion'' (double_of_int (- 1)) peer) = kProtocolVersion)"
  by (auto simp: check_hello_def Let_def split: option.splits if_splits)

lemma length_escape_to: "length (escape_to s) \<le> 6 * length s + 2"
proof -
  have "length (escape_char c) \<le> 6" for c by simp
  then have "length (concat (map escape_char s)) \<le> 6 * length s"
    by (induction s) (auto simp del: escape_char.simps simp: add_mono)
  then show ?thesis by (simp add: escape_to_def)
qed

lemma hello_frame_ok:
  assumes "length v \<le> 1000000" shows "frame_ok (dump (hello_msg v))"
proof -
  have one: "dump_num (double_of_int 1) = ''1''"
  proof -
    have "to_string 1 = ''1''" by code_simp
    then show ?thesis using dump_num_int [of 1] by simp
  qed
  have "dump (hello_msg v) =
      ''{'' @ escape_to ''engineVersion'' @ '':'' @ escape_to v @ '','' @ escape_to ''kind'' @ '':''
        @ escape_to ''hello'' @ '','' @ escape_to ''protocolVersion'' @ '':'' @ dump_num (double_of_int 1) @ ''}''"
    by (simp add: dump_def hello_msg_def obj_def kProtocolVersion_def less_char_def)
  then have "length (dump (hello_msg v)) = length (escape_to ''engineVersion'') + length (escape_to v)
      + length (escape_to ''kind'') + length (escape_to ''hello'') + length (escape_to ''protocolVersion'') + 8"
    by (simp add: one)
  then show ?thesis
    using assms length_escape_to [of "''engineVersion''"] length_escape_to [of v]
      length_escape_to [of "''kind''"] length_escape_to [of "''hello''"] length_escape_to [of "''protocolVersion''"]
    by (simp add: frame_ok_def kMaxFrame_def)
qed

text \<open>
  The handshake, in every case: the engine first sends its own hello and nothing else; the
  outcome is then a function of the peer's first frame, and it succeeds exactly when that frame is
  an object of kind \<^verbatim>\<open>hello\<close> whose protocol version, truncated to an integer, is the engine's.
\<close>

theorem handshake_decides:
  assumes "sock_healthy t" "frame_ok (dump (hello_msg v))"
  shows "sent (fst (handshake v socket_transport t)) = sent t @ frame_bytes (dump (hello_msg v))
         \<and> (snd (handshake v socket_transport t) = None \<longleftrightarrow>
              (\<exists>raw peer. split_frame (conn_rx t) = Frame raw \<and> parse raw = Some peer \<and> is_object peer
                 \<and> get_str ''kind'' [] peer = ''hello''
                 \<and> cast_int (get_num ''protocolVersion'' (double_of_int (- 1)) peer) = kProtocolVersion))"
  using sock.handshake_spec [OF assms]
  by (auto simp: check_hello_iff split: frame_result.splits)

theorem handshake_decides_witness:
  "snd (handshake ''1.0'' socket_transport
          \<lparr>handle = 3, rxq = [Data [CHR 0x02, CHR 0x00, CHR 0x00, CHR 0x00, CHR ''['', CHR '']'']], txq = [], sent = []\<rparr>) \<noteq> None"
proof -
  let ?t = "\<lparr>handle = 3, rxq = [Data [CHR 0x02, CHR 0x00, CHR 0x00, CHR 0x00, CHR ''['', CHR '']'']], txq = [], sent = []\<rparr>"
  have f: "split_frame (conn_rx ?t) = Frame ''[]''"
    by (simp add: split_frame_def conn_rx_def header_word_def byte_of_def kMaxFrame_def)
  have p: "parse ''[]'' = Some (JArr [])" by code_simp
  have d: "frame_ok (dump (hello_msg ''1.0''))" by (rule hello_frame_ok) simp
  show ?thesis using handshake_decides [of ?t "''1.0''"]
    by (simp add: f p sock_healthy_def d)
qed

text \<open>
  Two engines agree: the hello one side sends is accepted by the handshake of the other,
  whatever engine versions they announce.
\<close>

lemma handshake_accepts_hello: "check_hello (dump (hello_msg v)) = None"
proof -
  have "wf_json (hello_msg v)" by (auto simp: hello_msg_def kProtocolVersion_def)
  then have "parse (dump (hello_msg v)) = Some (hello_msg v)" by (rule parse_dump)
  then show ?thesis
    by (simp add: check_hello_iff) (simp add: hello_msg_def kProtocolVersion_def cast_int_double_of_int)
qed
section \<open>Concurrent writers\<close>

text \<open>
  \<^verbatim>\<open>Server::write_locked\<close> under concurrency.  The thread of \<^verbatim>\<open>run\<close> writes responses while the
  stream's worker thread writes events through \<^verbatim>\<open>emit\<close>.  Each thread works through its payloads:
  it takes the mutex, hands its frame to the transport in any number of pieces (\<open>write_all\<close> makes
  one call for the header and one for the body, each of which may take several system calls), and
  releases the mutex.  A failed call ends the connection.  Only \<open>Acquire\<close> and \<open>Oversize\<close> look at
  the mutex, as in the code; \<open>acked\<close> records the frames written, with the writer.
\<close>

record writers =
  mutex :: "nat option"
  todo :: "nat \<Rightarrow> bytes list"
  frame_left :: "nat \<Rightarrow> (bytes \<times> bytes) option"
  wire :: bytes
  alive :: bool
  acked :: "(nat \<times> bytes) list"

inductive write_locked :: "writers \<Rightarrow> writers \<Rightarrow> bool" where
  Acquire: "mutex w = None \<Longrightarrow> todo w i = p # ps \<Longrightarrow> frame_ok p \<Longrightarrow>
     write_locked w (w\<lparr>mutex := Some i, todo := (todo w)(i := ps),
                       frame_left := (frame_left w)(i := Some (p, frame_bytes p))\<rparr>)"
| Oversize: "mutex w = None \<Longrightarrow> todo w i = p # ps \<Longrightarrow> \<not> frame_ok p \<Longrightarrow>
     write_locked w (w\<lparr>todo := (todo w)(i := ps)\<rparr>)"
| Send: "frame_left w i = Some (p, bs) \<Longrightarrow> alive w \<Longrightarrow> k \<le> length bs \<Longrightarrow>
     write_locked w (w\<lparr>wire := wire w @ take k bs, frame_left := (frame_left w)(i := Some (p, drop k bs))\<rparr>)"
| Release: "frame_left w i = Some (p, []) \<Longrightarrow>
     write_locked w (w\<lparr>mutex := None, frame_left := (frame_left w)(i := None), acked := acked w @ [(i, p)]\<rparr>)"
| Fail: "frame_left w i = Some (p, bs) \<Longrightarrow> bs \<noteq> [] \<Longrightarrow>
     write_locked w (w\<lparr>mutex := None, frame_left := (frame_left w)(i := None), alive := False\<rparr>)"

inductive_cases write_locked_cases: "write_locked w w'"

definition start_writers :: "(nat \<Rightarrow> bytes list) \<Rightarrow> writers" where
  "start_writers jobs = \<lparr>mutex = None, todo = jobs, frame_left = (\<lambda>_. None), wire = [], alive = True, acked = []\<rparr>"

definition in_progress :: "writers \<Rightarrow> nat \<Rightarrow> bytes list" where
  "in_progress w i = (case frame_left w i of None \<Rightarrow> [] | Some (p, _) \<Rightarrow> [p])"

definition acked_by :: "nat \<Rightarrow> writers \<Rightarrow> bytes list" where
  "acked_by i w = map snd (filter (\<lambda>a. fst a = i) (acked w))"

text \<open>Mutual exclusion, and what the wire holds.\<close>

definition exclusive :: "writers \<Rightarrow> bool" where
  "exclusive w \<longleftrightarrow> (\<forall>i x. frame_left w i = Some x \<longrightarrow> mutex w = Some i)"

definition wire_ok :: "writers \<Rightarrow> bool" where
  "wire_ok w \<longleftrightarrow> (alive w \<longrightarrow>
     (case mutex w of
        None \<Rightarrow> wire w = frames_bytes (map snd (acked w))
      | Some i \<Rightarrow> (\<exists>p bs part. frame_left w i = Some (p, bs) \<and> part @ bs = frame_bytes p
                      \<and> wire w = frames_bytes (map snd (acked w)) @ part)))"

definition fair_order :: "(nat \<Rightarrow> bytes list) \<Rightarrow> writers \<Rightarrow> bool" where
  "fair_order jobs w \<longleftrightarrow> (alive w \<longrightarrow>
     (\<forall>i. acked_by i w @ in_progress w i @ filter frame_ok (todo w i) = filter frame_ok (jobs i)))"

definition acked_ok :: "writers \<Rightarrow> bool" where
  "acked_ok w \<longleftrightarrow> list_all frame_ok (map snd (acked w)) \<and> (\<forall>i p bs. frame_left w i = Some (p, bs) \<longrightarrow> frame_ok p)"

lemma frames_bytes_snoc: "frames_bytes (ps @ [p]) = frames_bytes ps @ frame_bytes p"
  by (simp add: frames_bytes_def)

lemma holder_mutex: "exclusive w \<Longrightarrow> frame_left w i = Some x \<Longrightarrow> mutex w = Some i"
  by (auto simp: exclusive_def)

lemma exclusive_step:
  assumes "write_locked w w'" "exclusive w"
  shows "exclusive w'"
proof -
  have other: "frame_left w j = None" if "frame_left w i = Some y" "j \<noteq> i" for i j y
    using holder_mutex [OF assms(2) that(1)] holder_mutex [OF assms(2), of j] that(2)
    by (cases "frame_left w j") auto
  show ?thesis using assms(1)
  proof cases
    case (Release i p)
    then show ?thesis using other [of i] by (auto simp: exclusive_def)
  next
    case (Fail i p bs)
    then show ?thesis using other [of i] by (auto simp: exclusive_def)
  qed (use assms(2) in \<open>auto simp: exclusive_def\<close>)
qed

lemma acked_ok_step: "write_locked w w' \<Longrightarrow> acked_ok w \<Longrightarrow> acked_ok w'"
  by (erule write_locked_cases) (auto simp: acked_ok_def split: if_splits)

lemma fair_order_step:
  assumes "write_locked w w'" "exclusive w" "fair_order jobs w"
  shows "fair_order jobs w'"
proof -
  have "acked_by j w' @ in_progress w' j @ filter frame_ok (todo w' j)
          = acked_by j w @ in_progress w j @ filter frame_ok (todo w j)" if "alive w'" for j
    using assms(1)
  proof cases
    case (Acquire i p ps)
    then show ?thesis using holder_mutex [OF assms(2), of i]
      by (cases "frame_left w i") (auto simp: acked_by_def in_progress_def)
  qed (use that in \<open>auto simp: acked_by_def in_progress_def\<close>)
  moreover have "alive w" if "alive w'" using assms(1) that by cases auto
  ultimately show ?thesis using assms(3) by (auto simp: fair_order_def)
qed

lemma wire_ok_step:
  assumes "write_locked w w'" "exclusive w" "wire_ok w"
  shows "wire_ok w'"
  using assms(1)
proof cases
  case (Acquire i p ps)
  with assms(3) show ?thesis by (simp add: wire_ok_def)
next
  case (Send i p bs k)
  with assms(3) holder_mutex [OF assms(2) Send(2)] obtain part where
    "part @ bs = frame_bytes p" "wire w = frames_bytes (map snd (acked w)) @ part"
    by (auto simp: wire_ok_def)
  with Send holder_mutex [OF assms(2) Send(2)] show ?thesis
    by (auto simp: wire_ok_def intro!: exI [of _ "part @ take k bs"])
next
  case (Release i p)
  with assms(3) holder_mutex [OF assms(2) Release(2)] show ?thesis
    by (auto simp: wire_ok_def frames_bytes_snoc)
qed (use assms(3) in \<open>simp_all add: wire_ok_def\<close>)

definition writers_inv :: "(nat \<Rightarrow> bytes list) \<Rightarrow> writers \<Rightarrow> bool" where
  "writers_inv jobs w \<longleftrightarrow> exclusive w \<and> wire_ok w \<and> fair_order jobs w \<and> acked_ok w"

interpretation wr: step_invariant write_locked "writers_inv jobs" for jobs
  by unfold_locales (simp add: writers_inv_def exclusive_step wire_ok_step fair_order_step acked_ok_step)

lemma writers_inv_reachable: "write_locked\<^sup>*\<^sup>* (start_writers jobs) w \<Longrightarrow> writers_inv jobs w"
  by (erule wr.steps)
     (simp add: writers_inv_def start_writers_def exclusive_def wire_ok_def fair_order_def acked_ok_def
        acked_by_def in_progress_def frames_bytes_def)

text \<open>
  C4. Frames never interleave.  However the threads are scheduled and however the writes are cut
  up, whenever nobody is writing and the connection is alive, the bytes on the wire are a sequence
  of whole frames, which the launcher reads back one by one; each thread's payloads appear in its
  own order, none missing and none twice, except those over the cap.
\<close>

theorem writes_never_interleave:
  assumes "write_locked\<^sup>*\<^sup>* (start_writers jobs) w" "alive w" "mutex w = None"
    "sock_healthy peer" "conn_rx peer = wire w"
  shows "read_frames socket_transport peer (length (acked w)) = map (Frame \<circ> snd) (acked w)
         \<and> (\<forall>i. acked_by i w @ filter frame_ok (todo w i) = filter frame_ok (jobs i))"
proof -
  have inv: "writers_inv jobs w" using writers_inv_reachable [OF assms(1)] .
  then have wire: "conn_rx peer = frames_bytes (map snd (acked w)) @ []"
    and ok: "list_all frame_ok (map snd (acked w))"
    using assms by (simp_all add: writers_inv_def wire_ok_def acked_ok_def)
  have idle: "in_progress w i = []" for i
    using inv assms(3) by (cases "frame_left w i") (auto simp: writers_inv_def exclusive_def in_progress_def)
  have "read_frames socket_transport peer (length (acked w)) = map (Frame \<circ> snd) (acked w)"
    using sock.read_frames_rx [OF assms(4) ok wire, of 0] by auto
  moreover have "acked_by i w @ filter frame_ok (todo w i) = filter frame_ok (jobs i)" for i
    using inv assms(2) idle [of i] unfolding writers_inv_def fair_order_def by (metis append_Nil)
  ultimately show ?thesis by blast
qed

theorem writes_never_interleave_witness:
  "\<exists>w. write_locked\<^sup>*\<^sup>* (start_writers (\<lambda>i. if i = 0 then [''a''] else [])) w \<and> acked w = [(0, ''a'')]
     \<and> acked_by 0 w @ filter frame_ok (todo w 0) = [''a'']"
proof -
  let ?jobs = "\<lambda>i::nat. if i = 0 then [''a''] else []"
  let ?w0 = "start_writers ?jobs"
  let ?w1 = "?w0\<lparr>mutex := Some 0, todo := (todo ?w0)(0 := []), frame_left := (frame_left ?w0)(0 := Some (''a'', frame_bytes ''a''))\<rparr>"
  let ?w2 = "?w1\<lparr>wire := wire ?w1 @ take 5 (frame_bytes ''a''),
                 frame_left := (frame_left ?w1)(0 := Some (''a'', drop 5 (frame_bytes ''a'')))\<rparr>"
  let ?w3 = "?w2\<lparr>mutex := None, frame_left := (frame_left ?w2)(0 := None), acked := acked ?w2 @ [(0, ''a'')]\<rparr>"
  have ok: "frame_ok ''a''" by (simp add: frame_ok_def kMaxFrame_def)
  have "write_locked ?w0 ?w1" by (rule Acquire) (simp_all add: start_writers_def ok)
  moreover have "write_locked ?w1 ?w2"
    by (rule Send) (simp_all add: start_writers_def frame_bytes_def)
  moreover have "write_locked ?w2 ?w3" by (rule Release) (simp add: frame_bytes_def)
  ultimately have r: "write_locked\<^sup>*\<^sup>* ?w0 ?w3"
    by (meson converse_rtranclp_into_rtranclp rtranclp.rtrancl_refl)
  have "sock_healthy \<lparr>handle = 3, rxq = [Data (wire ?w3)], txq = [], sent = []\<rparr>"
    "conn_rx \<lparr>handle = 3, rxq = [Data (wire ?w3)], txq = [], sent = []\<rparr> = wire ?w3"
    by (simp_all add: sock_healthy_def conn_rx_def start_writers_def frame_bytes_def)
  note peer = this
  have up: "alive ?w3" "mutex ?w3 = None" by (simp_all add: start_writers_def)
  have "acked_by 0 ?w3 @ filter frame_ok (todo ?w3 0) = filter frame_ok (?jobs 0)"
    using writes_never_interleave [OF r up peer] by blast
  also have "\<dots> = [''a'']" by (simp add: ok)
  finally have "acked_by 0 ?w3 @ filter frame_ok (todo ?w3 0) = [''a'']" .
  moreover have "acked ?w3 = [(0, ''a'')]" by (simp add: start_writers_def)
  ultimately show ?thesis using r by blast
qed

section \<open>Outcomes of a request\<close>

text \<open>
  The loop always ends: once the peer has closed its end, whatever bytes it sent and whatever
  the handlers do, \<open>run\<close> returns.
\<close>

theorem server_run_terminates:
  assumes "sock_healthy t"
  shows "\<exists>r. run socket_transport hs t s = Some r"
  using sock.run_terminates [OF assms] .

theorem server_run_terminates_witness:
  "\<exists>r. run socket_transport ([] :: unit handlers)
         \<lparr>handle = 3, rxq = [Data ''garbage'', RInterrupted, Data ''more''], txq = [], sent = []\<rparr> () = Some r"
  by (rule server_run_terminates) (simp add: sock_healthy_def)

text \<open>
  The three outcomes of a request.  A method nobody registered is answered with the error
  \<^verbatim>\<open>unsupported_method\<close> and changes nothing.  A handler that sets no error code answers with its
  result; one that sets a code answers with that code and message and its result is dropped, and
  its effect on the state is kept in both cases.  The handler runs on the latest registration of
  the method and sees an empty object when the request has no parameters.
\<close>

theorem dispatch_outcomes:
  assumes "request_of raw = Some msg" "get_str ''method'' [] msg = meth"
    "params = (case jfind ''params'' msg of Some p \<Rightarrow> p | None \<Rightarrow> jobject)"
  shows "(map_of hs meth = None \<longrightarrow>
            (\<exists>res. dispatch hs raw s = (Some res, s) \<and> jfind ''ok'' res = Some (JBool False)
               \<and> jfind ''error'' res =
                   Some (obj [(''code'', JStr ''unsupported_method''), (''message'', JStr (''unknown method: '' @ meth))])))
         \<and> (\<forall>h result ecode emsg s'. h params s = ((result, ecode, emsg), s') \<longrightarrow>
            (\<exists>res. dispatch (on meth h hs) raw s = (Some res, s')
               \<and> jfind ''ok'' res = Some (JBool (ecode = []))
               \<and> jfind ''result'' res = (if ecode = [] then Some result else None)
               \<and> jfind ''error'' res =
                   (if ecode = [] then None else Some (obj [(''code'', JStr ecode), (''message'', JStr emsg)]))))"
proof -
  have msg: "parse raw = Some msg" "is_object msg" "get_str ''kind'' [] msg = ''req''"
    using assms(1) by (auto simp: request_of_def split: option.splits if_splits)
  show ?thesis
    using assms(2,3) msg by (auto simp: dispatch_def on_def Let_def response_def)
qed

theorem dispatch_outcomes_witness:
  "\<exists>res. dispatch ([] :: unit handlers) (dump (obj [(''kind'', JStr ''req''), (''method'', JStr ''x'')])) () = (Some res, ())
       \<and> jfind ''ok'' res = Some (JBool False)"
proof -
  have "request_of (dump (obj [(''kind'', JStr ''req''), (''method'', JStr ''x'')]))
          = Some (obj [(''kind'', JStr ''req''), (''method'', JStr ''x'')])"
    by (simp add: request_of_def parse_dump wf_obj)
  from dispatch_outcomes [OF this refl refl, of "[] :: unit handlers" "()"] show ?thesis by auto
qed

end
