(* ===== verification/FileSystem.thy ===== *)
theory FileSystem
  imports Prelude
begin

text \<open>
  The file operations the engine's stores use.  A file system is the contents of the files with the
  outcomes the system gives to each kind of call (opening for writing, writing, renaming onto an
  existing or a new name, removing), so that every failing branch of the sources can be taken.
  A \<^verbatim>\<open>std::ofstream\<close> buffers: when a write does not fit on the disk, the error may show at once or
  only when the stream is closed, after the sources have looked at it (\<open>late_error\<close>).
  \<^verbatim>\<open>read_file\<close> and \<^verbatim>\<open>write_file\<close> are those of \<^verbatim>\<open>src/src/net/identity_store.cpp\<close>.
\<close>

record fsys =
  files :: "string \<Rightarrow> bytes option"
  can_open :: "string \<Rightarrow> bool"
  disk_room :: "string \<Rightarrow> nat option"
  late_error :: "string \<Rightarrow> bool"
  can_replace :: "string \<Rightarrow> bool"
  can_create :: "string \<Rightarrow> bool"
  can_remove :: "string \<Rightarrow> bool"

text \<open>\<^verbatim>\<open>base / name\<close> of \<^verbatim>\<open>std::filesystem::path\<close>, for a relative name.\<close>

definition path_join :: "string \<Rightarrow> string \<Rightarrow> string" where
  "path_join base name =
     (if base = [] then name
      else if last base = CHR ''/'' then base @ name else base @ ''/'' @ name)"

definition read_file :: "fsys \<Rightarrow> string \<Rightarrow> bytes option" where
  "read_file fs p = files fs p"

text \<open>Open with \<^verbatim>\<open>trunc\<close>, write, test the stream, close.  \<^verbatim>\<open>disk_room\<close> bounds how much of a file can be
  written; \<^term>\<open>None\<close> is no bound.\<close>

definition put_file :: "string \<Rightarrow> bytes \<Rightarrow> fsys \<Rightarrow> fsys \<times> bool" where
  "put_file p data fs =
     (if \<not> can_open fs p then (fs, False)
      else case disk_room fs p of
             None \<Rightarrow> (fs\<lparr>files := (files fs)(p \<mapsto> data)\<rparr>, True)
           | Some k \<Rightarrow>
               if length data \<le> k then (fs\<lparr>files := (files fs)(p \<mapsto> data)\<rparr>, True)
               else (fs\<lparr>files := (files fs)(p \<mapsto> take k data)\<rparr>, late_error fs p))"

definition rename_file :: "string \<Rightarrow> string \<Rightarrow> fsys \<Rightarrow> fsys \<times> bool" where
  "rename_file src dst fs =
     (case files fs src of
        None \<Rightarrow> (fs, False)
      | Some data \<Rightarrow>
          if (if files fs dst = None then can_create fs dst else can_replace fs dst)
          then (fs\<lparr>files := (files fs)(src := None, dst \<mapsto> data)\<rparr>, True)
          else (fs, False))"

definition remove_file :: "string \<Rightarrow> fsys \<Rightarrow> fsys" where
  "remove_file p fs =
     (if files fs p \<noteq> None \<and> can_remove fs p then fs\<lparr>files := (files fs)(p := None)\<rparr> else fs)"

definition tmp_of :: "string \<Rightarrow> string" where
  "tmp_of p = p @ ''.tmp''"

text \<open>\<^verbatim>\<open>write_file\<close>: write a sibling, rename it over the target, and if that fails remove the target
  and rename again.\<close>

definition write_file :: "string \<Rightarrow> bytes \<Rightarrow> fsys \<Rightarrow> fsys \<times> bool" where
  "write_file p data fs =
     (case put_file (tmp_of p) data fs of
        (fs1, False) \<Rightarrow> (fs1, False)
      | (fs1, True) \<Rightarrow>
          (case rename_file (tmp_of p) p fs1 of
             (fs2, True) \<Rightarrow> (fs2, True)
           | (fs2, False) \<Rightarrow> rename_file (tmp_of p) p (remove_file p fs2)))"

definition same_system :: "fsys \<Rightarrow> fsys \<Rightarrow> bool" where
  "same_system fs fs' \<longleftrightarrow> fs' = fs\<lparr>files := files fs'\<rparr>"

section \<open>Laws\<close>

named_theorems fs_ops \<open>definitions of the file operations\<close>
lemmas [fs_ops] = put_file_def rename_file_def remove_file_def

lemma tmp_of_neq [simp]: "tmp_of p \<noteq> p" "p \<noteq> tmp_of p"
  by (simp_all add: tmp_of_def)

lemma write_file_other:
  "write_file p data fs = (fs', ok) \<Longrightarrow> q \<noteq> p \<Longrightarrow> q \<noteq> tmp_of p \<Longrightarrow> files fs' q = files fs q"
  by (auto simp: write_file_def fs_ops split: if_splits option.splits bool.splits prod.splits)

text \<open>Write errors show before the stream is closed.\<close>

definition prompt_errors :: "fsys \<Rightarrow> bool" where
  "prompt_errors fs \<longleftrightarrow> (\<forall>p. \<not> late_error fs p)"

lemma write_file_ok:
  "write_file p data fs = (fs', True) \<Longrightarrow>
     files fs' (tmp_of p) = None
     \<and> (files fs' p = Some data
        \<or> late_error fs (tmp_of p) \<and> (\<exists>k<length data. disk_room fs (tmp_of p) = Some k \<and> files fs' p = Some (take k data)))"
  by (auto simp: write_file_def fs_ops split: if_splits option.splits bool.splits prod.splits)

lemma write_file_True:
  "write_file p data fs = (fs', True) \<Longrightarrow> prompt_errors fs \<Longrightarrow> files fs' p = Some data \<and> files fs' (tmp_of p) = None"
  using write_file_ok [of p data fs fs'] by (simp add: prompt_errors_def)

lemma write_file_prompt: "write_file p data fs = (fs', ok) \<Longrightarrow> prompt_errors fs' = prompt_errors fs"
  by (auto simp: prompt_errors_def write_file_def fs_ops split: if_splits option.splits bool.splits prod.splits)

lemma put_file_prompt: "put_file p data fs = (fs', ok) \<Longrightarrow> prompt_errors fs' = prompt_errors fs"
  by (auto simp: prompt_errors_def fs_ops split: if_splits option.splits)

lemma put_file_True: "put_file p data fs = (fs', True) \<Longrightarrow> prompt_errors fs \<Longrightarrow> files fs' p = Some data"
  by (auto simp: prompt_errors_def fs_ops split: if_splits option.splits)

lemma put_file_other: "put_file p data fs = (fs', ok) \<Longrightarrow> q \<noteq> p \<Longrightarrow> files fs' q = files fs q"
  by (auto simp: fs_ops split: if_splits option.splits)

lemma write_file_False:
  "write_file p data fs = (fs', False) \<Longrightarrow> files fs' p = files fs p \<or> files fs' p = None"
  by (auto simp: write_file_def fs_ops split: if_splits option.splits bool.splits prod.splits)

lemma write_file_same_system: "write_file p data fs = (fs', ok) \<Longrightarrow> same_system fs fs'"
  by (auto simp: write_file_def same_system_def fs_ops split: if_splits option.splits bool.splits prod.splits)

text \<open>A file system on which nothing fails.\<close>

definition healthy_fs :: "fsys \<Rightarrow> bool" where
  "healthy_fs fs \<longleftrightarrow> (\<forall>p. can_open fs p \<and> disk_room fs p = None \<and> can_replace fs p \<and> can_create fs p)"

lemma write_file_healthy: "healthy_fs fs \<Longrightarrow> \<exists>fs'. write_file p data fs = (fs', True) \<and> healthy_fs fs'"
  by (auto simp: write_file_def healthy_fs_def fs_ops)

lemma path_join_inject [simp]: "path_join base a = path_join base b \<longleftrightarrow> a = b"
  by (simp add: path_join_def)

lemma tmp_path_join: "tmp_of (path_join base a) = path_join base (a @ ''.tmp'')"
  by (simp add: path_join_def tmp_of_def)

section \<open>Property\<close>

text \<open>
  C32. Writing a store file is atomic up to one case: if \<open>write_file\<close> fails at any point the target
  holds what it held before, or is gone, but never a part of the new bytes; if it succeeds no
  sibling is left and the target holds exactly the new bytes, unless the disk filled up and the error
  showed only when the stream was closed; and no other file but the sibling is touched.
\<close>

theorem write_file_atomic:
  assumes "write_file p data fs = (fs', ok)"
  shows "(if ok then files fs' (tmp_of p) = None
            \<and> (files fs' p = Some data
               \<or> late_error fs (tmp_of p) \<and> (\<exists>k<length data. disk_room fs (tmp_of p) = Some k \<and> files fs' p = Some (take k data)))
          else files fs' p = files fs p \<or> files fs' p = None)
         \<and> (\<forall>q. q \<noteq> p \<longrightarrow> q \<noteq> tmp_of p \<longrightarrow> files fs' q = files fs q)"
  using assms write_file_ok [of p data fs fs'] write_file_False [of p data fs fs'] write_file_other [OF assms]
  by (cases ok) auto

theorem write_file_atomic_witness:
  "\<exists>fs'. write_file ''a'' ''new''
       \<lparr>files = [''a'' \<mapsto> ''old''], can_open = (\<lambda>_. True), disk_room = (\<lambda>_. Some 2), late_error = (\<lambda>_. False),
        can_replace = (\<lambda>_. True), can_create = (\<lambda>_. True), can_remove = (\<lambda>_. True)\<rparr> = (fs', False)
     \<and> files fs' ''a'' = Some ''old''"
proof -
  let ?fs = "\<lparr>files = [''a'' \<mapsto> ''old''], can_open = (\<lambda>_. True), disk_room = (\<lambda>_. Some 2), late_error = (\<lambda>_. False),
        can_replace = (\<lambda>_. True), can_create = (\<lambda>_. True), can_remove = (\<lambda>_. True)\<rparr>"
  have "write_file ''a'' ''new'' ?fs = (?fs\<lparr>files := [''a'' \<mapsto> ''old'', ''a.tmp'' \<mapsto> ''ne'']\<rparr>, False)"
    by (simp add: write_file_def put_file_def tmp_of_def)
  from this write_file_atomic [OF this] show ?thesis by auto
qed

text \<open>
  C39. The exception is real: on a full disk whose error shows at the close, a write reports success
  although the old contents are replaced by an empty file.
\<close>

theorem write_file_can_truncate:
  "\<exists>fs fs'. files fs p = Some old \<and> write_file p (c # data) fs = (fs', True) \<and> files fs' p = Some []"
proof -
  let ?fs = "\<lparr>files = [p \<mapsto> old], can_open = (\<lambda>_. True), disk_room = (\<lambda>_. Some 0), late_error = (\<lambda>_. True),
        can_replace = (\<lambda>_. True), can_create = (\<lambda>_. True), can_remove = (\<lambda>_. True)\<rparr>"
  have "write_file p (c # data) ?fs = (?fs\<lparr>files := ((files ?fs)(tmp_of p \<mapsto> []))(tmp_of p := None, p \<mapsto> [])\<rparr>, True)"
    by (simp add: write_file_def fs_ops)
  moreover have "files ?fs p = Some old" by simp
  moreover have "files (?fs\<lparr>files := ((files ?fs)(tmp_of p \<mapsto> []))(tmp_of p := None, p \<mapsto> [])\<rparr>) p = Some []" by simp
  ultimately show ?thesis by blast
qed

end
