(* ===== verification/HostApps.thy ===== *)
theory HostApps
  imports Json FileSystem
begin

text \<open>
  The host's app catalog (\<^verbatim>\<open>src/src/host/host_apps.h\<close>, \<^verbatim>\<open>src/src/host/host_apps.cpp\<close>): the
  \<^verbatim>\<open>apps.json\<close> document that the bundled Sunshine reads, written and read back through the
  engine's JSON, the command a launch target becomes, and the difference a publish makes.
\<close>

section \<open>Data\<close>

record host_app =
  ha_name :: string
  ha_cmd :: string
  imagePath :: string
  workingDir :: string
  ha_output :: string
  elevated :: bool
  autoDetach :: bool
  waitAll :: bool
  exitTimeout :: int

record sync_diff =
  added :: nat
  removed :: nat
  updated :: nat

section \<open>Paths and commands\<close>

definition data_dir :: "(string \<Rightarrow> string option) \<Rightarrow> string" where
  "data_dir getenv =
     (case getenv ''XDG_DATA_HOME'' of
        Some xdg \<Rightarrow> xdg @ ''/arcade-stream-engine''
      | None \<Rightarrow>
          (case getenv ''HOME'' of
             Some home \<Rightarrow> home @ ''/.local/share/arcade-stream-engine''
           | None \<Rightarrow> ''.''))"

definition default_apps_path :: "(string \<Rightarrow> string option) \<Rightarrow> string" where
  "default_apps_path getenv = data_dir getenv @ ''/sunshine_apps.json''"

definition is_uri_target :: "string \<Rightarrow> bool" where
  "is_uri_target cmd \<longleftrightarrow> str_find cmd ''://'' 0 \<noteq> None"

definition host_launch_command :: "string \<Rightarrow> string" where
  "host_launch_command cmd =
     (if cmd = [] \<or> \<not> is_uri_target cmd then cmd
      else ''xdg-open '' @ [CHR 0x22] @ cmd @ [CHR 0x22])"

section \<open>The document\<close>

definition set_str :: "string \<Rightarrow> string \<Rightarrow> jvalue \<Rightarrow> jvalue" where
  "set_str k v j = (if v \<noteq> [] then jset k (JStr v) j else j)"

definition app_json :: "host_app \<Rightarrow> jvalue" where
  "app_json a =
     (let j1 = jset ''name'' (JStr (ha_name a)) jobject;
          j2 = set_str ''cmd'' (ha_cmd a) j1;
          j3 = set_str ''image-path'' (imagePath a) j2;
          j4 = set_str ''working-dir'' (workingDir a) j3;
          j5 = set_str ''output'' (ha_output a) j4;
          j6 = jset ''elevated'' (JBool (elevated a)) j5;
          j7 = jset ''auto-detach'' (JBool (autoDetach a)) j6;
          j8 = jset ''wait-all'' (JBool (waitAll a)) j7
      in jset ''exit-timeout'' (JNum (double_of_int (exitTimeout a))) j8)"

definition serialize_apps_json :: "host_app list \<Rightarrow> string" where
  "serialize_apps_json apps = dump (obj [(''env'', jobject), (''apps'', JArr (map app_json apps))])"

definition app_of_json :: "jvalue \<Rightarrow> host_app" where
  "app_of_json a =
     \<lparr>ha_name = get_str ''name'' [] a, ha_cmd = get_str ''cmd'' [] a, imagePath = get_str ''image-path'' [] a,
      workingDir = get_str ''working-dir'' [] a, ha_output = get_str ''output'' [] a,
      elevated = get_bool ''elevated'' False a, autoDetach = get_bool ''auto-detach'' True a,
      waitAll = get_bool ''wait-all'' True a,
      exitTimeout = cast_int (get_num ''exit-timeout'' (double_of_int 5) a)\<rparr>"

definition parse_apps_json :: "string \<Rightarrow> host_app list" where
  "parse_apps_json text =
     (case parse text of
        None \<Rightarrow> []
      | Some parsed \<Rightarrow>
          (case jfind ''apps'' parsed of
             Some (JArr vs) \<Rightarrow> filter (\<lambda>h. ha_name h \<noteq> []) (map app_of_json (filter is_object vs))
           | _ \<Rightarrow> []))"

section \<open>The file\<close>

definition read_apps :: "string \<Rightarrow> fsys \<Rightarrow> host_app list" where
  "read_apps path fs = (case read_file fs path of None \<Rightarrow> [] | Some text \<Rightarrow> parse_apps_json text)"

definition write_apps :: "string \<Rightarrow> host_app list \<Rightarrow> fsys \<Rightarrow> fsys \<times> bool" where
  "write_apps path apps fs = put_file path (serialize_apps_json apps) fs"

section \<open>The difference of two catalogs\<close>

definition same_app :: "host_app \<Rightarrow> host_app \<Rightarrow> bool" where
  "same_app a b \<longleftrightarrow>
     ha_cmd a = ha_cmd b \<and> imagePath a = imagePath b \<and> workingDir a = workingDir b \<and>
     ha_output a = ha_output b \<and> elevated a = elevated b \<and> autoDetach a = autoDetach b \<and>
     waitAll a = waitAll b \<and> exitTimeout a = exitTimeout b"

definition find_by_name :: "host_app list \<Rightarrow> string \<Rightarrow> host_app option" where
  "find_by_name v name = List.find (\<lambda>a. ha_name a = name) v"

definition count_next :: "host_app list \<Rightarrow> sync_diff \<Rightarrow> host_app \<Rightarrow> sync_diff" where
  "count_next prev d n =
     (case find_by_name prev (ha_name n) of
        None \<Rightarrow> d\<lparr>added := added d + 1\<rparr>
      | Some p \<Rightarrow> if \<not> same_app p n then d\<lparr>updated := updated d + 1\<rparr> else d)"

definition count_prev :: "host_app list \<Rightarrow> sync_diff \<Rightarrow> host_app \<Rightarrow> sync_diff" where
  "count_prev later d p = (if find_by_name later (ha_name p) = None then d\<lparr>removed := removed d + 1\<rparr> else d)"

definition diff_apps :: "host_app list \<Rightarrow> host_app list \<Rightarrow> sync_diff" where
  "diff_apps prev later =
     foldl (count_prev later) (foldl (count_next prev) \<lparr>added = 0, removed = 0, updated = 0\<rparr> later) prev"

section \<open>Reading back what was written\<close>

lemma jfind_set_str: "jfind k (set_str k' v j) = (if k = k' \<and> v \<noteq> [] then Some (JStr v) else jfind k j)"
  by (simp add: set_str_def)

definition good_object :: "jvalue \<Rightarrow> bool" where
  "good_object j \<longleftrightarrow> wf_json j \<and> is_object j"

lemma good_object_intros:
  "good_object jobject" "wf_json v \<Longrightarrow> good_object j \<Longrightarrow> good_object (jset k v j)" "good_object j \<Longrightarrow> good_object (set_str k s j)"
  by (simp_all add: good_object_def wf_jset set_str_def)

lemma wf_app_json: "\<bar>exitTimeout a\<bar> < 2 ^ 53 \<Longrightarrow> good_object (app_json a)"
  unfolding app_json_def Let_def by (intro good_object_intros) simp_all

definition publishable :: "host_app \<Rightarrow> bool" where
  "publishable a \<longleftrightarrow> ha_name a \<noteq> [] \<and> - (2 ^ 31) \<le> exitTimeout a \<and> exitTimeout a < 2 ^ 31"

lemma app_of_app_json:
  assumes "- (2 ^ 31) \<le> exitTimeout a" "exitTimeout a < 2 ^ 31"
  shows "app_of_json (app_json a) = a"
proof -
  have "get_str ''name'' [] (app_json a) = ha_name a" "get_str ''cmd'' [] (app_json a) = ha_cmd a"
    "get_str ''image-path'' [] (app_json a) = imagePath a" "get_str ''working-dir'' [] (app_json a) = workingDir a"
    "get_str ''output'' [] (app_json a) = ha_output a" "get_bool ''elevated'' False (app_json a) = elevated a"
    "get_bool ''auto-detach'' True (app_json a) = autoDetach a" "get_bool ''wait-all'' True (app_json a) = waitAll a"
    "get_num ''exit-timeout'' (double_of_int 5) (app_json a) = double_of_int (exitTimeout a)"
    by (simp_all add: get_str_def get_bool_def get_num_def app_json_def Let_def jfind_set_str)
  then show ?thesis
    using assms by (simp add: app_of_json_def cast_int_double_of_int)
qed

lemma publishable_json: "publishable a \<Longrightarrow> wf_json (app_json a) \<and> is_object (app_json a) \<and> app_of_json (app_json a) = a"
  using wf_app_json [of a] by (auto simp: publishable_def good_object_def app_of_app_json)

lemma parse_serialized:
  assumes "list_all publishable apps"
  shows "parse_apps_json (serialize_apps_json apps) = apps"
proof -
  let ?doc = "obj [(''env'', jobject), (''apps'', JArr (map app_json apps))]"
  have each: "wf_json (app_json a)" "is_object (app_json a)" "app_of_json (app_json a) = a" "ha_name a \<noteq> []"
    if "a \<in> set apps" for a
    using that assms publishable_json [of a] by (auto simp: list_all_iff publishable_def)
  have "wf_json ?doc" by (intro wf_obj) (auto simp: each)
  then have "parse (serialize_apps_json apps) = Some ?doc" unfolding serialize_apps_json_def by (rule parse_dump)
  moreover have "filter is_object (map app_json apps) = map app_json apps"
    by (rule filter_True) (auto simp: each)
  moreover have "map app_of_json (map app_json apps) = apps"
    by (simp add: each map_idI)
  moreover have "filter (\<lambda>h. ha_name h \<noteq> []) apps = apps" by (rule filter_True) (simp add: each)
  ultimately show ?thesis by (simp add: parse_apps_json_def)
qed

lemma parse_named: "a \<in> set (parse_apps_json text) \<Longrightarrow> ha_name a \<noteq> []"
  by (auto simp: parse_apps_json_def split: option.splits jvalue.splits)

lemma parse_publishable: "list_all publishable (parse_apps_json text)"
  using cast_int_range
  by (auto simp: list_all_iff publishable_def parse_apps_json_def app_of_json_def split: option.splits jvalue.splits)

lemma read_apps_written:
  assumes "write_apps path apps fs = (fs', True)" "prompt_errors fs" "list_all publishable apps"
  shows "read_apps path fs' = apps"
  using put_file_True [OF assms(1) [unfolded write_apps_def] assms(2)] parse_serialized [OF assms(3)]
  by (simp add: read_apps_def read_file_def)

section \<open>What the difference counts\<close>

lemma diff_next:
  "foldl (count_next prev) d later =
     d\<lparr>added := added d + length (filter (\<lambda>n. find_by_name prev (ha_name n) = None) later),
       updated := updated d + length (filter (\<lambda>n. \<exists>p. find_by_name prev (ha_name n) = Some p \<and> \<not> same_app p n) later)\<rparr>"
  by (induction later arbitrary: d) (auto simp: count_next_def split: option.splits)

lemma diff_prev:
  "foldl (count_prev later) d prev =
     d\<lparr>removed := removed d + length (filter (\<lambda>p. find_by_name later (ha_name p) = None) prev)\<rparr>"
  by (induction prev arbitrary: d) (auto simp: count_prev_def)

lemma diff_counts:
  "added (diff_apps prev later) = length (filter (\<lambda>n. find_by_name prev (ha_name n) = None) later)"
  "updated (diff_apps prev later) = length (filter (\<lambda>n. \<exists>p. find_by_name prev (ha_name n) = Some p \<and> \<not> same_app p n) later)"
  "removed (diff_apps prev later) = length (filter (\<lambda>p. find_by_name later (ha_name p) = None) prev)"
  by (simp_all add: diff_apps_def diff_next diff_prev)

lemma find_by_name_None: "find_by_name v n = None \<longleftrightarrow> n \<notin> ha_name ` set v"
  by (auto simp: find_by_name_def find_None_iff)

lemma find_by_name_Some:
  "distinct (map ha_name v) \<Longrightarrow> find_by_name v n = Some a \<longleftrightarrow> a \<in> set v \<and> ha_name a = n"
  by (induction v) (auto simp: find_by_name_def)

lemma same_app_eq: "ha_name a = ha_name b \<Longrightarrow> same_app a b \<longleftrightarrow> a = b"
  by (cases a; cases b) (auto simp: same_app_def)

lemma count_names:
  assumes "distinct (map ha_name v)"
  shows "length (filter (\<lambda>a. P (ha_name a)) v) = card {n \<in> ha_name ` set v. P n}"
proof -
  have "distinct (filter P (map ha_name v))" using assms by simp
  then have "length (filter P (map ha_name v)) = card (set (filter P (map ha_name v)))"
    by (rule distinct_card [symmetric])
  moreover have "set (filter P (map ha_name v)) = {n \<in> ha_name ` set v. P n}" by auto
  moreover have "length (filter P (map ha_name v)) = length (filter (\<lambda>a. P (ha_name a)) v)"
    by (simp add: filter_map comp_def)
  ultimately show ?thesis by simp
qed

lemma diff_balance:
  assumes "distinct (map ha_name prev)" "distinct (map ha_name later)"
  shows "added (diff_apps prev later) + length prev = removed (diff_apps prev later) + length later"
proof -
  let ?P = "ha_name ` set prev" and ?L = "ha_name ` set later"
  have "added (diff_apps prev later) = card (?L - ?P)" "removed (diff_apps prev later) = card (?P - ?L)"
    using count_names [OF assms(2), of "\<lambda>n. n \<notin> ?P"] count_names [OF assms(1), of "\<lambda>n. n \<notin> ?L"]
    by (simp_all add: diff_counts find_by_name_None set_diff_eq)
  moreover have "card ?P = length prev" "card ?L = length later"
    using distinct_card [OF assms(1)] distinct_card [OF assms(2)] by simp_all
  moreover have "card (?L - ?P) + card ?P = card (?P - ?L) + card ?L"
    by (metis List.finite_set Un_commute Un_Diff_cancel2 Diff_disjoint Int_commute card_Un_disjoint finite_Diff finite_imageI)
  ultimately show ?thesis by simp
qed

lemma diff_zero_iff:
  assumes "distinct (map ha_name prev)" "distinct (map ha_name later)"
  shows "diff_apps prev later = \<lparr>added = 0, removed = 0, updated = 0\<rparr> \<longleftrightarrow> set prev = set later"
proof
  assume z: "diff_apps prev later = \<lparr>added = 0, removed = 0, updated = 0\<rparr>"
  have names: "ha_name ` set later \<subseteq> ha_name ` set prev" "ha_name ` set prev \<subseteq> ha_name ` set later"
    using diff_counts(1,3) [of prev later] by (auto simp: z find_by_name_None filter_empty_conv)
  have upd: "\<not> (\<exists>p. find_by_name prev (ha_name n) = Some p \<and> \<not> same_app p n)" if "n \<in> set later" for n
    using diff_counts(2) [of prev later] that by (auto simp: z filter_empty_conv)
  have sub: "n \<in> set prev" if n: "n \<in> set later" for n
  proof -
    obtain p where p: "p \<in> set prev" "ha_name p = ha_name n" using names(1) n by (metis image_iff subsetD)
    then have "same_app p n" using upd [OF n] find_by_name_Some [OF assms(1)] by blast
    then show ?thesis using p same_app_eq by metis
  qed
  moreover have "p \<in> set later" if p: "p \<in> set prev" for p
  proof -
    obtain n where n: "n \<in> set later" "ha_name p = ha_name n" using names(2) p by (metis image_iff subsetD)
    then have "n = p" using sub [OF n(1)] p assms(1) by (metis distinct_map inj_on_def)
    then show ?thesis using n by simp
  qed
  ultimately show "set prev = set later" by blast
next
  assume eq: "set prev = set later"
  have "\<not> (\<exists>p. find_by_name prev (ha_name n) = Some p \<and> \<not> same_app p n)" if "n \<in> set later" for n
    using that eq assms(1) by (auto simp: find_by_name_Some same_app_eq distinct_map inj_on_def)
  then have "added (diff_apps prev later) = 0" "updated (diff_apps prev later) = 0" "removed (diff_apps prev later) = 0"
    by (auto simp: diff_counts find_by_name_None eq filter_empty_conv)
  then show "diff_apps prev later = \<lparr>added = 0, removed = 0, updated = 0\<rparr>" by simp
qed

section \<open>Properties\<close>

text \<open>
  C34. The catalog round trip: any apps with a name and an exit timeout in the range of \<^verbatim>\<open>int\<close>,
  serialized into the \<^verbatim>\<open>apps.json\<close> document, are parsed back to exactly those apps; and whatever
  document is parsed, what comes out can be published again without loss.
\<close>

theorem apps_json_roundtrip:
  assumes "list_all publishable apps"
  shows "parse_apps_json (serialize_apps_json apps) = apps
         \<and> parse_apps_json (serialize_apps_json (parse_apps_json text)) = parse_apps_json text"
  using parse_serialized [OF assms] parse_serialized [OF parse_publishable] by simp

theorem apps_json_roundtrip_witness:
  "parse_apps_json (serialize_apps_json [\<lparr>ha_name = ''Quake'', ha_cmd = ''/usr/bin/quake'', imagePath = [], workingDir = ''/tmp'',
       ha_output = [], elevated = True, autoDetach = False, waitAll = True, exitTimeout = - 3\<rparr>])
   = [\<lparr>ha_name = ''Quake'', ha_cmd = ''/usr/bin/quake'', imagePath = [], workingDir = ''/tmp'',
       ha_output = [], elevated = True, autoDetach = False, waitAll = True, exitTimeout = - 3\<rparr>]"
  by (rule conjunct1 [OF apps_json_roundtrip]) (simp add: publishable_def)

text \<open>
  The reported difference adds up: when names are unique in both catalogs, the number of apps
  changes by what was added less what was removed, and the difference is all zeros exactly when
  both catalogs have the same apps.
\<close>

theorem diff_apps_balance:
  assumes "distinct (map ha_name prev)" "distinct (map ha_name later)"
  shows "added (diff_apps prev later) + length prev = removed (diff_apps prev later) + length later
         \<and> (diff_apps prev later = \<lparr>added = 0, removed = 0, updated = 0\<rparr> \<longleftrightarrow> set prev = set later)"
  using diff_balance [OF assms] diff_zero_iff [OF assms] by simp

theorem diff_apps_balance_witness:
  "\<exists>a b. added (diff_apps [a] [b, a]) + length [a] = removed (diff_apps [a] [b, a]) + length [b, a] \<and> added (diff_apps [a] [b, a]) = 1"
proof -
  let ?a = "\<lparr>ha_name = ''A'', ha_cmd = [], imagePath = [], workingDir = [], ha_output = [], elevated = False,
    autoDetach = True, waitAll = True, exitTimeout = 5\<rparr>"
  let ?b = "?a\<lparr>ha_name := ''B''\<rparr>"
  have "distinct (map ha_name [?a])" "distinct (map ha_name [?b, ?a])" by simp_all
  from diff_apps_balance [OF this] have "added (diff_apps [?a] [?b, ?a]) + length [?a] = removed (diff_apps [?a] [?b, ?a]) + length [?b, ?a]" by blast
  moreover have "removed (diff_apps [?a] [?b, ?a]) = 0" by (simp add: diff_counts find_by_name_def)
  ultimately show ?thesis by (intro exI [of _ ?a] exI [of _ ?b]) simp
qed

end
