(* ===== verification/SunshineBackend.thy ===== *)
theory SunshineBackend
  imports HostApps
begin

text \<open>
  The driver of the bundled Sunshine (\<^verbatim>\<open>src/src/host/sunshine_backend.h\<close>,
  \<^verbatim>\<open>src/src/host/sunshine_backend.cpp\<close>): finding the binary, its arguments, and the managed child
  process.  The operating system is a table of the engine's children with the outcomes of
  \<^verbatim>\<open>fork\<close>; a child may exit at any time, and after \<^verbatim>\<open>SIGTERM\<close> it needs some number of the driver's
  naps of 100 ms, or ignores the signal.
\<close>

section \<open>Paths\<close>

definition kSunshineName :: string where
  "kSunshineName = ''sunshine''"

definition resolve_sunshine_binary :: "string \<Rightarrow> string \<Rightarrow> (string \<Rightarrow> bool) \<Rightarrow> string" where
  "resolve_sunshine_binary engineDir envOverride exists =
     (if envOverride \<noteq> [] \<and> exists envOverride then envOverride
      else if engineDir \<noteq> [] then
        let candidate = (if last engineDir \<noteq> CHR ''/'' then engineDir @ ''/'' else engineDir) @ kSunshineName
        in if exists candidate then candidate else []
      else [])"

text \<open>\<^verbatim>\<open>std::filesystem::path::parent_path\<close> on POSIX paths: the filename goes, then the separators before
  it, but not the root directory.\<close>

definition parent_path :: "string \<Rightarrow> string" where
  "parent_path p =
     (let d = rev (dropWhile (\<lambda>c. c \<noteq> CHR ''/'') (rev p));
          t = rev (dropWhile (\<lambda>c. c = CHR ''/'') (rev d))
      in if d \<noteq> [] \<and> t = [] then ''/'' else t)"

definition host_state_path :: "string \<Rightarrow> string" where
  "host_state_path appsPath = (if appsPath = [] then [] else path_join (parent_path appsPath) ''sunshine_state.json'')"

definition host_cert_path :: "string \<Rightarrow> string" where
  "host_cert_path appsPath = (if appsPath = [] then [] else path_join (parent_path appsPath) ''cert.pem'')"

definition host_pkey_path :: "string \<Rightarrow> string" where
  "host_pkey_path appsPath = (if appsPath = [] then [] else path_join (parent_path appsPath) ''pkey.pem'')"

definition host_build_launch_args :: "string \<Rightarrow> string list" where
  "host_build_launch_args appsPath =
     (if appsPath \<noteq> [] then
        [''file_apps='' @ appsPath,
         ''log_path='' @ path_join (parent_path appsPath) ''sunshine.log'',
         ''min_log_level=1'',
         ''file_state='' @ host_state_path appsPath,
         ''cert='' @ host_cert_path appsPath,
         ''pkey='' @ host_pkey_path appsPath]
      else [])"

text \<open>\<^verbatim>\<open>current_exe_dir\<close>, of what \<^verbatim>\<open>/proc/self/exe\<close> links to.\<close>

definition current_exe_dir :: "string option \<Rightarrow> string" where
  "current_exe_dir self =
     (case self of
        None \<Rightarrow> []
      | Some p \<Rightarrow> rev (drop 1 (dropWhile (\<lambda>c. c \<noteq> CHR ''/'' \<and> c \<noteq> CHR 0x5C) (rev p))))"

definition sunshine_work_dir :: "string \<Rightarrow> string" where
  "sunshine_work_dir binary = (if binary = [] then [] else parent_path binary)"

section \<open>Processes\<close>

datatype child = Alive | Dying nat | Exited

record spawned =
  sp_binary :: string
  sp_args :: "string list"
  sp_dir :: string

record os =
  children :: "int \<Rightarrow> child option"
  forks :: "int option list"
  term_lag :: "int \<Rightarrow> nat option"
  launches :: "spawned list"

text \<open>\<^verbatim>\<open>waitpid(pid, .., WNOHANG)\<close>: zero while the child runs; otherwise it is reaped.\<close>

definition waitpid_nohang :: "int \<Rightarrow> os \<Rightarrow> int \<times> os" where
  "waitpid_nohang pid w =
     (case children w pid of
        None \<Rightarrow> (- 1, w)
      | Some Exited \<Rightarrow> (pid, w\<lparr>children := (children w)(pid := None)\<rparr>)
      | Some _ \<Rightarrow> (0, w))"

definition fork_exec :: "string \<Rightarrow> string list \<Rightarrow> string \<Rightarrow> os \<Rightarrow> int \<times> os" where
  "fork_exec binary args dir w =
     (case forks w of
        Some pid # fs \<Rightarrow>
          (pid, w\<lparr>children := (children w)(pid \<mapsto> Alive), forks := fs,
                  launches := launches w @ [\<lparr>sp_binary = binary, sp_args = args, sp_dir = dir\<rparr>]\<rparr>)
      | None # fs \<Rightarrow> (- 1, w\<lparr>forks := fs\<rparr>)
      | [] \<Rightarrow> (- 1, w))"

definition kill_term :: "int \<Rightarrow> os \<Rightarrow> os" where
  "kill_term pid w =
     (case (children w pid, term_lag w pid) of
        (Some Alive, Some n) \<Rightarrow> w\<lparr>children := (children w)(pid \<mapsto> Dying n)\<rparr>
      | _ \<Rightarrow> w)"

definition nap :: "os \<Rightarrow> os" where
  "nap w = w\<lparr>children := (\<lambda>p. case children w p of Some (Dying 0) \<Rightarrow> Some Exited | Some (Dying (Suc n)) \<Rightarrow> Some (Dying n) | c \<Rightarrow> c)\<rparr>"

text \<open>\<^verbatim>\<open>SIGKILL\<close>, then a blocking \<^verbatim>\<open>waitpid\<close>.\<close>

definition kill_and_wait :: "int \<Rightarrow> os \<Rightarrow> os" where
  "kill_and_wait pid w = w\<lparr>children := (children w)(pid := None)\<rparr>"

section \<open>The backend\<close>

record backend =
  apps_path :: string
  binary_path :: string
  be_pid :: int

definition new_backend :: "string \<Rightarrow> string option \<Rightarrow> string option \<Rightarrow> (string \<Rightarrow> bool) \<Rightarrow> backend" where
  "new_backend appsPath self env exists =
     \<lparr>apps_path = appsPath,
      binary_path = resolve_sunshine_binary (current_exe_dir self) (case env of Some e \<Rightarrow> e | None \<Rightarrow> []) exists,
      be_pid = 0\<rparr>"

definition bundled :: "backend \<Rightarrow> bool" where
  "bundled b \<longleftrightarrow> binary_path b \<noteq> []"

definition running :: "backend \<Rightarrow> os \<Rightarrow> bool \<times> backend \<times> os" where
  "running b w =
     (if be_pid b \<le> 0 then (False, b, w)
      else case waitpid_nohang (be_pid b) w of
             (r, w') \<Rightarrow> if r = 0 then (True, b, w') else (False, b\<lparr>be_pid := 0\<rparr>, w'))"

definition host_active :: "backend \<Rightarrow> os \<Rightarrow> bool \<times> backend \<times> os" where
  "host_active b w = running b w"

text \<open>\<^verbatim>\<open>start\<close>: the result is \<^term>\<open>None\<close> on success and the message on failure.\<close>

definition start :: "backend \<Rightarrow> os \<Rightarrow> string option \<times> backend \<times> os" where
  "start b w =
     (case running b w of
        (True, b1, w1) \<Rightarrow> (None, b1, w1)
      | (False, b1, w1) \<Rightarrow>
          if binary_path b1 = [] then
            (Some (''no engine-managed Sunshine found (set ARCADE_SUNSHINE to the fetched sidecar, ''
                     @ ''or ship sunshine beside the engine)''), b1, w1)
          else
            (case fork_exec (binary_path b1) (host_build_launch_args (apps_path b1)) (sunshine_work_dir (binary_path b1)) w1 of
               (pid, w2) \<Rightarrow> if pid < 0 then (Some ''fork failed'', b1, w2) else (None, b1\<lparr>be_pid := pid\<rparr>, w2)))"

text \<open>The polls of \<^verbatim>\<open>stop\<close>, with the number of naps left.\<close>

fun stop_polls :: "nat \<Rightarrow> backend \<Rightarrow> os \<Rightarrow> backend \<times> os" where
  "stop_polls 0 b w = (b, w)"
| "stop_polls (Suc n) b w =
     (case running b w of
        (True, b1, w1) \<Rightarrow> stop_polls n b1 (nap w1)
      | (False, b1, w1) \<Rightarrow> (b1, w1))"

definition stop :: "backend \<Rightarrow> os \<Rightarrow> backend \<times> os" where
  "stop b w =
     (case running b w of
        (False, b1, w1) \<Rightarrow> (b1, w1)
      | (True, b1, w1) \<Rightarrow>
          (case stop_polls 50 b1 (kill_term (be_pid b1) w1) of
             (b2, w2) \<Rightarrow>
               if 0 < be_pid b2 then (b2\<lparr>be_pid := 0\<rparr>, kill_and_wait (be_pid b2) w2) else (b2, w2)))"

section \<open>Steps\<close>

text \<open>What can happen to the backend and its children: the operations, and a child exiting.  A
  successful \<^verbatim>\<open>fork\<close> gives the parent a positive number.\<close>

definition forks_ok :: "os \<Rightarrow> bool" where
  "forks_ok w \<longleftrightarrow> list_all (\<lambda>f. case f of Some pid \<Rightarrow> 0 < pid | None \<Rightarrow> True) (forks w)"

inductive backend_step :: "backend \<times> os \<Rightarrow> backend \<times> os \<Rightarrow> bool" where
  Running: "running b w = (r, b', w') \<Longrightarrow> backend_step (b, w) (b', w')"
| Start: "start b w = (r, b', w') \<Longrightarrow> forks_ok w \<Longrightarrow> backend_step (b, w) (b', w')"
| Stop: "stop b w = (b', w') \<Longrightarrow> backend_step (b, w) (b', w')"
| Exit: "children w pid \<noteq> None \<Longrightarrow> backend_step (b, w) (b, w\<lparr>children := (children w)(pid \<mapsto> Exited)\<rparr>)"
| Forks: "backend_step (b, w) (b, w\<lparr>forks := fs\<rparr>)"

inductive_cases backend_step_cases: "backend_step s s'"

text \<open>Every child is the one the backend tracks.\<close>

definition tracked :: "backend \<Rightarrow> os \<Rightarrow> bool" where
  "tracked b w \<longleftrightarrow> 0 \<le> be_pid b \<and> (\<forall>p. children w p \<noteq> None \<longrightarrow> p = be_pid b \<and> 0 < p)"

lemma running_cases:
  assumes "tracked b w" "running b w = (r, b', w')"
  shows "tracked b' w' \<and> apps_path b' = apps_path b \<and> binary_path b' = binary_path b \<and> launches w' = launches w
         \<and> forks w' = forks w
         \<and> (if r then b' = b \<and> w' = w \<and> 0 < be_pid b \<and> children w (be_pid b) \<noteq> None
            else be_pid b' = 0 \<and> (\<forall>p. children w' p = None))"
proof (cases "be_pid b \<le> 0")
  case True
  then show ?thesis using assms by (auto simp: running_def tracked_def)
next
  case False
  then show ?thesis
    using assms by (auto simp: running_def tracked_def waitpid_nohang_def split: option.splits child.splits if_splits)
qed

lemma start_cases:
  assumes "tracked b w" "start b w = (e, b', w')" "forks_ok w"
  shows "tracked b' w' \<and> apps_path b' = apps_path b \<and> binary_path b' = binary_path b
         \<and> (if e = None then 0 < be_pid b' \<and> children w' (be_pid b') \<noteq> None
            else be_pid b' = 0 \<and> (\<forall>p. children w' p = None))
         \<and> launches w' = launches w
             @ (if e = None \<and> \<not> fst (running b w)
                then [\<lparr>sp_binary = binary_path b, sp_args = host_build_launch_args (apps_path b),
                       sp_dir = sunshine_work_dir (binary_path b)\<rparr>] else [])
         \<and> (e = None \<and> \<not> fst (running b w) \<longrightarrow> binary_path b \<noteq> [])"
proof -
  obtain r b1 w1 where r: "running b w = (r, b1, w1)" by (cases "running b w") auto
  note run = running_cases [OF assms(1) r]
  show ?thesis
  proof (cases r)
    case True
    then show ?thesis using assms r run by (auto simp: start_def)
  next
    case False
    then have none: "be_pid b1 = 0" "\<forall>p. children w1 p = None" using run by auto
    show ?thesis
    proof (cases "binary_path b1 = []")
      case True
      then show ?thesis using assms(2) r False run by (auto simp: start_def)
    next
      case bin: False
      obtain pid w2 where f: "fork_exec (binary_path b1) (host_build_launch_args (apps_path b1)) (sunshine_work_dir (binary_path b1)) w1 = (pid, w2)"
        by (cases "fork_exec (binary_path b1) (host_build_launch_args (apps_path b1)) (sunshine_work_dir (binary_path b1)) w1") auto
      consider "pid = - 1" "children w2 = children w1" "launches w2 = launches w1"
        | "0 < pid" "children w2 = (children w1)(pid \<mapsto> Alive)"
          "launches w2 = launches w1 @ [\<lparr>sp_binary = binary_path b1, sp_args = host_build_launch_args (apps_path b1), sp_dir = sunshine_work_dir (binary_path b1)\<rparr>]"
        using f assms(3) run by (auto simp: fork_exec_def forks_ok_def split: list.splits option.splits)
      then show ?thesis
      proof cases
        case 1
        then show ?thesis using assms(2) r False bin f run none by (auto simp: start_def tracked_def)
      next
        case 2
        then show ?thesis using assms(2) r False bin f run none by (auto simp: start_def tracked_def)
      qed
    qed
  qed
qed

lemma nap_tracked: "tracked b w \<Longrightarrow> tracked b (nap w)"
  by (auto simp: tracked_def nap_def split: option.splits)

lemma kill_term_tracked: "tracked b w \<Longrightarrow> tracked b (kill_term pid w)"
  by (auto simp: tracked_def kill_term_def split: option.splits child.splits)

lemma kill_term_frame: "launches (kill_term pid w) = launches w" "launches (nap w) = launches w"
  by (simp_all add: kill_term_def nap_def split: option.splits child.splits)

lemma stop_polls_tracked:
  "tracked b w \<Longrightarrow> stop_polls n b w = (b', w') \<Longrightarrow>
     tracked b' w' \<and> apps_path b' = apps_path b \<and> binary_path b' = binary_path b \<and> launches w' = launches w"
proof (induction n arbitrary: b w)
  case (Suc n)
  obtain r b1 w1 where r: "running b w = (r, b1, w1)" by (cases "running b w") auto
  note run = running_cases [OF Suc.prems(1) r]
  show ?case
  proof (cases r)
    case True
    then have "stop_polls n b1 (nap w1) = (b', w')" using Suc.prems r by simp
    then show ?thesis using Suc.IH [of b1 "nap w1"] run nap_tracked kill_term_frame by auto
  qed (use Suc.prems r run in auto)
qed simp

lemma stop_cases:
  assumes "tracked b w" "stop b w = (b', w')"
  shows "be_pid b' = 0 \<and> (\<forall>p. children w' p = None) \<and> apps_path b' = apps_path b \<and> binary_path b' = binary_path b
         \<and> launches w' = launches w"
proof -
  obtain r b1 w1 where r: "running b w = (r, b1, w1)" by (cases "running b w") auto
  note run = running_cases [OF assms(1) r]
  show ?thesis
  proof (cases r)
    case True
    obtain b2 w2 where p: "stop_polls 50 b1 (kill_term (be_pid b1) w1) = (b2, w2)" by force
    have t: "tracked b2 w2" "apps_path b2 = apps_path b" "binary_path b2 = binary_path b" "launches w2 = launches w"
      using stop_polls_tracked [OF _ p] kill_term_tracked run kill_term_frame by auto
    show ?thesis
    proof (cases "0 < be_pid b2")
      case True
      then show ?thesis using assms(2) \<open>r\<close> r p t by (auto simp: stop_def kill_and_wait_def tracked_def)
    next
      case False
      then have "be_pid b2 = 0" "\<forall>p. children w2 p = None" using t(1) by (force simp: tracked_def)+
      then show ?thesis using assms(2) \<open>r\<close> r p t False by (auto simp: stop_def)
    qed
  qed (use assms(2) r run in \<open>auto simp: stop_def\<close>)
qed

lemma no_children_tracked: "be_pid b = 0 \<Longrightarrow> \<forall>p. children w p = None \<Longrightarrow> tracked b w"
  by (simp add: tracked_def)

text \<open>The launches the backend makes are of its own binary, with the arguments for its catalog.\<close>

definition own_launch :: "backend \<Rightarrow> spawned \<Rightarrow> bool" where
  "own_launch b l \<longleftrightarrow> sp_binary l = binary_path b \<and> binary_path b \<noteq> [] \<and> sp_args l = host_build_launch_args (apps_path b)
     \<and> sp_dir l = sunshine_work_dir (binary_path b)"

definition backend_inv :: "backend \<Rightarrow> backend \<times> os \<Rightarrow> bool" where
  "backend_inv b0 s \<longleftrightarrow> tracked (fst s) (snd s) \<and> apps_path (fst s) = apps_path b0 \<and> binary_path (fst s) = binary_path b0
     \<and> list_all (own_launch b0) (launches (snd s))"

lemma backend_inv_step: "backend_step s s' \<Longrightarrow> backend_inv b0 s \<Longrightarrow> backend_inv b0 s'"
proof (induction rule: backend_step.induct)
  case (Running b w r b' w')
  then show ?case using running_cases [of b w r b' w'] by (simp add: backend_inv_def)
next
  case (Start b w e b' w')
  then show ?case using start_cases [of b w e b' w'] by (auto simp: backend_inv_def own_launch_def)
next
  case (Stop b w b' w')
  then show ?case using stop_cases [of b w b' w'] by (auto simp: backend_inv_def intro: no_children_tracked)
next
  case (Exit w pid b)
  then have "children w p = None" if "p \<noteq> pid" for p
    using that by (metis backend_inv_def fst_conv snd_conv tracked_def)
  with Exit show ?case by (auto simp: backend_inv_def tracked_def)
next
  case (Forks b w fs)
  then show ?case by (simp add: backend_inv_def tracked_def)
qed

interpretation be: step_invariant backend_step "backend_inv b0" for b0
  by unfold_locales (rule backend_inv_step)

section \<open>The driver's contract\<close>

text \<open>
  What the host's handlers rely on, whatever the system: asking changes nothing while the child runs, a
  start leaves a running child exactly when it succeeds and does nothing to one that runs, and a stop
  leaves none.
\<close>

locale child_driver =
  fixes is_up :: "'b \<Rightarrow> 'w \<Rightarrow> bool \<times> 'b \<times> 'w" and enable :: "'b \<Rightarrow> 'w \<Rightarrow> string option \<times> 'b \<times> 'w" and disable :: "'b \<Rightarrow> 'w \<Rightarrow> 'b \<times> 'w"
    and inv :: "'b \<Rightarrow> 'w \<Rightarrow> bool" and ready :: "'w \<Rightarrow> bool"
  assumes ask: "inv b w \<Longrightarrow> is_up b w = (r, b', w') \<Longrightarrow> inv b' w' \<and> (r \<longrightarrow> b' = b \<and> w' = w)"
    and enabled: "inv b w \<Longrightarrow> ready w \<Longrightarrow> enable b w = (e, b', w') \<Longrightarrow> inv b' w' \<and> (fst (is_up b' w') \<longleftrightarrow> e = None)"
    and already: "inv b w \<Longrightarrow> fst (is_up b w) \<Longrightarrow> enable b w = (None, b, w)"
    and disabled: "inv b w \<Longrightarrow> disable b w = (b', w') \<Longrightarrow> inv b' w' \<and> \<not> fst (is_up b' w')"
begin

lemma enable_twice: "inv b w \<Longrightarrow> ready w \<Longrightarrow> enable b w = (None, b', w') \<Longrightarrow> enable b' w' = (None, b', w')"
  using enabled already by blast

lemma enable_disable:
  assumes "inv b w" "ready w" "enable b w = (e, b1, w1)" "disable b1 w1 = (b2, w2)"
  shows "inv b2 w2 \<and> \<not> fst (is_up b2 w2)"
  using enabled [OF assms(1-3)] disabled [OF _ assms(4)] by blast

end

lemma running_after_start:
  assumes "tracked b w" "forks_ok w" "start b w = (e, b', w')" shows "fst (running b' w') \<longleftrightarrow> e = None"
proof -
  obtain r b1 w1 where r: "running b w = (r, b1, w1)" by (cases "running b w") auto
  note run = running_cases [OF assms(1) r]
  show ?thesis
  proof (cases r)
    case True
    then show ?thesis using assms(3) r run by (auto simp: start_def)
  next
    case down: False
    show ?thesis
    proof (cases e)
      case None
      obtain pid w2 where f: "fork_exec (binary_path b1) (host_build_launch_args (apps_path b1)) (sunshine_work_dir (binary_path b1)) w1 = (pid, w2)"
        by force
      then have s: "\<not> pid < 0" "b' = b1\<lparr>be_pid := pid\<rparr>" "w' = w2"
        using assms(3) r down None by (simp_all add: start_def split: if_splits)
      have "list_all (\<lambda>x. case x of Some p \<Rightarrow> 0 < p | None \<Rightarrow> True) (forks w1)" using assms(2) run by (simp add: forks_ok_def)
      then have "children w2 pid = Some Alive \<and> 0 < pid"
        using f s(1) by (cases "forks w1"; cases "hd (forks w1)") (auto simp: fork_exec_def)
      then show ?thesis using None s by (simp add: running_def waitpid_nohang_def)
    next
      case (Some msg)
      then have "be_pid b' = 0" using start_cases [OF assms(1,3,2)] by simp
      then show ?thesis using Some by (simp add: running_def)
    qed
  qed
qed

lemma start_running:
  assumes "tracked b w" "fst (running b w)" shows "start b w = (None, b, w)"
proof -
  obtain b1 w1 where r: "running b w = (True, b1, w1)" using assms(2) by (cases "running b w") auto
  then show ?thesis using running_cases [OF assms(1) r] by (simp add: start_def)
qed

interpretation posix: child_driver running start stop tracked forks_ok
proof unfold_locales
  show "tracked b' w' \<and> (r \<longrightarrow> b' = b \<and> w' = w)" if "tracked b w" "running b w = (r, b', w')" for b w r b' w'
    using running_cases [OF that] by auto
  show "tracked b' w' \<and> (fst (running b' w') \<longleftrightarrow> e = None)" if "tracked b w" "forks_ok w" "start b w = (e, b', w')" for b w e b' w'
    using start_cases [OF that(1,3,2)] running_after_start [OF that] by blast
  show "start b w = (None, b, w)" if "tracked b w" "fst (running b w)" for b w
    using start_running [OF that] .
  show "tracked b' w' \<and> \<not> fst (running b' w')" if "tracked b w" "stop b w = (b', w')" for b w b' w'
    using stop_cases [OF that] no_children_tracked by (simp add: running_def)
qed

section \<open>Properties\<close>

text \<open>
  C8. Never two hosts: from a fresh backend, whatever sequence of \<^verbatim>\<open>running\<close>, \<^verbatim>\<open>start\<close> and \<^verbatim>\<open>stop\<close>
  calls, child exits and failing or succeeding forks happens, the engine has at most one Sunshine
  child (none that is not tracked, no forgotten zombie), and every launch was of the resolved
  engine-managed binary, from its own directory, with the catalog, state and certificate paths the
  host handlers use.
\<close>

theorem sunshine_single_child:
  assumes "backend_step\<^sup>*\<^sup>* (new_backend appsPath self env exists,
             \<lparr>children = Map.empty, forks = fs, term_lag = lag, launches = []\<rparr>) (b, w)"
  shows "(\<forall>p q. children w p \<noteq> None \<longrightarrow> children w q \<noteq> None \<longrightarrow> p = q)
         \<and> (\<forall>p. children w p \<noteq> None \<longrightarrow> be_pid b = p)
         \<and> (\<forall>l\<in>set (launches w). sp_binary l = resolve_sunshine_binary (current_exe_dir self) (case env of Some e \<Rightarrow> e | None \<Rightarrow> []) exists
              \<and> exists (sp_binary l) \<and> sp_dir l = sunshine_work_dir (sp_binary l)
              \<and> (appsPath \<noteq> [] \<longrightarrow> {''file_apps='' @ appsPath, ''file_state='' @ host_state_path appsPath,
                                    ''cert='' @ host_cert_path appsPath} \<subseteq> set (sp_args l)))"
proof -
  let ?b0 = "new_backend appsPath self env exists"
  have "backend_inv ?b0 (?b0, \<lparr>children = Map.empty, forks = fs, term_lag = lag, launches = []\<rparr>)"
    by (simp add: backend_inv_def tracked_def new_backend_def)
  from be.steps [OF assms this] have inv: "tracked b w" "list_all (own_launch ?b0) (launches w)"
    by (simp_all add: backend_inv_def)
  have "exists (resolve_sunshine_binary d e exists)" if "resolve_sunshine_binary d e exists \<noteq> []" for d e
    using that by (auto simp: resolve_sunshine_binary_def Let_def split: if_splits)
  then have "own_launch ?b0 l \<Longrightarrow> sp_binary l = resolve_sunshine_binary (current_exe_dir self) (case env of Some e \<Rightarrow> e | None \<Rightarrow> []) exists
      \<and> exists (sp_binary l) \<and> sp_dir l = sunshine_work_dir (sp_binary l)
      \<and> (appsPath \<noteq> [] \<longrightarrow> {''file_apps='' @ appsPath, ''file_state='' @ host_state_path appsPath,
           ''cert='' @ host_cert_path appsPath} \<subseteq> set (sp_args l))" for l
    by (auto simp: own_launch_def new_backend_def host_build_launch_args_def)
  with inv(2) have "\<forall>l\<in>set (launches w). sp_binary l = resolve_sunshine_binary (current_exe_dir self) (case env of Some e \<Rightarrow> e | None \<Rightarrow> []) exists
      \<and> exists (sp_binary l) \<and> sp_dir l = sunshine_work_dir (sp_binary l)
      \<and> (appsPath \<noteq> [] \<longrightarrow> {''file_apps='' @ appsPath, ''file_state='' @ host_state_path appsPath,
           ''cert='' @ host_cert_path appsPath} \<subseteq> set (sp_args l))"
    unfolding list_all_iff by blast
  moreover have "\<forall>p. children w p \<noteq> None \<longrightarrow> be_pid b = p" using inv(1) by (auto simp: tracked_def)
  ultimately show ?thesis by metis
qed

text \<open>
  Starting and stopping do what they say, from any state in which the children are tracked:
  \<^verbatim>\<open>stop\<close> always leaves no child, even one that ignores \<^verbatim>\<open>SIGTERM\<close>; \<^verbatim>\<open>start\<close> launches at most one
  process, none when the child already runs, and a child exists exactly when it succeeds; without a
  binary it fails when nothing runs.
\<close>

theorem start_stop_spec:
  assumes "tracked b w" "forks_ok w"
  shows "(case stop b w of (b', w') \<Rightarrow> be_pid b' = 0 \<and> (\<forall>p. children w' p = None) \<and> \<not> fst (running b' w'))
         \<and> (case start b w of (e, b', w') \<Rightarrow>
              (e = None \<longleftrightarrow> (\<exists>p. children w' p \<noteq> None))
              \<and> (fst (running b w) \<longrightarrow> e = None \<and> launches w' = launches w \<and> b' = b)
              \<and> length (launches w') \<le> Suc (length (launches w))
              \<and> (\<not> bundled b \<and> \<not> fst (running b w) \<longrightarrow> e \<noteq> None))"
proof -
  obtain b1 w1 where s: "stop b w = (b1, w1)" by force
  obtain e b2 w2 where t: "start b w = (e, b2, w2)" by (cases "start b w") auto
  note st = start_cases [OF assms(1) t assms(2)]
  have up: "e = None \<and> b2 = b" if "fst (running b w)" using posix.already [OF assms(1) that] t by simp
  have "e = None \<longleftrightarrow> (\<exists>p. children w2 p \<noteq> None)" using st by (cases e) (simp_all, blast)
  moreover have "launches w2 = launches w" if "fst (running b w)" using st that by simp
  moreover have "length (launches w2) \<le> Suc (length (launches w))" using st by auto
  moreover have "e \<noteq> None" if "\<not> bundled b \<and> \<not> fst (running b w)" using st that by (auto simp: bundled_def)
  moreover have "be_pid b1 = 0 \<and> (\<forall>p. children w1 p = None)" using stop_cases [OF assms(1) s] by simp
  moreover have "\<not> fst (running b1 w1)" using posix.disabled [OF assms(1) s] by blast
  ultimately show ?thesis unfolding s t prod.case using up by blast
qed

text \<open>A fresh system, and one whose child ignores \<^verbatim>\<open>SIGTERM\<close>.\<close>

definition fresh_os :: os where
  "fresh_os = \<lparr>children = Map.empty, forks = [Some 42], term_lag = (\<lambda>_. None), launches = []\<rparr>"

definition demo_backend :: backend where
  "demo_backend = new_backend ''/d/sunshine_apps.json'' (Some ''/opt/engine'') None (\<lambda>_. True)"

lemma demo_start:
  "start demo_backend fresh_os =
     (None, demo_backend\<lparr>be_pid := 42\<rparr>,
      fresh_os\<lparr>children := [42 \<mapsto> Alive], forks := [],
        launches := [\<lparr>sp_binary = ''/opt/sunshine'', sp_args = host_build_launch_args ''/d/sunshine_apps.json'', sp_dir = ''/opt''\<rparr>]\<rparr>)"
proof -
  have "binary_path demo_backend = ''/opt/sunshine''" "sunshine_work_dir ''/opt/sunshine'' = ''/opt''"
    by code_simp+
  then show ?thesis
    by (simp add: start_def running_def fork_exec_def fresh_os_def demo_backend_def new_backend_def)
qed

theorem sunshine_single_child_witness:
  "\<exists>b w. backend_step\<^sup>*\<^sup>* (demo_backend, fresh_os) (b, w) \<and> children w 42 \<noteq> None
     \<and> (\<forall>p. children w p \<noteq> None \<longrightarrow> p = 42) \<and> length (launches w) = 1"
proof -
  let ?w = "fresh_os\<lparr>children := [42 \<mapsto> Alive], forks := [],
      launches := [\<lparr>sp_binary = ''/opt/sunshine'', sp_args = host_build_launch_args ''/d/sunshine_apps.json'', sp_dir = ''/opt''\<rparr>]\<rparr>"
  have "forks_ok fresh_os" by (simp add: forks_ok_def fresh_os_def)
  from backend_step.Start [OF demo_start this] have "backend_step\<^sup>*\<^sup>* (demo_backend, fresh_os) (demo_backend\<lparr>be_pid := 42\<rparr>, ?w)" by blast
  moreover from this have "\<forall>p. children ?w p \<noteq> None \<longrightarrow> be_pid (demo_backend\<lparr>be_pid := 42\<rparr>) = p"
    unfolding demo_backend_def fresh_os_def by (rule sunshine_single_child [THEN conjunct2, THEN conjunct1])
  moreover have "children ?w 42 \<noteq> None" "length (launches ?w) = 1" "be_pid (demo_backend\<lparr>be_pid := 42\<rparr>) = 42" by simp_all
  ultimately show ?thesis by metis
qed

theorem start_stop_spec_witness:
  "\<exists>b w. tracked b w \<and> fst (running b w) \<and> (\<forall>p. children (snd (stop b w)) p = None)"
proof -
  let ?b = "demo_backend\<lparr>be_pid := 42\<rparr>" and ?w = "fresh_os\<lparr>children := [42 \<mapsto> Alive]\<rparr>"
  let ?v = "?w\<lparr>forks := []\<rparr>"
  have v: "tracked ?b ?v" "fst (running ?b ?v)" "forks_ok ?v"
    by (auto simp: tracked_def running_def waitpid_nohang_def forks_ok_def split: if_splits)
  from start_stop_spec [OF v(1,3)] have "\<forall>p. children (snd (stop ?b ?v)) p = None" by (auto split: prod.splits)
  with v show ?thesis by blast
qed

end
