(* ===== verification/ClientTrust.thy ===== *)
theory ClientTrust
  imports Json
begin

text \<open>
  Seeding trusted clients (\<^verbatim>\<open>src/src/host/client_trust.h\<close>, \<^verbatim>\<open>src/src/host/client_trust.cpp\<close>): a
  client's certificate is added to \<^verbatim>\<open>root.named_devices\<close> of Sunshine's state document.  The mutable
  references of the sources become updates of the child under a key.
\<close>

section \<open>Operations\<close>

definition as_object :: "jvalue \<Rightarrow> jvalue" where
  "as_object v = (if is_object v then v else jobject)"

definition as_array :: "jvalue \<Rightarrow> jvalue list" where
  "as_array v = (case v of JArr vs \<Rightarrow> vs | _ \<Rightarrow> [])"

definition member_or_null :: "string \<Rightarrow> jvalue \<Rightarrow> jvalue" where
  "member_or_null k p = (case jfind k p of Some v \<Rightarrow> v | None \<Rightarrow> JNull)"

text \<open>\<^verbatim>\<open>child_object\<close> and \<^verbatim>\<open>child_array\<close>, with what is done through the returned reference.\<close>

definition child_object :: "string \<Rightarrow> (jvalue \<Rightarrow> jvalue) \<Rightarrow> jvalue \<Rightarrow> jvalue" where
  "child_object key f parent =
     (let p = as_object parent in jset key (f (as_object (member_or_null key p))) p)"

definition child_array :: "string \<Rightarrow> (jvalue list \<Rightarrow> jvalue list) \<Rightarrow> jvalue \<Rightarrow> jvalue" where
  "child_array key f parent =
     (let p = as_object parent in jset key (JArr (f (as_array (member_or_null key p)))) p)"

definition parse_state :: "string \<Rightarrow> jvalue" where
  "parse_state currentJson =
     (if currentJson = [] then jobject
      else case parse currentJson of
             None \<Rightarrow> jobject
           | Some v \<Rightarrow> if is_object v then v else jobject)"

definition has_trusted_client :: "string \<Rightarrow> string \<Rightarrow> bool" where
  "has_trusted_client currentJson certPem =
     (if certPem = [] then False
      else case jfind ''root'' (parse_state currentJson) of
             None \<Rightarrow> False
           | Some r \<Rightarrow>
               (case jfind ''named_devices'' r of
                  Some (JArr devices) \<Rightarrow> list_ex (\<lambda>d. get_str ''cert'' [] d = certPem) devices
                | _ \<Rightarrow> False))"

definition device_entry :: "string \<Rightarrow> string \<Rightarrow> string \<Rightarrow> jvalue" where
  "device_entry name certPem uuid =
     obj [(''name'', JStr name), (''cert'', JStr certPem), (''uuid'', JStr uuid), (''enabled'', JStr ''true'')]"

definition add_device :: "string \<Rightarrow> string \<Rightarrow> string \<Rightarrow> jvalue list \<Rightarrow> jvalue list" where
  "add_device name certPem uuid devices =
     (if list_ex (\<lambda>d. get_str ''cert'' [] d = certPem) devices then devices
      else devices @ [device_entry name certPem uuid])"

definition add_trusted_client :: "string \<Rightarrow> string \<Rightarrow> string \<Rightarrow> string \<Rightarrow> string" where
  "add_trusted_client currentJson name certPem uuid =
     dump (child_object ''root'' (child_array ''named_devices'' (add_device name certPem uuid)) (parse_state currentJson))"

section \<open>Documents\<close>

text \<open>The devices a state document names, and its other members.\<close>

definition devices_of :: "jvalue \<Rightarrow> jvalue list" where
  "devices_of doc = as_array (member_or_null ''named_devices'' (as_object (member_or_null ''root'' doc)))"

definition root_field :: "string \<Rightarrow> jvalue \<Rightarrow> jvalue option" where
  "root_field k doc = jfind k (as_object (member_or_null ''root'' doc))"

definition trust :: "string \<Rightarrow> string \<Rightarrow> string \<Rightarrow> jvalue \<Rightarrow> jvalue" where
  "trust name certPem uuid doc =
     child_object ''root'' (child_array ''named_devices'' (add_device name certPem uuid)) doc"

lemma as_object_object [simp]: "is_object v \<Longrightarrow> as_object v = v" "is_object (as_object v)"
  by (auto simp: as_object_def)

lemma member_jset [simp]: "member_or_null k (jset k' v p) = (if k = k' then v else member_or_null k p)"
  by (simp add: member_or_null_def)

lemma is_object_child [simp]: "is_object (child_object k f p)" "is_object (child_array k g p)"
  by (simp_all add: child_object_def child_array_def Let_def)

lemma is_object_parse_state [simp]: "is_object (parse_state s)"
  by (simp add: parse_state_def split: option.splits)

lemma devices_trust: "is_object doc \<Longrightarrow> devices_of (trust name cert uuid doc) = add_device name cert uuid (devices_of doc)"
  by (simp add: devices_of_def trust_def child_object_def child_array_def as_array_def Let_def)

lemma root_field_trust: "is_object doc \<Longrightarrow> k \<noteq> ''named_devices'' \<Longrightarrow> root_field k (trust name cert uuid doc) = root_field k doc"
  by (simp add: root_field_def trust_def child_object_def child_array_def Let_def)

lemma other_field_trust: "is_object doc \<Longrightarrow> k \<noteq> ''root'' \<Longrightarrow> jfind k (trust name cert uuid doc) = jfind k doc"
  by (simp add: trust_def child_object_def Let_def)

lemma has_trusted_iff:
  "has_trusted_client s cert \<longleftrightarrow> cert \<noteq> [] \<and> (\<exists>d\<in>set (devices_of (parse_state s)). get_str ''cert'' [] d = cert)"
proof -
  have "jfind k v = None" if "\<not> is_object v" for k v using that by (cases v) auto
  then show ?thesis
    by (auto simp: has_trusted_client_def devices_of_def member_or_null_def as_object_def as_array_def list_ex_iff
        split: option.splits jvalue.splits)
qed

lemma wf_members: "wf_json v \<Longrightarrow> wf_json (member_or_null k v)"
  by (cases v) (fastforce simp: member_or_null_def split: option.splits dest!: map_of_SomeD)+

lemma wf_trust:
  assumes "wf_json doc" shows "wf_json (trust name cert uuid doc)"
proof -
  have obj: "wf_json (as_object v)" if "wf_json v" for v using that by (simp add: as_object_def)
  have arr: "\<forall>d\<in>set (as_array v). wf_json d" if "wf_json v" for v using that by (cases v) (auto simp: as_array_def)
  have "wf_json (device_entry name cert uuid)" unfolding device_entry_def by (rule wf_obj) simp
  then have dev: "wf_json (JArr (add_device name cert uuid ds))" if "\<forall>d\<in>set ds. wf_json d" for ds
    using that by (auto simp: add_device_def)
  show ?thesis
    unfolding trust_def child_object_def child_array_def Let_def
    by (intro wf_jset dev arr wf_members obj assms as_object_object)
qed

lemma map_put_map_put: "map_put k v (map_put k w m) = map_put k v m"
  by (induction k w m rule: map_put.induct) auto

lemma jset_jset: "jset k v (jset k w p) = jset k v p"
  by (cases p) (simp_all add: map_put_map_put)

lemma trust_twice:
  assumes "is_object doc" shows "trust name' cert uuid' (trust name cert uuid doc) = trust name cert uuid doc"
proof -
  have dev: "add_device name' cert uuid' (add_device name cert uuid ds) = add_device name cert uuid ds" for ds
    by (auto simp: add_device_def device_entry_def list_ex_iff)
  show ?thesis
    using assms by (simp add: trust_def child_object_def child_array_def as_array_def Let_def jset_jset dev)
qed

lemma parse_add_trusted:
  assumes "wf_json (parse_state s)"
  shows "parse_state (add_trusted_client s name cert uuid) = trust name cert uuid (parse_state s)"
proof -
  let ?doc = "trust name cert uuid (parse_state s)"
  have txt_eq: "add_trusted_client s name cert uuid = dump ?doc" by (simp add: add_trusted_client_def trust_def)
  have "parse (dump ?doc) = Some ?doc" by (rule parse_dump) (rule wf_trust [OF assms])
  moreover have "parse [] = None" by code_simp
  ultimately have "dump ?doc \<noteq> []" by auto
  moreover have "is_object ?doc" by (simp add: trust_def)
  ultimately show ?thesis using \<open>parse (dump ?doc) = Some ?doc\<close> by (simp add: txt_eq parse_state_def)
qed

lemma trusted_after_add:
  assumes "wf_json (parse_state s)" "cert \<noteq> []"
  shows "has_trusted_client (add_trusted_client s name cert uuid) c \<longleftrightarrow> has_trusted_client s c \<or> c = cert"
  using assms(2)
  by (auto simp: has_trusted_iff parse_add_trusted [OF assms(1)] devices_trust add_device_def device_entry_def list_ex_iff)

section \<open>Property\<close>

text \<open>
  Seeding a client keeps everything else: after \<open>add_trusted_client\<close> on any state text whose
  numbers are finite (an empty or broken one included), the certificate is trusted, exactly the
  certificates trusted before stay trusted, the device list keeps its entries in order, every other
  member of the document and of its root is unchanged, and adding the certificate again, under any
  name, changes nothing.
\<close>

theorem add_trusted_client_spec:
  fixes name cert uuid :: string
  assumes "wf_json (parse_state s)" "cert \<noteq> []"
  shows "let s' = add_trusted_client s name cert uuid in
         (\<forall>c. has_trusted_client s' c \<longleftrightarrow> has_trusted_client s c \<or> c = cert)
         \<and> (\<exists>new. devices_of (parse_state s') = devices_of (parse_state s) @ new \<and> length new \<le> 1)
         \<and> (\<forall>k. k \<noteq> ''root'' \<longrightarrow> jfind k (parse_state s') = jfind k (parse_state s))
         \<and> (\<forall>k. k \<noteq> ''named_devices'' \<longrightarrow> root_field k (parse_state s') = root_field k (parse_state s))
         \<and> (\<forall>name' uuid'. add_trusted_client s' name' cert uuid' = s')"
proof -
  define s' where "s' = add_trusted_client s name cert uuid"
  have doc: "parse_state s' = trust name cert uuid (parse_state s)"
    unfolding s'_def by (rule parse_add_trusted [OF assms(1)])
  have dev: "devices_of (parse_state s') = add_device name cert uuid (devices_of (parse_state s))"
    by (simp add: doc devices_trust)
  have "has_trusted_client s' c \<longleftrightarrow> has_trusted_client s c \<or> c = cert" for c
    unfolding s'_def by (rule trusted_after_add [OF assms])
  moreover have "\<exists>new. devices_of (parse_state s') = devices_of (parse_state s) @ new \<and> length new \<le> 1"
    by (auto simp: dev add_device_def)
  moreover have "jfind k (parse_state s') = jfind k (parse_state s)" if "k \<noteq> ''root''" for k
    using that by (simp add: doc other_field_trust)
  moreover have "root_field k (parse_state s') = root_field k (parse_state s)" if "k \<noteq> ''named_devices''" for k
    using that by (simp add: doc root_field_trust)
  moreover have "add_trusted_client s' name' cert uuid' = s'" for name' uuid'
  proof -
    have "add_trusted_client s' name' cert uuid' = dump (trust name' cert uuid' (parse_state s'))"
      by (simp add: add_trusted_client_def trust_def)
    also have "\<dots> = dump (trust name cert uuid (parse_state s))" by (simp add: doc trust_twice)
    also have "\<dots> = s'" by (simp add: s'_def add_trusted_client_def trust_def)
    finally show ?thesis .
  qed
  ultimately show ?thesis unfolding s'_def [symmetric] Let_def by blast
qed

theorem add_trusted_client_spec_witness:
  "has_trusted_client (add_trusted_client ''{\"root\":{\"uniqueid\":\"u1\",\"named_devices\":[{\"cert\":\"A\"}]},\"v\":true}'' ''pc'' ''B'' ''id'') ''A''
   \<and> has_trusted_client (add_trusted_client ''{\"root\":{\"uniqueid\":\"u1\",\"named_devices\":[{\"cert\":\"A\"}]},\"v\":true}'' ''pc'' ''B'' ''id'') ''B''"
proof -
  let ?s = "''{\"root\":{\"uniqueid\":\"u1\",\"named_devices\":[{\"cert\":\"A\"}]},\"v\":true}''"
  have p: "parse_state ?s = JObj [(''root'', JObj [(''named_devices'', JArr [JObj [(''cert'', JStr ''A'')]]), (''uniqueid'', JStr ''u1'')]),
      (''v'', JBool True)]"
    by code_simp
  have wf: "wf_json (parse_state ?s)" unfolding p by (simp add: sorted_keys_def)
  have "has_trusted_client ?s ''A''" unfolding has_trusted_client_def p by (simp add: get_str_def)
  then show ?thesis using add_trusted_client_spec [OF wf, of "''B''" "''pc''" "''id''"] by (simp only: Let_def) blast
qed

end
