(* ===== verification/HostMain.thy ===== *)
theory HostMain
  imports Server SunshineBackend ClientTrust
begin

text \<open>
  Host mode (\<^verbatim>\<open>src/src/host/host_main.cpp\<close>): the handlers of the \<^verbatim>\<open>host.*\<close> methods over the backend, its
  child process and the files, their registration with the server, and \<^verbatim>\<open>host_main\<close> with its exit
  codes.  \<^verbatim>\<open>std::hash\<close> is a parameter.
\<close>

section \<open>Helpers\<close>

definition read_text_file :: "string \<Rightarrow> fsys \<Rightarrow> string" where
  "read_text_file path fs =
     (if path = [] then [] else case read_file fs path of Some t \<Rightarrow> t | None \<Rightarrow> [])"

definition write_text_file :: "string \<Rightarrow> string \<Rightarrow> fsys \<Rightarrow> fsys \<times> bool" where
  "write_text_file path data fs = (if path = [] then (fs, False) else put_file path data fs)"

text \<open>\<^verbatim>\<open>%016zx\<close> of a \<^verbatim>\<open>size_t\<close>.\<close>

definition hex16 :: "64 word \<Rightarrow> string" where
  "hex16 x = map (\<lambda>i. hex_char (unat (drop_bit (4 * i) x AND 0xF))) (rev [0..<16])"

definition stable_uuid :: "(string \<Rightarrow> 64 word) \<Rightarrow> string \<Rightarrow> string" where
  "stable_uuid hash seed = hex16 (hash seed) @ hex16 (hash (''ase-trust:'' @ seed))"

definition game_of_json :: "jvalue \<Rightarrow> host_app" where
  "game_of_json g =
     \<lparr>ha_name = get_str ''name'' [] g, ha_cmd = host_launch_command (get_str ''cmd'' [] g),
      imagePath = get_str ''image'' (get_str ''imagePath'' [] g) g,
      workingDir = get_str ''workingDir'' (get_str ''working-dir'' [] g) g,
      ha_output = get_str ''output'' [] g, elevated = get_bool ''elevated'' False g,
      autoDetach = get_bool ''autoDetach'' True g, waitAll = get_bool ''waitAll'' True g,
      exitTimeout = cast_int (get_num ''exitTimeout'' (double_of_int 5) g)\<rparr>"

definition games_from_params :: "jvalue \<Rightarrow> host_app list" where
  "games_from_params params =
     (case jfind ''games'' params of
        Some (JArr gs) \<Rightarrow> filter (\<lambda>a. ha_name a \<noteq> []) (map game_of_json (filter is_object gs))
      | _ \<Rightarrow> [])"

definition app_to_json :: "host_app \<Rightarrow> jvalue" where
  "app_to_json a = obj [(''name'', JStr (ha_name a)), (''cmd'', JStr (ha_cmd a)), (''imagePath'', JStr (imagePath a))]"

section \<open>Handlers\<close>

record host_world =
  hw_backend :: backend
  hw_os :: os
  hw_fs :: fsys

definition catalog :: "host_world \<Rightarrow> host_app list" where
  "catalog w = read_apps (apps_path (hw_backend w)) (hw_fs w)"

definition jnat :: "nat \<Rightarrow> jvalue" where
  "jnat n = JNum (double_of_int (int n))"

definition host_status :: "host_world handler" where
  "host_status params w =
     (let apps = catalog w;
          (managed, b1, s1) = running (hw_backend w) (hw_os w);
          (active, b2, s2) = host_active b1 s1
      in ((obj [(''installed'', JBool (bundled b2)), (''running'', JBool active), (''managed'', JBool managed),
                (''configured'', JBool (apps \<noteq> [])), (''gpuCapable'', JBool True), (''appsCount'', jnat (length apps))], [], []),
          w\<lparr>hw_backend := b2, hw_os := s2\<rparr>))"

definition host_enable :: "host_world handler" where
  "host_enable params w =
     (let (e, b1, s1) = (if get_bool ''on'' False params then start (hw_backend w) (hw_os w)
                         else (case stop (hw_backend w) (hw_os w) of (b1, s1) \<Rightarrow> (None, b1, s1)))
      in case e of
           Some msg \<Rightarrow>
             ((JNull, if bundled b1 then ''internal'' else ''not_installed'', msg), w\<lparr>hw_backend := b1, hw_os := s1\<rparr>)
         | None \<Rightarrow>
             (case host_active b1 s1 of
                (active, b2, s2) \<Rightarrow> ((obj [(''running'', JBool active)], [], []), w\<lparr>hw_backend := b2, hw_os := s2\<rparr>)))"

definition host_sync_apps :: "host_world handler" where
  "host_sync_apps params w =
     (let path = apps_path (hw_backend w);
          prev = catalog w;
          later = games_from_params params;
          d = diff_apps prev later
      in case write_apps path later (hw_fs w) of
           (fs, False) \<Rightarrow> ((JNull, ''internal'', ''could not write apps catalog at '' @ path), w\<lparr>hw_fs := fs\<rparr>)
         | (fs, True) \<Rightarrow>
             ((obj [(''added'', jnat (added d)), (''removed'', jnat (removed d)), (''updated'', jnat (updated d)),
                    (''total'', jnat (length later))], [], []), w\<lparr>hw_fs := fs\<rparr>))"

definition host_list_apps :: "host_world handler" where
  "host_list_apps params w = ((obj [(''apps'', JArr (map app_to_json (catalog w)))], [], []), w)"

definition kDefaultClientName :: string where
  "kDefaultClientName = ''ArcadeLauncher client''"

definition host_trust_client :: "(string \<Rightarrow> 64 word) \<Rightarrow> host_world handler" where
  "host_trust_client hash params w =
     (let certPem = get_str ''certPem'' [] params;
          name = get_str ''name'' kDefaultClientName params;
          statePath = host_state_path (apps_path (hw_backend w))
      in if certPem = []
         then ((JNull, ''bad_request'', ''host.trustClient requires a non-empty certPem''), w)
         else if statePath = []
         then ((JNull, ''internal'', ''no Sunshine state path (apps path unset)''), w)
         else
           let current = read_text_file statePath (hw_fs w);
               already = has_trusted_client current certPem
           in (case (if already then (hw_fs w, True)
                     else write_text_file statePath
                            (add_trusted_client current name certPem (stable_uuid hash certPem)) (hw_fs w)) of
                 (fs, False) \<Rightarrow> ((JNull, ''internal'', ''could not write Sunshine state at '' @ statePath), w\<lparr>hw_fs := fs\<rparr>)
               | (fs, True) \<Rightarrow>
                   let (restart, b1, s1) = (if already then (False, hw_backend w, hw_os w)
                                            else running (hw_backend w) (hw_os w))
                   in ((obj [(''trusted'', JBool True), (''alreadyTrusted'', JBool already),
                             (''restartRequired'', JBool restart)], [], []),
                       w\<lparr>hw_backend := b1, hw_os := s1, hw_fs := fs\<rparr>)))"

definition host_pair_accept :: "(string \<Rightarrow> 64 word) \<Rightarrow> host_world handler" where
  "host_pair_accept hash params w =
     (let certPem = get_str ''certPem'' [] params;
          statePath = host_state_path (apps_path (hw_backend w))
      in if certPem = []
         then ((JNull, ''unsupported'',
                ''host.pairAccept now authorizes by cert '' @ [CHR 0xE2, CHR 0x80, CHR 0x94]
                  @ '' pass {name, certPem} (PIN pairing is unused)''), w)
         else
           let current = read_text_file statePath (hw_fs w)
           in (case (if has_trusted_client current certPem then (hw_fs w, True)
                     else write_text_file statePath
                            (add_trusted_client current (get_str ''name'' kDefaultClientName params) certPem
                               (stable_uuid hash certPem)) (hw_fs w)) of
                 (fs, False) \<Rightarrow> ((JNull, ''internal'', ''could not write Sunshine state at '' @ statePath), w\<lparr>hw_fs := fs\<rparr>)
               | (fs, True) \<Rightarrow> ((obj [(''trusted'', JBool True)], [], []), w\<lparr>hw_fs := fs\<rparr>)))"

definition host_device_info :: "host_world handler" where
  "host_device_info params w =
     ((obj [(''deviceId'', JStr []), (''lanAddr'', JStr []), (''meshAddr'', JStr []), (''certFingerprint'', JStr []),
            (''serverCertPem'', JStr (read_text_file (host_cert_path (apps_path (hw_backend w))) (hw_fs w)))], [], []), w)"

definition register_host_methods :: "(string \<Rightarrow> 64 word) \<Rightarrow> host_world handlers \<Rightarrow> host_world handlers" where
  "register_host_methods hash hs =
     on ''host.deviceInfo'' host_device_info
       (on ''host.pairAccept'' (host_pair_accept hash)
         (on ''host.trustClient'' (host_trust_client hash)
           (on ''host.listApps'' host_list_apps
             (on ''host.syncApps'' host_sync_apps
               (on ''host.enable'' host_enable
                 (on ''host.status'' host_status hs))))))"

section \<open>The process\<close>

record host_boot =
  self_exe :: "string option"
  path_exists :: "string \<Rightarrow> bool"

text \<open>When \<^verbatim>\<open>host_main\<close> returns, the handlers and with them the backend are destroyed; the destructor
  stops the child.\<close>

definition shut_down :: "host_world \<Rightarrow> host_world" where
  "shut_down w = (case stop (hw_backend w) (hw_os w) of (b, s) \<Rightarrow> w\<lparr>hw_backend := b, hw_os := s\<rparr>)"

definition boot_world :: "posix_env \<Rightarrow> host_boot \<Rightarrow> os \<Rightarrow> fsys \<Rightarrow> host_world" where
  "boot_world sys boot s fs =
     \<lparr>hw_backend = new_backend (default_apps_path (env_var sys)) (self_exe boot) (env_var sys ''ARCADE_SUNSHINE'') (path_exists boot),
      hw_os = s, hw_fs = fs\<rparr>"

text \<open>The exit code, what was sent to the launcher, and the world left behind; \<^term>\<open>None\<close> when the
  process keeps serving.\<close>

definition host_main ::
  "string \<Rightarrow> posix_env \<Rightarrow> host_boot \<Rightarrow> (string \<Rightarrow> 64 word) \<Rightarrow> string list \<Rightarrow> os \<Rightarrow> fsys \<Rightarrow> (int \<times> bytes \<times> os \<times> fsys) option" where
  "host_main version sys boot hash argv s fs =
     (let token = ipc_token_from_args argv
      in if token = [] then Some (64, [], s, fs)
         else case connect_local sys token of
                (Inl e, _) \<Rightarrow> Some (69, [], s, fs)
              | (Inr t, _) \<Rightarrow>
                  let w = boot_world sys boot s fs;
                      ret = (\<lambda>code t w. let w' = shut_down w in Some (code, sent t, hw_os w', hw_fs w'))
                  in (case handshake version socket_transport t of
                        (t1, Some e) \<Rightarrow> ret 70 t1 w
                      | (t1, None) \<Rightarrow>
                          (case run socket_transport (register_host_methods hash []) t1 w of
                             None \<Rightarrow> None
                           | Some (t2, w2, Some e) \<Rightarrow> ret 70 t2 w2
                           | Some (t2, w2, None) \<Rightarrow> ret 0 t2 w2)))"

section \<open>What the handlers preserve\<close>

definition host_inv :: "host_world \<Rightarrow> bool" where
  "host_inv w \<longleftrightarrow> tracked (hw_backend w) (hw_os w) \<and> forks_ok (hw_os w)"

lemma running_inv:
  "running b s = (r, b', s') \<Longrightarrow> tracked b s \<Longrightarrow> forks_ok s \<Longrightarrow> tracked b' s' \<and> forks_ok s'"
  using running_cases [of b s r b' s'] by (simp add: forks_ok_def)

lemma running_forks: "forks (snd (snd (running b s))) = forks s"
  by (simp add: running_def waitpid_nohang_def split: option.splits child.splits)

lemma stop_polls_forks: "forks (snd (stop_polls n b s)) = forks s"
proof (induction n arbitrary: b s)
  case (Suc n)
  then show ?case using running_forks [of b s] by (auto simp: nap_def split: prod.splits bool.splits)
qed simp

lemma stop_forks: "forks (snd (stop b s)) = forks s"
proof -
  obtain r b1 s1 where r: "running b s = (r, b1, s1)" by (rule prod_cases3)
  then have f1: "forks s1 = forks s" using running_forks [of b s] by simp
  have "forks (kill_term p w) = forks w" for p w by (simp add: kill_term_def split: option.splits child.splits)
  then have "forks (snd (stop_polls 50 b1 (kill_term (be_pid b1) s1))) = forks s" by (simp only: stop_polls_forks f1)
  then show ?thesis
    using f1 by (auto simp del: stop_polls.simps simp add: stop_def r kill_and_wait_def split: bool.splits prod.splits)
qed

lemma stop_inv:
  assumes "stop b s = (b', s')" "tracked b s" "forks_ok s" shows "tracked b' s' \<and> forks_ok s'"
  using stop_cases [OF assms(2,1)] stop_forks [of b s] assms by (simp add: forks_ok_def no_children_tracked)

lemma start_inv:
  assumes "start b s = (e, b', s')" "tracked b s" "forks_ok s" shows "tracked b' s' \<and> forks_ok s'"
proof -
  obtain r b1 s1 where r: "running b s = (r, b1, s1)" by (rule prod_cases3)
  then have "forks s1 = forks s" using running_cases [OF assms(2) r] by simp
  then have "forks s' = forks s \<or> forks s' = tl (forks s)"
    using assms(1) r by (auto simp: start_def fork_exec_def split: if_splits list.splits option.splits prod.splits bool.splits)
  then have "forks_ok s'" using assms(3) by (cases "forks s") (auto simp: forks_ok_def)
  then show ?thesis using start_cases [OF assms(2,1,3)] by simp
qed

lemma host_inv_handlers:
  assumes "host_inv w"
  shows "host_inv (snd (host_status p w))" "host_inv (snd (host_enable p w))" "host_inv (snd (host_sync_apps p w))"
    "host_inv (snd (host_list_apps p w))" "host_inv (snd (host_trust_client hash p w))"
    "host_inv (snd (host_pair_accept hash p w))" "host_inv (snd (host_device_info p w))"
proof -
  note w = assms [unfolded host_inv_def]
  show "host_inv (snd (host_status p w))"
    using w by (auto simp: host_status_def host_active_def host_inv_def Let_def dest!: running_inv split: prod.splits)
  show "host_inv (snd (host_enable p w))"
    using w by (auto simp: host_enable_def host_active_def host_inv_def Let_def dest!: running_inv start_inv stop_inv split: prod.splits option.splits if_splits)
  show "host_inv (snd (host_sync_apps p w))" "host_inv (snd (host_list_apps p w))" "host_inv (snd (host_device_info p w))"
    using w by (auto simp: host_sync_apps_def host_list_apps_def host_device_info_def host_inv_def Let_def split: prod.splits bool.splits)
  show "host_inv (snd (host_trust_client hash p w))"
    using w by (auto simp: host_trust_client_def host_inv_def Let_def dest!: running_inv split: prod.splits bool.splits if_splits)
  show "host_inv (snd (host_pair_accept hash p w))"
    using w by (auto simp: host_pair_accept_def host_inv_def Let_def split: prod.splits bool.splits)
qed

lemma host_inv_method: "map_of (register_host_methods hash []) m = Some h \<Longrightarrow> host_inv w \<Longrightarrow> host_inv (snd (h p w))"
proof -
  assume m: "map_of (register_host_methods hash []) m = Some h" and w: "host_inv w"
  have "h = host_status \<or> h = host_enable \<or> h = host_sync_apps \<or> h = host_list_apps \<or> h = host_trust_client hash
      \<or> h = host_pair_accept hash \<or> h = host_device_info"
    using m unfolding register_host_methods_def on_def map_of_map_put fun_upd_apply
    by (simp only: option.inject map_of.simps option.distinct simp_thms split: if_split_asm)
  then show ?thesis by (elim disjE; hypsubst) (rule host_inv_handlers [OF w])+
qed

lemma shut_down_clean: "host_inv w \<Longrightarrow> children (hw_os (shut_down w)) = Map.empty"
proof -
  assume "host_inv w"
  obtain b s where st: "stop (hw_backend w) (hw_os w) = (b, s)" by force
  then have "\<forall>p. children s p = None" using stop_cases [OF _ st] \<open>host_inv w\<close> by (simp add: host_inv_def)
  with st show ?thesis by (simp add: shut_down_def fun_eq_iff)
qed

section \<open>Properties\<close>

lemma host_main_result:
  assumes "host_main version sys boot hash argv s fs = Some (code, out, s', fs')" "children s = Map.empty" "forks_ok s"
  shows "children s' = Map.empty \<and> code \<in> {0, 64, 69, 70}
         \<and> (code = 64 \<longleftrightarrow> ipc_token_from_args argv = [])
         \<and> (code = 69 \<longleftrightarrow> ipc_token_from_args argv \<noteq> [] \<and> isl (fst (connect_local sys (ipc_token_from_args argv))))
         \<and> (code \<in> {64, 69} \<longrightarrow> out = [] \<and> s' = s \<and> fs' = fs)
         \<and> (\<forall>t. code = 0 \<longrightarrow> fst (connect_local sys (ipc_token_from_args argv)) = Inr t \<longrightarrow> snd (handshake version socket_transport t) = None)"
proof -
  have boot: "host_inv (boot_world sys boot s fs)"
    using assms(2,3) by (simp add: host_inv_def boot_world_def new_backend_def tracked_def)
  have served: "children (hw_os (shut_down w)) = Map.empty"
    if "run socket_transport (register_host_methods hash []) t (boot_world sys boot s fs) = Some (t', w, e)" for t t' w e
  proof (rule shut_down_clean)
    show "host_inv w" using that boot by (rule run_preserves) (rule host_inv_method)
  qed
  show ?thesis
    using assms(1,2) served shut_down_clean [OF boot]
    by (auto simp: host_main_def Let_def split: if_splits sum.splits option.splits prod.splits)
qed

text \<open>
  Host mode leaves no Sunshine behind: whatever the launcher sends and however the connection
  ends, when \<^verbatim>\<open>host_main\<close> returns its child has been stopped; the exit code is 64 exactly without a
  token, 69 exactly when the connection cannot be made, 70 after a failed handshake or a broken
  stream and 0 after a clean end, and in the first two cases nothing was sent, started or written.
\<close>

theorem host_main_clean:
  assumes "host_main version sys boot hash argv s fs = Some (code, out, s', fs')" "children s = Map.empty" "forks_ok s"
  shows "children s' = Map.empty \<and> code \<in> {0, 64, 69, 70}
         \<and> (code = 64 \<longleftrightarrow> ipc_token_from_args argv = [])
         \<and> (code = 69 \<longleftrightarrow> ipc_token_from_args argv \<noteq> [] \<and> isl (fst (connect_local sys (ipc_token_from_args argv))))
         \<and> (code \<in> {64, 69} \<longrightarrow> out = [] \<and> s' = s \<and> fs' = fs)
         \<and> (\<forall>t. code = 0 \<longrightarrow> fst (connect_local sys (ipc_token_from_args argv)) = Inr t \<longrightarrow> snd (handshake version socket_transport t) = None)"
  by (rule host_main_result [OF assms])





definition empty_fs :: fsys where
  "empty_fs = \<lparr>files = Map.empty, can_open = (\<lambda>_. True), disk_room = (\<lambda>_. None), late_error = (\<lambda>_. False),
     can_replace = (\<lambda>_. True), can_create = (\<lambda>_. True), can_remove = (\<lambda>_. True)\<rparr>"




theorem host_main_clean_witness:
  "\<exists>out s' fs'. host_main ''1'' \<lparr>env_var = (\<lambda>_. None), open_socket = Inr 3, connect_to = (\<lambda>_. Inr ([], []))\<rparr>
      \<lparr>self_exe = Some ''/opt/engine'', path_exists = (\<lambda>_. True)\<rparr> (\<lambda>_. 0) [''host'', ''--ipc'', ''tok''] fresh_os empty_fs
      = Some (70, out, s', fs') \<and> children s' = Map.empty"
proof -
  let ?sys = "\<lparr>env_var = (\<lambda>_. None), open_socket = Inr 3, connect_to = (\<lambda>_. Inr ([], []))\<rparr> :: posix_env"
  let ?boot = "\<lparr>self_exe = Some ''/opt/engine'', path_exists = (\<lambda>_. True)\<rparr>"
  let ?t = "\<lparr>handle = 3, rxq = [], txq = [], sent = []\<rparr>"
  have tok: "ipc_token_from_args [''host'', ''--ipc'', ''tok''] = ''tok''" by simp
  have conn: "connect_local ?sys ''tok'' = (Inr ?t, [])" by (simp add: connect_local_def socket_path_def sun_path_size_def)
  have "frame_ok (dump (hello_msg ''1''))" by (rule hello_frame_ok) simp
  then have "snd (handshake ''1'' socket_transport ?t) = Some ''connection closed before handshake''"
    using sock.handshake_spec [of ?t "''1''"] by (simp add: sock_healthy_def conn_rx_def split_frame_def)
  then obtain t1 where "handshake ''1'' socket_transport ?t = (t1, Some ''connection closed before handshake'')" by (metis prod.collapse)
  then obtain out s' fs' where m: "host_main ''1'' ?sys ?boot (\<lambda>_. 0) [''host'', ''--ipc'', ''tok''] fresh_os empty_fs = Some (70, out, s', fs')"
    by (simp add: host_main_def Let_def tok conn)
  have "children fresh_os = Map.empty" "forks_ok fresh_os" by (simp_all add: fresh_os_def forks_ok_def)
  from host_main_clean [OF m this] m show ?thesis by blast
qed








end
