(* ===== verification/Xml.thy ===== *)
theory Xml
  imports Numbers
begin

text \<open>
  The extraction of fields from GameStream's XML answers and the hexadecimal helpers
  (\<^verbatim>\<open>src/src/net/gamestream_xml.h\<close>, \<^verbatim>\<open>src/src/net/gamestream_xml.cpp\<close>).  The sources scan text; so
  does the model, and the theorems say on which documents the scan finds what an XML reader finds.
\<close>

section \<open>Scanning\<close>

definition ends_name :: "char \<Rightarrow> bool" where
  "ends_name c \<longleftrightarrow> c = CHR ''>'' \<or> c = CHR ''/'' \<or> is_space c"

text \<open>The loop of \<^verbatim>\<open>find_start_tag\<close>, from an index on.\<close>

function start_tag_from :: "string \<Rightarrow> string \<Rightarrow> nat \<Rightarrow> nat option" where
  "start_tag_from xml tag from =
     (let needle = ''<'' @ tag
      in case str_find xml needle from of
           None \<Rightarrow> None
         | Some i \<Rightarrow>
             let after = i + length needle
             in if after < length xml \<and> ends_name (xml ! after) then Some i
                else start_tag_from xml tag (i + 1))"
  by pat_completeness auto
termination
  by (relation "measure (\<lambda>(xml, tag, from). Suc (length xml) - from)") (auto dest!: str_find_ge)

declare start_tag_from.simps [simp del]

definition find_start_tag :: "string \<Rightarrow> string \<Rightarrow> nat option" where
  "find_start_tag xml tag = start_tag_from xml tag 0"

function decode_entities :: "string \<Rightarrow> string" where
  "decode_entities s =
     (case s of
        [] \<Rightarrow> []
      | c # r \<Rightarrow>
          if c = CHR ''&'' \<and> take 5 s = ''&amp;'' then CHR ''&'' # decode_entities (drop 5 s)
          else if c = CHR ''&'' \<and> take 4 s = ''&lt;'' then CHR ''<'' # decode_entities (drop 4 s)
          else if c = CHR ''&'' \<and> take 4 s = ''&gt;'' then CHR ''>'' # decode_entities (drop 4 s)
          else if c = CHR ''&'' \<and> take 6 s = ''&quot;'' then CHR 0x22 # decode_entities (drop 6 s)
          else if c = CHR ''&'' \<and> take 6 s = ''&apos;'' then CHR 0x27 # decode_entities (drop 6 s)
          else c # decode_entities r)"
  by pat_completeness auto
termination
  by (relation "measure length") auto

declare decode_entities.simps [simp del]

definition xml_text :: "string \<Rightarrow> string \<Rightarrow> string" where
  "xml_text xml tag =
     (case find_start_tag xml tag of
        None \<Rightarrow> []
      | Some start \<Rightarrow>
          (case str_find xml ''>'' start of
             None \<Rightarrow> []
           | Some gt \<Rightarrow>
               if xml ! (gt - 1) = CHR ''/'' then []
               else
                 let content = gt + 1
                 in (case str_find xml (''</'' @ tag) content of
                       None \<Rightarrow> []
                     | Some close \<Rightarrow> decode_entities (substr xml content (close - content)))))"

definition xml_attr :: "string \<Rightarrow> string \<Rightarrow> string \<Rightarrow> string" where
  "xml_attr xml tag attr =
     (case find_start_tag xml tag of
        None \<Rightarrow> []
      | Some start \<Rightarrow>
          (case str_find xml ''>'' start of
             None \<Rightarrow> []
           | Some gt \<Rightarrow>
               let head = substr xml start (gt - start)
               in (case str_find head (attr @ ''='') 0 of
                     None \<Rightarrow> []
                   | Some a \<Rightarrow>
                       let q = a + length attr + 1
                       in if length head \<le> q \<or> (head ! q \<noteq> CHR 0x22 \<and> head ! q \<noteq> CHR 0x27) then []
                          else (case str_find head [head ! q] (q + 1) of
                                  None \<Rightarrow> []
                                | Some e \<Rightarrow> decode_entities (substr head (q + 1) (e - (q + 1)))))))"

section \<open>Hexadecimal text\<close>

definition hex_val :: "char \<Rightarrow> int" where
  "hex_val c = (case hex_digit c of Some d \<Rightarrow> int d | None \<Rightarrow> - 1)"

definition to_hex :: "bytes \<Rightarrow> string" where
  "to_hex bs = concat (map (\<lambda>c. [hex_char (byte_of c div 16), hex_char (byte_of c mod 16)]) bs)"

text \<open>The loop of \<^verbatim>\<open>from_hex\<close>; \<^term>\<open>None\<close> is its early return of the empty string.\<close>

fun from_hex_loop :: "string \<Rightarrow> bytes option" where
  "from_hex_loop (a # b # r) =
     (let hi = hex_val a; lo = hex_val b
      in if hi < 0 \<or> lo < 0 then None
         else map_option ((#) (char_of (nat (hi * 16 + lo)))) (from_hex_loop r))"
| "from_hex_loop _ = Some []"

definition from_hex :: "string \<Rightarrow> bytes" where
  "from_hex h =
     (if length h mod 2 \<noteq> 0 then []
      else (case from_hex_loop h of Some bs \<Rightarrow> bs | None \<Rightarrow> []))"

definition xml_text_hex :: "string \<Rightarrow> string \<Rightarrow> bytes" where
  "xml_text_hex xml tag = from_hex (xml_text xml tag)"

text \<open>What a server writes: the predefined entities in place of the special characters.\<close>

definition entity :: "char \<Rightarrow> string" where
  "entity c =
     (if c = CHR ''&'' then ''&amp;'' else if c = CHR ''<'' then ''&lt;''
      else if c = CHR ''>'' then ''&gt;'' else if c = CHR 0x22 then ''&quot;''
      else if c = CHR 0x27 then ''&apos;'' else [c])"

definition encode_entities :: "string \<Rightarrow> string" where
  "encode_entities s = concat (map entity s)"

section \<open>Hexadecimal round trip\<close>

lemma hex_val_hex_char [simp]: "d < 16 \<Longrightarrow> hex_val (hex_char d) = int d"
  by (simp add: hex_val_def)

lemma to_hex_Cons [simp]:
  "to_hex (c # bs) = hex_char (byte_of c div 16) # hex_char (byte_of c mod 16) # to_hex bs"
  "to_hex [] = []"
  by (simp_all add: to_hex_def)

lemma length_to_hex [simp]: "length (to_hex bs) = 2 * length bs"
  by (induction bs) simp_all

lemma byte_of_div_16: "byte_of c div 16 < 16"
  using byte_of_less_256 [of c] by (simp add: div_less_iff_less_mult)

lemma from_hex_loop_to_hex: "from_hex_loop (to_hex bs) = Some bs"
proof (induction bs)
  case (Cons c bs)
  have "nat (int (byte_of c div 16) * 16 + int (byte_of c mod 16)) = byte_of c"
    using div_mult_mod_eq [of "byte_of c" 16] by linarith
  then show ?case using Cons byte_of_div_16 [of c] by simp
qed simp

lemma from_hex_to_hex: "from_hex (to_hex bs) = bs"
  by (simp add: from_hex_def from_hex_loop_to_hex)

text \<open>A nonempty result is exactly the text's value, digit case aside.\<close>

lemma to_lower_hex: "hex_digit a = Some d \<Longrightarrow> hex_char d = to_lower a"
proof -
  assume "hex_digit a = Some d"
  then have "byte_of (hex_char d) = byte_of (to_lower a)"
    by (auto simp: hex_digit_def hex_char_def to_lower_def byte_of_char_of split: if_splits)
  then show ?thesis by simp
qed

lemma from_hex_loop_sound:
  "from_hex_loop h = Some bs \<Longrightarrow> even (length h) \<Longrightarrow> to_hex bs = map to_lower h"
proof (induction h arbitrary: bs rule: from_hex_loop.induct)
  case (1 a b r)
  then obtain x y where xy: "hex_digit a = Some x" "hex_digit b = Some y"
    by (auto simp: hex_val_def split: option.splits if_splits)
  with 1 obtain bs' where bs': "from_hex_loop r = Some bs'" "bs = char_of (x * 16 + y) # bs'"
    by (auto simp: hex_val_def nat_add_distrib nat_mult_distrib)
  have "x * 16 + y < 256" "y < 16" using hex_digit_less [OF xy(1)] hex_digit_less [OF xy(2)] by auto
  then show ?case using 1(1) [of _ _ bs'] 1(3) bs' xy
    by (auto simp: hex_val_def byte_of_char_of to_lower_hex)
qed (auto simp: to_hex_def)

section \<open>Finding an element\<close>

definition tag_at :: "string \<Rightarrow> string \<Rightarrow> nat \<Rightarrow> bool" where
  "tag_at xml tag i \<longleftrightarrow> (\<exists>c r. drop i xml = ''<'' @ tag @ c # r \<and> ends_name c)"

lemma tag_at_iff:
  assumes "prefix (''<'' @ tag) (drop i xml)"
  shows "i + length (''<'' @ tag) < length xml \<and> ends_name (xml ! (i + length (''<'' @ tag))) \<longleftrightarrow> tag_at xml tag i"
proof -
  obtain rest where r: "drop i xml = (''<'' @ tag) @ rest" using assms by (auto simp: prefix_def)
  have i: "i \<le> length xml" using r by (metis drop_all append_is_Nil_conv list.distinct(1) nat_le_linear append_Cons)
  have len: "length xml = i + length (''<'' @ tag) + length rest"
    using arg_cong [OF r, of length] i by simp
  have nth: "xml ! (i + length (''<'' @ tag)) = rest ! 0" if "rest \<noteq> []"
    using that arg_cong [OF r, of "\<lambda>x. x ! length (''<'' @ tag)"] i by (simp add: nth_append)
  show ?thesis
    using len nth r by (cases rest) (auto simp: tag_at_def)
qed

lemma start_tag_from_spec:
  "case start_tag_from xml tag pos of
     Some i \<Rightarrow> pos \<le> i \<and> tag_at xml tag i \<and> (\<forall>j. pos \<le> j \<longrightarrow> j < i \<longrightarrow> \<not> tag_at xml tag j)
   | None \<Rightarrow> (\<forall>j\<ge>pos. \<not> tag_at xml tag j)"
proof (induction xml tag pos rule: start_tag_from.induct)
  case (1 xml tag pos)
  let ?n = "''<'' @ tag"
  show ?case
  proof (cases "str_find xml ?n pos")
    case None
    have "\<not> tag_at xml tag j" if "pos \<le> j" for j
    proof
      assume "tag_at xml tag j"
      then have p: "prefix ?n (drop j xml)" and "j < length xml"
        by (auto simp: tag_at_def) (metis drop_all list.distinct(1) not_le)
      then have "j - pos \<le> length (drop pos xml)" "pos \<le> length xml" using that by auto
      then have "\<not> prefix ?n (drop (j - pos) (drop pos xml))"
        using None unfolding str_find_def by (simp add: find_sub_None_iff del: drop_drop)
      with p show False using that by simp
    qed
    then show ?thesis using None by (subst start_tag_from.simps) simp
  next
    case (Some i)
    then obtain z where z: "find_sub ?n (drop pos xml) = Some z" "i = pos + z"
      by (auto simp: str_find_def split: if_splits)
    then have i: "pos \<le> i" "prefix ?n (drop i xml)" by (simp_all add: find_sub_Some_iff add.commute)
    have first: "\<not> prefix ?n (drop j xml)" if "pos \<le> j" "j < i" for j
    proof -
      have "j - pos < z" using that z(2) by simp
      then have "\<not> prefix ?n (drop (j - pos) (drop pos xml))" using z(1) unfolding find_sub_Some_iff by blast
      then show ?thesis using that by simp
    qed
    have before: "\<not> tag_at xml tag j" if "pos \<le> j" "j < i" for j
      using first [OF that] by (auto simp: tag_at_def)
    show ?thesis
    proof (cases "tag_at xml tag i")
      case True
      then show ?thesis using Some i before tag_at_iff [OF i(2)]
        by (subst start_tag_from.simps) (simp add: Let_def)
    next
      case False
      then have rec: "start_tag_from xml tag pos = start_tag_from xml tag (i + 1)"
        using Some tag_at_iff [OF i(2)] by (subst start_tag_from.simps) (auto simp: Let_def)
      have notyet: "\<not> tag_at xml tag j" if "pos \<le> j" "j < i + 1" for j
        using before [OF that(1)] False that(2) by (cases "j = i") auto
      from 1 [OF refl Some refl] False tag_at_iff [OF i(2)] notyet i(1) show ?thesis
        unfolding rec by (auto split: option.splits) (meson not_less order.trans)+
    qed
  qed
qed
lemma find_start_tag_first:
  assumes "tag_at xml tag i" "\<And>j. j < i \<Longrightarrow> \<not> tag_at xml tag j"
  shows "find_start_tag xml tag = Some i"
proof (cases "find_start_tag xml tag")
  case None
  then show ?thesis using assms(1) start_tag_from_spec [of 0 xml tag] by (simp add: find_start_tag_def)
next
  case (Some k)
  then have "tag_at xml tag k" "\<And>j. j < k \<Longrightarrow> \<not> tag_at xml tag j"
    using start_tag_from_spec [of 0 xml tag] by (auto simp: find_start_tag_def)
  then have "k = i" using assms by (metis linorder_neqE_nat)
  with Some show ?thesis by simp
qed

lemma tag_at_append_left:
  assumes "CHR ''<'' \<notin> set tag" "i < length pre" "tag_at (pre @ CHR ''<'' # s) tag i"
  shows "tag_at pre tag i"
proof -
  obtain c r where cr: "drop i pre @ CHR ''<'' # s = CHR ''<'' # tag @ c # r" "ends_name c"
    using assms(2,3) by (auto simp: tag_at_def)
  obtain d rest where d: "drop i pre = d # rest" using assms(2) by (cases "drop i pre") auto
  have "length (tag @ [c]) \<le> length rest"
  proof (rule ccontr)
    assume "\<not> length (tag @ [c]) \<le> length rest"
    then have k: "length rest < length (tag @ [c])" by simp
    have e: "rest @ CHR ''<'' # s = (tag @ [c]) @ r" using cr d by simp
    have "(tag @ [c]) ! length rest = ((tag @ [c]) @ r) ! length rest" using k by (simp only: nth_append) simp
    also have "\<dots> = CHR ''<''" by (simp only: e [symmetric] nth_append) simp
    finally have "CHR ''<'' \<in> set (tag @ [c])" using k by (metis nth_mem)
    then show False using assms(1) cr(2) by (auto simp: ends_name_def is_space_def byte_of_def)
  qed
  moreover have "rest @ CHR ''<'' # s = (tag @ [c]) @ r" using cr d by simp
  ultimately obtain us where "rest = (tag @ [c]) @ us"
    by (metis append_eq_append_conv_if append_take_drop_id)
  then show ?thesis using cr d by (auto simp: tag_at_def)
qed

lemma find_start_tag_after:
  assumes "find_start_tag pre tag = None" "CHR ''<'' \<notin> set tag" "ends_name c"
  shows "find_start_tag (pre @ CHR ''<'' # tag @ c # rest) tag = Some (length pre)"
proof (rule find_start_tag_first)
  show "tag_at (pre @ CHR ''<'' # tag @ c # rest) tag (length pre)"
    using assms(3) by (simp add: tag_at_def)
  fix j assume "j < length pre"
  then show "\<not> tag_at (pre @ CHR ''<'' # tag @ c # rest) tag j"
    using tag_at_append_left [OF assms(2)] start_tag_from_spec [of 0 pre tag] assms(1)
    by (auto simp: find_start_tag_def)
qed

section \<open>Entities\<close>

lemma entity_special: "CHR ''<'' \<notin> set (entity c)" "CHR ''>'' \<notin> set (entity c)"
    "CHR 0x22 \<notin> set (entity c)" "CHR 0x27 \<notin> set (entity c)"
  by (auto simp: entity_def)

lemma encode_entities_special:
  "CHR ''<'' \<notin> set (encode_entities s)" "CHR ''>'' \<notin> set (encode_entities s)"
  "CHR 0x22 \<notin> set (encode_entities s)" "CHR 0x27 \<notin> set (encode_entities s)"
  by (auto simp: encode_entities_def entity_special)

lemma decode_entity: "decode_entities (entity c @ s) = c # decode_entities s"
  by (subst decode_entities.simps) (auto simp: entity_def)

lemma decode_encode: "decode_entities (encode_entities s) = s"
proof (induction s)
  case Nil
  then show ?case by (simp add: encode_entities_def decode_entities.simps)
qed (simp add: encode_entities_def decode_entity)

section \<open>Properties\<close>

lemma str_find_in:
  assumes "n \<noteq> []" "hd n \<notin> set mid"
  shows "str_find (pre @ mid @ n @ s) n (length pre) = Some (length pre + length mid)"
  using find_sub_skip [OF assms, of "n @ s"] by (simp add: str_find_append)

lemma substr_mid: "substr (pre @ mid @ s) (length pre) (length mid) = mid"
  by (simp add: substr_def)

lemma find_start_tag_attrs:
  assumes "find_start_tag pre tag = None" "CHR ''<'' \<notin> set tag" "attrs \<noteq> []" "ends_name (hd attrs)"
  shows "find_start_tag (pre @ ''<'' @ tag @ attrs @ rest) tag = Some (length pre)"
  using find_start_tag_after [OF assms(1,2), of "hd attrs" "tl attrs @ rest"] assms(3,4)
  by (cases attrs) auto

lemma xml_attr_eq:
  assumes "find_start_tag xml tag = Some st" "str_find xml ''>'' st = Some (st + n)"
    "substr xml st n = head" "str_find head (attr @ ''='') 0 = Some a"
    "k = a + length attr + 1" "k < length head" "head ! k = c" "c = CHR 0x22 \<or> c = CHR 0x27"
    "str_find head [c] (k + 1) = Some (k + 1 + m)"
  shows "xml_attr xml tag attr = decode_entities (substr head (k + 1) m)"
  using assms by (auto simp: xml_attr_def Let_def)

lemma xml_attr_value:
  assumes "find_start_tag pre tag = None" "CHR ''<'' \<notin> set tag" "CHR ''>'' \<notin> set (tag @ before @ attr @ after)"
    "before \<noteq> []" "is_space (hd before)" "q = CHR 0x22 \<or> q = CHR 0x27"
    "find_sub (attr @ ''='') (''<'' @ tag @ before @ attr @ ''='') = Some (Suc (length tag + length before))"
  shows "xml_attr (pre @ ''<'' @ tag @ before @ attr @ ''='' @ [q] @ encode_entities v @ [q] @ after @ ''>'' @ post) tag attr = v"
proof -
  let ?start = "''<'' @ tag @ before"
  let ?head = "?start @ attr @ ''='' @ [q] @ encode_entities v @ [q] @ after"
  let ?xml = "pre @ ?head @ ''>'' @ post"
  have "find_start_tag ?xml tag = Some (length pre)"
    using find_start_tag_attrs [OF assms(1,2,4)] assms(5) by (simp add: ends_name_def)
  moreover have "str_find ?xml ''>'' (length pre) = Some (length pre + length ?head)"
    using str_find_in [of "''>''" ?head pre post] assms(3,6) encode_entities_special(2) [of v] by auto
  moreover have "substr ?xml (length pre) (length ?head) = ?head"
    by (rule substr_mid)
  moreover have "str_find ?head (attr @ ''='') 0 = Some (length ?start)"
  proof -
    have "\<not> prefix (attr @ ''='') (drop j ?head)" if "j < length ?start" for j
    proof -
      have "\<not> prefix (attr @ ''='') (drop j (?start @ attr @ ''=''))"
        using assms(7) that unfolding find_sub_Some_iff by simp
      moreover have "drop j ?head = drop j (?start @ attr @ ''='') @ [q] @ encode_entities v @ [q] @ after"
        using that by (cases j) auto
      moreover have "length (attr @ ''='') \<le> length (drop j (?start @ attr @ ''=''))" using that by simp
      ultimately show ?thesis by (metis prefix_length_prefix prefix_append prefixI)
    qed
    moreover have "drop (length ?start) ?head = attr @ ''='' @ [q] @ encode_entities v @ [q] @ after" by simp
    ultimately show ?thesis unfolding str_find_zero find_sub_Some_iff by (intro conjI allI impI) auto
  qed
  moreover have "?head ! (length ?start + length attr + 1) = q" by (simp add: nth_append)
  moreover have "str_find ?head [q] (length ?start + length attr + 1 + 1)
      = Some (length ?start + length attr + 1 + 1 + length (encode_entities v))"
    using str_find_in [of "[q]" "encode_entities v" "?start @ attr @ ''='' @ [q]" after]
      assms(6) encode_entities_special(3,4) [of v] by (auto simp: add.assoc)
  ultimately have "xml_attr ?xml tag attr
      = decode_entities (substr ?head (length ?start + length attr + 1 + 1) (length (encode_entities v)))"
    by (intro xml_attr_eq [OF _ _ _ _ refl _ _ assms(6)]) (assumption | simp)+
  also have "substr ?head (length ?start + length attr + 1 + 1) (length (encode_entities v)) = encode_entities v"
    using substr_mid [of "?start @ attr @ ''='' @ [q]" "encode_entities v" "[q] @ after"] by (simp add: add.assoc)
  finally have "xml_attr ?xml tag attr = decode_entities (encode_entities v)" .
  then show ?thesis by (simp add: decode_encode)
qed

text \<open>
  Hexadecimal text carries any bytes: \<open>from_hex\<close> undoes \<open>to_hex\<close>, and whenever \<open>from_hex\<close>
  returns bytes at all, its input was their hexadecimal text (in either digit case), so that
  nothing malformed or of odd length is ever decoded.
\<close>

theorem hex_roundtrip:
  "from_hex (to_hex bs) = bs \<and> (from_hex h \<noteq> [] \<longrightarrow> to_hex (from_hex h) = map to_lower h)"
  using from_hex_to_hex [of bs] from_hex_loop_sound [of h]
  by (auto simp: from_hex_def even_iff_mod_2_eq_zero split: option.splits if_splits)

theorem hex_roundtrip_witness: "to_hex (from_hex ''4aF0'') = ''4af0''"
proof -
  have "from_hex ''4aF0'' = [CHR 0x4A, CHR 0xF0]" "map to_lower ''4aF0'' = ''4af0''" by code_simp+
  then show ?thesis using hex_roundtrip [of "[]" "''4aF0''"] by simp
qed

lemma xml_text_value:
  assumes "find_start_tag pre tag = None" "CHR ''<'' \<notin> set tag" "CHR ''>'' \<notin> set (tag @ attrs)"
    "attrs = [] \<or> is_space (hd attrs)" "last (''<'' @ tag @ attrs) \<noteq> CHR ''/''"
  shows "xml_text (pre @ ''<'' @ tag @ attrs @ ''>'' @ encode_entities v @ ''</'' @ tag @ post) tag = v"
proof -
  let ?head = "pre @ ''<'' @ tag @ attrs"
  let ?body = "encode_entities v @ ''</'' @ tag @ post"
  let ?xml = "?head @ ''>'' @ ?body"
  have "find_start_tag ?xml tag = Some (length pre)"
  proof (cases attrs)
    case Nil
    then show ?thesis using find_start_tag_after [OF assms(1,2), of "CHR ''>''" ?body]
      by (simp add: ends_name_def)
  next
    case (Cons c r)
    then show ?thesis using find_start_tag_after [OF assms(1,2), of c "r @ ''>'' @ ?body"] assms(4)
      by (simp add: ends_name_def)
  qed
  moreover have "str_find ?xml ''>'' (length pre) = Some (length ?head)"
    using str_find_in [of "''>''" "''<'' @ tag @ attrs" pre ?body] assms(3) by simp
  moreover have "?xml ! (length ?head - 1) \<noteq> CHR ''/''"
  proof -
    have "?xml ! (length ?head - 1) = last ?head"
      by (subst nth_append) (simp add: last_conv_nth)
    then show ?thesis using assms(5) by (simp add: last_append)
  qed
  moreover have "str_find ?xml (''</'' @ tag) (length ?head + 1) = Some (length ?head + 1 + length (encode_entities v))"
    using str_find_in [of "''</'' @ tag" "encode_entities v" "?head @ ''>''" post] encode_entities_special(1) [of v]
    by simp
  moreover have "substr ?xml (length ?head + 1) (length (encode_entities v)) = encode_entities v"
    using substr_append [of "?head @ ''>''" ?body] by simp
  ultimately have "xml_text ?xml tag = decode_entities (encode_entities v)"
    by (simp add: xml_text_def Let_def)
  then show ?thesis by (simp add: decode_encode)
qed

text \<open>
  \<open>xml_text\<close> reads back what a server writes.  In a document in which the element is the first
  with its name, with any attributes and any content escaped with the predefined entities, whatever
  stands before (other elements, also ones whose name merely begins with the tag) and after it, the
  result is the content, unescaped.
\<close>

theorem xml_text_roundtrip:
  assumes "find_start_tag pre tag = None" "CHR ''<'' \<notin> set tag" "CHR ''>'' \<notin> set (tag @ attrs)"
    "attrs = [] \<or> is_space (hd attrs)" "last (''<'' @ tag @ attrs) \<noteq> CHR ''/''"
  shows "xml_text (pre @ ''<'' @ tag @ attrs @ ''>'' @ encode_entities v @ ''</'' @ tag @ post) tag = v"
  by (rule xml_text_value [OF assms])

theorem xml_text_roundtrip_witness:
  "xml_text (''<HttpsPort>1</HttpsPort><Http a=b>x&amp;y</Http>'') ''Http'' = ''x&y''"
proof -
  have n: "find_start_tag ''<HttpsPort>1</HttpsPort>'' ''Http'' = None" by code_simp
  show ?thesis
    using xml_text_roundtrip [OF n, of "'' a=b''" "''x&y''" "''>''"]
    by (simp add: encode_entities_def entity_def is_space_def byte_of_def)
qed

end
