(* ===== verification/Http.thy ===== *)
theory Http
  imports Xml Transport
begin

text \<open>
  The HTTP client for GameStream hosts (\<^verbatim>\<open>src/src/net/http_client.h\<close>,
  \<^verbatim>\<open>src/src/net/http_client.cpp\<close>): the request target, the chunked-transfer decoder, the response
  parser, and \<^verbatim>\<open>NvHttpClient::request\<close> over plain TCP and over TLS with the pinned server
  certificate.  Sizes and offsets of the decoder are \<^verbatim>\<open>size_t\<close>, so its sums are taken modulo
  \<open>2 ^ 64\<close>; its loop may run forever and is therefore a partial function whose result
  \<^term>\<open>None\<close> means that it never returns.  Sockets are the connections of the transport model, and
  OpenSSL is a parameter: what a PEM text parses to, and what the TLS handshake yields.
\<close>

section \<open>Requests\<close>

definition build_request_target :: "string \<Rightarrow> string \<Rightarrow> string \<Rightarrow> string \<Rightarrow> string" where
  "build_request_target command uniqueId uuidHex args =
     (let t = ''/'' @ command @ ''?uniqueid='' @ uniqueId @ ''&uuid='' @ uuidHex
      in if args \<noteq> [] then t @ ''&'' @ args else t)"

text \<open>\<^verbatim>\<open>random_uuid_hex\<close>; the argument is the outcome of \<^verbatim>\<open>RAND_bytes\<close>.\<close>

definition random_uuid_hex :: "bytes option \<Rightarrow> string" where
  "random_uuid_hex rnd =
     (case rnd of None \<Rightarrow> ''00000000000000000000000000000000'' | Some b \<Rightarrow> to_hex b)"

section \<open>Chunked bodies\<close>

definition crlf :: string where
  "crlf = [CHR 0x0D, CHR 0x0A]"

definition size_max :: nat where
  "size_max = 2 ^ 64"

text \<open>The chunk size: the leading hexadecimal digits of the line, and whether there are any.\<close>

fun chunk_len :: "string \<Rightarrow> nat \<Rightarrow> bool \<Rightarrow> nat \<times> bool" where
  "chunk_len [] len any = (len, any)"
| "chunk_len (c # cs) len any =
     (case hex_digit c of
        None \<Rightarrow> (len, any)
      | Some v \<Rightarrow> chunk_len cs ((len * 16 + v) mod size_max) True)"

partial_function (option) dechunk_loop :: "string \<Rightarrow> string \<Rightarrow> nat \<Rightarrow> string option" where
  "dechunk_loop body out i =
     (if \<not> i < length body then Some out
      else case str_find body crlf i of
             None \<Rightarrow> Some out
           | Some eol \<Rightarrow>
               let (len, any) = chunk_len (substr body i (eol - i)) 0 False
               in if \<not> any \<or> len = 0 then Some out
                  else
                    let start = eol + 2; stop = (start + len) mod size_max
                    in if length body < stop then Some out
                       else dechunk_loop body (out @ substr body start len) ((stop + 2) mod size_max))"

definition dechunk :: "string \<Rightarrow> string option" where
  "dechunk body = dechunk_loop body [] 0"

section \<open>Responses\<close>

record http_response =
  rsp_ok :: bool
  httpStatus :: int
  rsp_body :: string

definition no_response :: http_response where
  "no_response = \<lparr>rsp_ok = False, httpStatus = 0, rsp_body = []\<rparr>"

definition split_headers :: "string \<Rightarrow> nat \<times> nat" where
  "split_headers raw =
     (case str_find raw (crlf @ crlf) 0 of
        Some sep \<Rightarrow> (sep, sep + 4)
      | None \<Rightarrow>
          (case str_find raw [CHR 0x0A, CHR 0x0A] 0 of
             Some sep \<Rightarrow> (sep, sep + 2)
           | None \<Rightarrow> (length raw, length raw)))"

definition parse_http_response :: "string \<Rightarrow> http_response option" where
  "parse_http_response raw =
     (if take 5 raw \<noteq> ''HTTP/'' then Some no_response
      else case str_find raw '' '' 0 of
             None \<Rightarrow> Some no_response
           | Some sp \<Rightarrow>
               let status = atoi (drop (sp + 1) raw);
                   (hdr_end, body_at) = split_headers raw;
                   headers = map to_lower (substr raw 0 hdr_end);
                   body = drop body_at raw
               in (case (if str_find headers ''transfer-encoding: chunked'' 0 \<noteq> None then dechunk body else Some body) of
                     None \<Rightarrow> None
                   | Some b \<Rightarrow> Some \<lparr>rsp_ok = True, httpStatus = status, rsp_body = b\<rparr>))"

section \<open>The client\<close>

record client_identity =
  certPem :: string
  keyPem :: string

record nv_client =
  cl_host :: string
  httpPort :: int
  httpsPort :: int
  cl_identity :: client_identity
  cl_uniqueId :: string
  pinnedServerCert :: string

definition new_client :: "string \<Rightarrow> int \<Rightarrow> int \<Rightarrow> client_identity \<Rightarrow> string \<Rightarrow> nv_client" where
  "new_client host http https ident uid =
     \<lparr>cl_host = host, httpPort = http, httpsPort = https, cl_identity = ident, cl_uniqueId = uid,
      pinnedServerCert = []\<rparr>"

definition set_pinned_server_cert :: "string \<Rightarrow> nv_client \<Rightarrow> nv_client" where
  "set_pinned_server_cert pem c = c\<lparr>pinnedServerCert := pem\<rparr>"

definition set_https_port :: "int \<Rightarrow> nv_client \<Rightarrow> nv_client" where
  "set_https_port p c = c\<lparr>httpsPort := p\<rparr>"

text \<open>
  What one request meets outside: the random bytes; for each address of the host, whether a socket
  connected and the connection; and the outcome of the TLS handshake, for the client credentials
  presented: the peer's certificate and the decrypted byte streams.
\<close>

record ('c, 'k) attempt =
  rand16 :: "bytes option"
  addrs :: "conn option list"
  tls_connect :: "'c option \<Rightarrow> 'k option \<Rightarrow> ('c option \<times> conn) option"

record ('c, 'k) openssl =
  pem_cert :: "string \<Rightarrow> 'c option"
  pem_key :: "string \<Rightarrow> 'k option"
  x509_same :: "'c \<Rightarrow> 'c \<Rightarrow> bool"

text \<open>\<^verbatim>\<open>tcp_connect\<close>: the first address that accepts; the others are closed.\<close>

fun tcp_connect :: "conn option list \<Rightarrow> conn option" where
  "tcp_connect [] = None"
| "tcp_connect (None # as) = tcp_connect as"
| "tcp_connect (Some c # as) = Some c"

text \<open>\<^verbatim>\<open>send_all\<close> and \<^verbatim>\<open>send_all_ssl\<close>: any call that does not transfer bytes fails the whole.  This is
  the loop of \<^verbatim>\<open>PipeTransport::write_all\<close>.\<close>

definition send_all :: "conn \<Rightarrow> bytes \<Rightarrow> conn \<times> bool" where
  "send_all c data = pipe_write c data"

text \<open>\<^verbatim>\<open>recv_all_plain\<close> and \<^verbatim>\<open>recv_all_ssl\<close>: read up to 4096 bytes at a time until the end or an error.\<close>

function recv_all :: "conn \<Rightarrow> bytes \<Rightarrow> bytes" where
  "recv_all c out =
     (case sys_recv c 4096 of
        (c', Bytes bs) \<Rightarrow> if bs = [] then out else recv_all c' (out @ bs)
      | (_, _) \<Rightarrow> out)"
  by pat_completeness auto
termination
  by (relation "measure (\<lambda>(c, out). length (conn_rx c))") (auto dest!: sys_recv_Bytes [OF sym])

declare recv_all.simps [simp del]

definition read_pem_cert :: "('c, 'k) openssl \<Rightarrow> string \<Rightarrow> 'c option" where
  "read_pem_cert ssl pem = (if pem = [] then None else pem_cert ssl pem)"

text \<open>Send the request over an open channel and read the whole answer.\<close>

definition exchange :: "conn \<Rightarrow> bytes \<Rightarrow> bytes \<times> bytes" where
  "exchange c req = (case send_all c req of (c', ok) \<Rightarrow> (sent c', if ok then recv_all c' [] else []))"

text \<open>\<^verbatim>\<open>NvHttpClient::request\<close>; beside the body stand the bytes handed to the channel, and the result
  \<^term>\<open>None\<close> is a response whose decoding never ends.\<close>

definition request ::
  "('c, 'k) openssl \<Rightarrow> nv_client \<Rightarrow> bool \<Rightarrow> int \<Rightarrow> string \<Rightarrow> string \<Rightarrow> ('c, 'k) attempt \<Rightarrow> (string \<times> bytes) option" where
  "request ssl cl https port command args net =
     (let target = build_request_target command (cl_uniqueId cl) (random_uuid_hex (rand16 net)) args;
          req = ''GET '' @ target @ '' HTTP/1.1'' @ crlf @ ''Host: '' @ cl_host cl @ '':'' @ to_string port
                  @ crlf @ ''Connection: close'' @ crlf @ crlf
      in case tcp_connect (addrs net) of
           None \<Rightarrow> Some ([], [])
         | Some c \<Rightarrow>
             let (out, raw) =
               (if \<not> https then exchange c req
                else
                  (case tls_connect net (read_pem_cert ssl (certPem (cl_identity cl)))
                          (if keyPem (cl_identity cl) = [] then None else pem_key ssl (keyPem (cl_identity cl))) of
                     None \<Rightarrow> ([], [])
                   | Some (peer, ch) \<Rightarrow>
                       (case (peer, read_pem_cert ssl (pinnedServerCert cl)) of
                          (Some p, Some pinned) \<Rightarrow> if x509_same ssl p pinned then exchange ch req else ([], [])
                        | _ \<Rightarrow> ([], []))))
             in (case parse_http_response raw of
                   None \<Rightarrow> None
                 | Some resp \<Rightarrow> Some (if rsp_ok resp then rsp_body resp else [], out)))"

definition get_http ::
  "('c, 'k) openssl \<Rightarrow> nv_client \<Rightarrow> string \<Rightarrow> string \<Rightarrow> ('c, 'k) attempt \<Rightarrow> (string \<times> bytes) option" where
  "get_http ssl cl command args net = request ssl cl False (httpPort cl) command args net"

definition get_https ::
  "('c, 'k) openssl \<Rightarrow> nv_client \<Rightarrow> string \<Rightarrow> string \<Rightarrow> ('c, 'k) attempt \<Rightarrow> (string \<times> bytes) option" where
  "get_https ssl cl command args net = request ssl cl True (httpsPort cl) command args net"

section \<open>The decoder on well-formed bodies\<close>

text \<open>What a server writes: each chunk with its length in hexadecimal, then the last chunk.\<close>

fun hex_digits :: "nat \<Rightarrow> string" where
  "hex_digits n = (if n < 16 then [hex_char n] else hex_digits (n div 16) @ [hex_char (n mod 16)])"

declare hex_digits.simps [simp del]

definition encode_chunk :: "string \<Rightarrow> string" where
  "encode_chunk c = hex_digits (length c) @ crlf @ c @ crlf"

definition encode_chunks :: "string list \<Rightarrow> string" where
  "encode_chunks cs = concat (map encode_chunk cs) @ ''0'' @ crlf @ crlf"

lemma chunk_len_hex_digits:
  "chunk_len (hex_digits n @ r) 0 any = chunk_len r (n mod size_max) True"
proof (induction n arbitrary: r any rule: hex_digits.induct)
  case (1 n)
  show ?case
  proof (cases "n < 16")
    case False
    have "n div 16 mod size_max * 16 + n mod 16 = n mod (size_max * 16)"
      by (simp add: mod_mult2_eq [of n 16 size_max, simplified mult.commute [of 16]])
    then have "(n div 16 mod size_max * 16 + n mod 16) mod size_max = n mod size_max"
      by (simp add: mod_mod_cancel)
    moreover have "chunk_len (hex_digits (n div 16) @ hex_char (n mod 16) # r) 0 any
        = chunk_len (hex_char (n mod 16) # r) (n div 16 mod size_max) True"
      using 1 [OF False, of "hex_char (n mod 16) # r"] .
    ultimately show ?thesis using False by (subst hex_digits.simps) simp
  qed (subst hex_digits.simps, simp add: size_max_def)
qed

lemma hex_digits_chars: "c \<in> set (hex_digits n) \<Longrightarrow> hex_digit c \<noteq> None"
proof (induction n rule: hex_digits.induct)
  case (1 n)
  then show ?case by (subst (asm) hex_digits.simps) (auto split: if_splits)
qed

lemma hex_digits_no_cr: "CHR 0x0D \<notin> set (hex_digits n)"
  using hex_digits_chars [of "CHR 0x0D" n] by (auto simp: hex_digit_def byte_of_def)

lemma dechunk_step:
  assumes "body = pre @ encode_chunk c @ rest" "c \<noteq> []" "length body < 2 ^ 63"
  shows "dechunk_loop body out (length pre) = dechunk_loop body (out @ c) (length (pre @ encode_chunk c))"
proof -
  let ?h = "hex_digits (length c)"
  have eol: "str_find body crlf (length pre) = Some (length pre + length ?h)"
    using str_find_in [of crlf ?h pre "c @ crlf @ rest"] hex_digits_no_cr [of "length c"] assms(1)
    by (simp add: crlf_def encode_chunk_def)
  have lens: "length body = length pre + length ?h + 2 + length c + 2 + length rest"
    using assms(1) by (simp add: encode_chunk_def crlf_def)
  then have "length c < size_max" "length pre + length ?h + 2 + length c + 2 < size_max"
    using assms(3) by (simp_all add: size_max_def)
  moreover have "substr body (length pre) (length ?h) = ?h"
    using assms(1) substr_mid [of pre ?h] by (simp add: encode_chunk_def)
  moreover have "substr body (length pre + length ?h + 2) (length c) = c"
    using substr_mid [of "pre @ ?h @ crlf" c "crlf @ rest"] assms(1)
    by (simp add: encode_chunk_def crlf_def add.assoc)
  ultimately show ?thesis
    using eol lens assms(2) chunk_len_hex_digits [of "length c" "[]" False]
    by (subst dechunk_loop.simps) (simp add: Let_def encode_chunk_def crlf_def add.assoc)
qed

lemma dechunk_last:
  assumes "body = pre @ ''0'' @ crlf @ rest"
  shows "dechunk_loop body out (length pre) = Some out"
proof -
  have "str_find body crlf (length pre) = Some (length pre + 1)"
    using str_find_in [of crlf "''0''" pre rest] assms by (simp add: crlf_def)
  moreover have "substr body (length pre) 1 = ''0''"
    using assms by (simp add: substr_def)
  ultimately show ?thesis
    by (subst dechunk_loop.simps) (simp add: hex_digit_def byte_of_def size_max_def)
qed

lemma dechunk_chunks:
  "body = pre @ encode_chunks cs \<Longrightarrow> list_all (\<lambda>c. c \<noteq> []) cs \<Longrightarrow> length body < 2 ^ 63 \<Longrightarrow>
     dechunk_loop body out (length pre) = Some (out @ concat cs)"
proof (induction cs arbitrary: pre out)
  case Nil
  then show ?case using dechunk_last [of body pre crlf] by (simp add: encode_chunks_def)
next
  case (Cons c cs)
  have "dechunk_loop body out (length pre) = dechunk_loop body (out @ c) (length (pre @ encode_chunk c))"
    using Cons.prems by (intro dechunk_step [of _ _ _ "encode_chunks cs"]) (auto simp: encode_chunks_def)
  also have "\<dots> = Some ((out @ c) @ concat cs)"
    using Cons.prems by (intro Cons.IH) (auto simp: encode_chunks_def)
  finally show ?case by simp
qed

section \<open>The decoder on any body\<close>

lemma str_find_pos: "str_find s n i = Some k \<Longrightarrow> i \<le> k" "str_find s n i = Some k \<Longrightarrow> k + length n \<le> length s"
  by (auto dest: str_find_ge)

text \<open>As long as no size line is close to \<open>2 ^ 64\<close>, every round moves forward and the loop ends.\<close>

definition sane_sizes :: "string \<Rightarrow> bool" where
  "sane_sizes body \<longleftrightarrow> (\<forall>i<length body. \<forall>n. fst (chunk_len (substr body i n) 0 False) < 2 ^ 63)"

lemma dechunk_loop_ends:
  "sane_sizes body \<Longrightarrow> length body < 2 ^ 62 \<Longrightarrow> i < 2 ^ 63 \<Longrightarrow>
     \<exists>r. dechunk_loop body out i = Some (out @ r) \<and> length r \<le> length body - i"
proof (induction "length body - i" arbitrary: i out rule: less_induct)
  case less
  show ?case
  proof (cases "i < length body")
    case True
    show ?thesis
    proof (cases "str_find body crlf i")
      case (Some eol)
      obtain len any where cl: "chunk_len (substr body i (eol - i)) 0 False = (len, any)" by force
      then have len: "len < 2 ^ 63" using less.prems(1) True by (metis fst_conv sane_sizes_def)
      have eol: "i \<le> eol" "eol + 2 \<le> length body" using str_find_pos [OF Some] by (auto simp: crlf_def)
      then have nowrap: "(eol + 2 + len) mod size_max = eol + 2 + len"
        using len less.prems(2) by (simp add: size_max_def)
      show ?thesis
      proof (cases "\<not> any \<or> len = 0 \<or> length body < eol + 2 + len")
        case True
        with Some cl nowrap show ?thesis
          by (subst dechunk_loop.simps) (auto simp: Let_def)
      next
        case False
        let ?i = "eol + 2 + len + 2"
        have onward: "(eol + 2 + len + 2) mod size_max = ?i" and small: "?i < 2 ^ 63"
          using False less.prems(2) by (simp_all add: size_max_def)
        have "length body - ?i < length body - i" using eol False \<open>i < length body\<close> by auto
        from less.hyps [OF this less.prems(1,2) small, of "out @ substr body (eol + 2) len"]
        obtain r where r: "dechunk_loop body (out @ substr body (eol + 2) len) ?i
            = Some ((out @ substr body (eol + 2) len) @ r)" "length r \<le> length body - ?i" by blast
        have "length (substr body (eol + 2) len @ r) \<le> length body - i"
          using r(2) False eol by (auto simp: substr_def)
        moreover have "dechunk_loop body out i = Some (out @ substr body (eol + 2) len @ r)"
          using Some cl nowrap False onward r(1) \<open>i < length body\<close>
          by (subst dechunk_loop.simps) (simp add: Let_def)
        ultimately show ?thesis by blast
      qed
    qed (use True in \<open>subst dechunk_loop.simps, simp\<close>)
  qed (subst dechunk_loop.simps, simp)
qed
section \<open>Properties\<close>

text \<open>
  Chunked transfer decoding is the inverse of chunked encoding: any sequence of nonempty
  chunks, up to the sizes that fit in memory, is reassembled to exactly their concatenation.
\<close>

theorem dechunk_roundtrip:
  assumes "list_all (\<lambda>c. c \<noteq> []) cs" "length (encode_chunks cs) < 2 ^ 63"
  shows "dechunk (encode_chunks cs) = Some (concat cs)"
  using dechunk_chunks [of "encode_chunks cs" "[]" cs "[]"] assms by (simp add: dechunk_def)

theorem dechunk_roundtrip_witness: "dechunk (encode_chunks [''Wiki'', ''pedia'']) = Some ''Wikipedia''"
  using dechunk_roundtrip [of "[''Wiki'', ''pedia'']"]
  by (simp add: encode_chunks_def encode_chunk_def hex_digits.simps crlf_def)

text \<open>
  The decoder ends on every body, well-formed or not, whose size lines stay below \<open>2 ^ 63\<close>:
  it returns at most as many bytes as the body has.
\<close>

theorem dechunk_terminates:
  assumes "sane_sizes body" "length body < 2 ^ 62"
  shows "\<exists>r. dechunk body = Some r \<and> length r \<le> length body"
  using dechunk_loop_ends [OF assms, of 0 "[]"] by (simp add: dechunk_def)

theorem dechunk_terminates_witness: "\<exists>r. dechunk ''zz'' = Some r \<and> length r \<le> length ''zz''"
proof -
  have "fst (chunk_len (substr ''zz'' i n) 0 False) < 2 ^ 63" if "i < 2" for i n
    using that by (cases n; cases i) (auto simp: substr_def hex_digit_def byte_of_def take_Cons' less_Suc_eq)
  then have "sane_sizes ''zz''" by (simp add: sane_sizes_def)
  from dechunk_terminates [OF this] show ?thesis by simp
qed

definition evil_body :: string where
  "evil_body = ''00FFFFFFFFFFFFFFEC'' @ crlf"

lemma evil_find: "str_find evil_body crlf 0 = Some 18" "str_find evil_body crlf 2 = Some 18"
  by code_simp+

lemma evil_len:
  "chunk_len (substr evil_body 0 18) 0 False = (2 ^ 64 - 20, True)"
  "chunk_len (substr evil_body 2 16) 0 False = (2 ^ 64 - 20, True)"
  by (simp_all add: evil_body_def substr_def hex_digit_def byte_of_def size_max_def)

lemma evil_length: "length evil_body = 20"
  by (simp add: evil_body_def crlf_def)

lemma evil_tail: "substr evil_body 20 n = []"
  by (simp add: evil_length substr_def)

lemmas evil_facts = evil_find evil_len evil_length evil_tail Let_def size_max_def

lemma evil_stuck:
  assumes "dechunk_loop body out i = Some r"
  shows "body = evil_body \<longrightarrow> i \<noteq> 2"
  using assms
proof (rule dechunk_loop.raw_induct [rotated])
  fix loop body out i r
  assume IH: "\<And>body out i r. loop body out i = Some r \<Longrightarrow> body = evil_body \<longrightarrow> i \<noteq> 2"
    and eq: "(if \<not> i < length body then Some out
      else case str_find body crlf i of
             None \<Rightarrow> Some out
           | Some eol \<Rightarrow>
               let (len, any) = chunk_len (substr body i (eol - i)) 0 False
               in if \<not> any \<or> len = 0 then Some out
                  else
                    let start = eol + 2; stop = (start + len) mod size_max
                    in if length body < stop then Some out
                       else loop body (out @ substr body start len) ((stop + 2) mod size_max)) = Some r"
  show "body = evil_body \<longrightarrow> i \<noteq> 2"
  proof (intro impI notI)
    assume "body = evil_body" "i = 2"
    with eq have "loop evil_body out 2 = Some r" by (simp add: evil_facts numeral_2_eq_2 [symmetric])
    with IH show False by blast
  qed
qed

text \<open>
  C38. Without that bound the decoder can hang: the sum of the offset and a size close to \<open>2 ^ 64\<close>
  wraps around, the bounds test passes, the offset moves back to the same size line, and the loop
  never returns.  Twenty bytes from an unauthenticated host are enough.
\<close>

theorem dechunk_can_hang: "dechunk evil_body = None"
proof -
  have "dechunk_loop evil_body [] 0 = dechunk_loop evil_body [] 2"
    by (subst dechunk_loop.simps) (simp add: evil_facts numeral_2_eq_2 [symmetric])
  moreover have "dechunk_loop evil_body [] 2 = None"
    using evil_stuck [of evil_body "[]" 2] by (cases "dechunk_loop evil_body [] 2") auto
  ultimately show ?thesis by (simp add: dechunk_def)
qed
section \<open>Responses and pinning\<close>

text \<open>The status line and the header lines, each with its line end.\<close>

definition header_block :: "string list \<Rightarrow> string" where
  "header_block ls = concat (map (\<lambda>l. l @ crlf) ls)"

definition line_ok :: "string \<Rightarrow> bool" where
  "line_ok l \<longleftrightarrow> l \<noteq> [] \<and> CHR 0x0D \<notin> set l"

definition header_text :: "string list \<Rightarrow> string" where
  "header_text ls = take (length (header_block ls) - 2) (header_block ls)"

definition is_chunked :: "string list \<Rightarrow> bool" where
  "is_chunked ls \<longleftrightarrow> find_sub ''transfer-encoding: chunked'' (map to_lower (header_text ls)) \<noteq> None"

lemma find_blank_line:
  assumes "list_all line_ok ls" "ls \<noteq> []"
  shows "find_sub (crlf @ crlf) (header_block ls @ crlf @ body) = Some (length (header_block ls) - 2)"
  using assms
proof (induction ls)
  case (Cons l ls)
  let ?rest = "header_block ls @ crlf @ body"
  have skip: "find_sub (crlf @ crlf) (l @ crlf @ ?rest) = map_option ((+) (length l)) (find_sub (crlf @ crlf) (crlf @ ?rest))"
    using Cons.prems by (intro find_sub_skip) (auto simp: crlf_def line_ok_def)
  show ?case
  proof (cases ls)
    case Nil
    then show ?thesis using skip find_sub_self [of "crlf @ crlf" body] by (simp add: header_block_def crlf_def)
  next
    case (Cons l' ls')
    then obtain c cs where l': "l' = c # cs" "c \<noteq> CHR 0x0D"
      using \<open>list_all line_ok (l # ls)\<close> by (cases l') (auto simp: line_ok_def)
    then have "find_sub (crlf @ crlf) (crlf @ ?rest) = map_option ((+) 2) (find_sub (crlf @ crlf) ?rest)"
      using Cons by (simp add: crlf_def header_block_def option.map_comp comp_def)
    then show ?thesis
      using skip Cons.IH Cons \<open>list_all line_ok (l # ls)\<close>
      by (simp add: header_block_def crlf_def)
  qed
qed simp

lemma atoi_status: "n < 2 ^ 31 \<Longrightarrow> atoi (dec_digits n @ CHR '' '' # r) = int n"
proof -
  assume n: "n < 2 ^ 31"
  have d: "dropWhile is_space (dec_digits n @ CHR '' '' # r) = dec_digits n @ CHR '' '' # r"
    using dec_digits_hd [of n] by (cases "dec_digits n") (auto dest: is_digit_not_space)
  have t: "takeWhile is_digit (dec_digits n @ CHR '' '' # r) = dec_digits n"
    using dec_digits_digits [of _ n] by (simp add: takeWhile_append is_digit_def byte_of_def)
  have s: "sign_split (dec_digits n @ CHR '' '' # r) = (False, dec_digits n @ CHR '' '' # r)"
    using dec_digits_hd [of n] by (cases "dec_digits n") (auto simp: sign_split_def is_digit_def byte_of_def)
  show ?thesis using n by (simp add: atoi_def d s t wrap32_small)
qed

lemma parse_http_reply:
  assumes "list_all line_ok (status # ls)" "status = ''HTTP/1.1 '' @ dec_digits n @ '' '' @ reason" "n < 2 ^ 31"
  shows "parse_http_response (header_block (status # ls) @ crlf @ payload) =
           map_option (\<lambda>b. \<lparr>rsp_ok = True, httpStatus = int n, rsp_body = b\<rparr>)
             (if is_chunked (status # ls) then dechunk payload else Some payload)"
proof -
  let ?h = "header_block (status # ls)"
  let ?raw = "?h @ crlf @ payload"
  have raw: "?raw = ''HTTP/1.1 '' @ dec_digits n @ CHR '' '' # reason @ crlf @ header_block ls @ crlf @ payload"
    using assms(2) by (simp add: header_block_def)
  have "take 5 ?raw = ''HTTP/''" "str_find ?raw '' '' 0 = Some 8"
    unfolding raw by (simp_all add: str_find_zero)
  moreover have "atoi (drop 9 ?raw) = int n"
    unfolding raw using atoi_status [OF assms(3)] by simp
  moreover have "split_headers ?raw = (length ?h - 2, length ?h + 2)"
    using find_blank_line [OF assms(1), of payload] assms(2)
    by (simp add: split_headers_def str_find_zero) (simp add: header_block_def crlf_def)
  moreover have "drop (length ?h + 2) ?raw = payload" by (simp add: crlf_def)
  moreover have "substr ?raw 0 (length ?h - 2) = header_text (status # ls)"
    by (simp add: substr_def header_text_def)
  ultimately show ?thesis
    unfolding parse_http_response_def
    by (simp add: is_chunked_def str_find_zero split: option.splits)
qed

text \<open>
  The response parser reads back what a server sends: a status line with its code, any header
  lines, a blank line and the payload give that code and that payload, decoded when the headers
  announce chunked transfer, in any letter case.
\<close>

theorem http_response_roundtrip:
  assumes "list_all line_ok (status # ls)" "status = ''HTTP/1.1 '' @ dec_digits n @ '' '' @ reason" "n < 2 ^ 31"
  shows "parse_http_response (header_block (status # ls) @ crlf @ payload) =
           map_option (\<lambda>b. \<lparr>rsp_ok = True, httpStatus = int n, rsp_body = b\<rparr>)
             (if is_chunked (status # ls) then dechunk payload else Some payload)"
  by (rule parse_http_reply [OF assms])

theorem http_response_roundtrip_witness:
  "parse_http_response (header_block [''HTTP/1.1 200 OK'', ''X: y''] @ crlf @ ''<root/>'')
     = Some \<lparr>rsp_ok = True, httpStatus = 200, rsp_body = ''<root/>''\<rparr>"
proof -
  let ?text = "''HTTP/1.1 200 OK'' @ crlf @ ''X: y''"
  have "map to_lower ?text = ''http/1.1 200 ok'' @ crlf @ ''x: y''" by code_simp
  moreover have "header_text [''HTTP/1.1 200 OK'', ''X: y''] = ?text"
    by (simp add: header_text_def header_block_def crlf_def)
  ultimately have plain: "\<not> is_chunked [''HTTP/1.1 200 OK'', ''X: y'']"
    by (simp add: is_chunked_def crlf_def)
  have lines: "list_all line_ok [''HTTP/1.1 200 OK'', ''X: y'']" by (simp add: line_ok_def)
  have "dec_digits 200 = ''200''" by code_simp
  then have status: "''HTTP/1.1 200 OK'' = ''HTTP/1.1 '' @ dec_digits 200 @ '' '' @ ''OK''" by (simp only: append.simps)
  have "parse_http_response (header_block [''HTTP/1.1 200 OK'', ''X: y''] @ crlf @ ''<root/>'')
      = map_option (\<lambda>b. \<lparr>rsp_ok = True, httpStatus = int 200, rsp_body = b\<rparr>)
          (if is_chunked [''HTTP/1.1 200 OK'', ''X: y''] then dechunk ''<root/>'' else Some ''<root/>'')"
    by (rule http_response_roundtrip [OF lines status]) simp
  then show ?thesis by (simp only: plain if_False option.map of_nat_numeral)
qed

lemma https_pinned:
  assumes "get_https ssl cl command args net = Some (body, out)" "body \<noteq> [] \<or> out \<noteq> []"
  shows "\<exists>p ch pinned ccert ckey. tls_connect net ccert ckey = Some (Some p, ch)
           \<and> pinnedServerCert cl \<noteq> [] \<and> pem_cert ssl (pinnedServerCert cl) = Some pinned \<and> x509_same ssl p pinned"
proof -
  have nil: "parse_http_response [] = Some no_response" by (simp add: parse_http_response_def)
  show ?thesis
    using assms
    by (auto simp: get_https_def request_def Let_def read_pem_cert_def nil no_response_def
        split: option.splits if_splits prod.splits)
qed

text \<open>
  C6. Over HTTPS nothing is sent and nothing is accepted without the pinned certificate: if a
  request put any byte on a fresh channel or returned any body, then a server certificate is
  pinned, it parses, and the peer presented a certificate equal to it.  In particular a client
  without a pinned certificate never talks HTTPS.
\<close>

theorem https_only_pinned:
  assumes "get_https ssl cl command args net = Some (body, out)" "body \<noteq> [] \<or> out \<noteq> []"
  shows "\<exists>p ch pinned ccert ckey. tls_connect net ccert ckey = Some (Some p, ch)
           \<and> pinnedServerCert cl \<noteq> [] \<and> pem_cert ssl (pinnedServerCert cl) = Some pinned \<and> x509_same ssl p pinned"
  by (rule https_pinned [OF assms])

theorem https_only_pinned_witness:
  "\<exists>body out. get_https \<lparr>pem_cert = Some, pem_key = Some, x509_same = (=)\<rparr>
       (set_pinned_server_cert ''CERT'' (new_client ''h'' 1 2 \<lparr>certPem = ''C'', keyPem = ''K''\<rparr> ''u'')) ''serverinfo'' []
       \<lparr>rand16 = None, addrs = [None, Some \<lparr>handle = 3, rxq = [], txq = [], sent = []\<rparr>],
        tls_connect = (\<lambda>_ _. Some (Some ''CERT'', \<lparr>handle = 3, rxq = [], txq = [], sent = []\<rparr>))\<rparr>
     = Some (body, out) \<and> out \<noteq> [] \<and> pem_cert \<lparr>pem_cert = Some, pem_key = Some, x509_same = (=) :: string \<Rightarrow> string \<Rightarrow> bool\<rparr> ''CERT'' \<noteq> None"
proof -
  let ?ssl = "\<lparr>pem_cert = Some, pem_key = Some, x509_same = (=)\<rparr> :: (string, string) openssl"
  let ?cl = "set_pinned_server_cert ''CERT'' (new_client ''h'' 1 2 \<lparr>certPem = ''C'', keyPem = ''K''\<rparr> ''u'')"
  let ?ch = "\<lparr>handle = 3, rxq = [], txq = [], sent = []\<rparr>"
  let ?net = "\<lparr>rand16 = None, addrs = [None, Some ?ch], tls_connect = (\<lambda>_ _. Some (Some ''CERT'', ?ch))\<rparr>"
  have tx: "pipe_write ?ch bs = (?ch\<lparr>sent := bs\<rparr>, True)" if "bs \<noteq> []" for bs
    using that by (simp add: pipe_write.simps [of ?ch bs] sys_send_def pipe_write.simps [of _ "[]"])
  have rx: "recv_all \<lparr>handle = 3, rxq = [], txq = [], sent = bs\<rparr> [] = []" for bs
    by (simp add: recv_all.simps sys_recv_def)
  have nil: "parse_http_response [] = Some no_response" by (simp add: parse_http_response_def)
  have "\<exists>out. get_https ?ssl ?cl ''serverinfo'' [] ?net = Some ([], out) \<and> out \<noteq> []"
    by (simp add: get_https_def request_def Let_def read_pem_cert_def set_pinned_server_cert_def
        new_client_def exchange_def send_all_def tx rx nil no_response_def)
  then obtain out where g: "get_https ?ssl ?cl ''serverinfo'' [] ?net = Some ([], out)" "out \<noteq> []" by blast
  from https_only_pinned [OF g(1)] g show ?thesis by auto
qed

end
