(* ===== verification/Pairing.thy ===== *)
theory Pairing
  imports Http
begin

text \<open>
  The GameStream pairing handshake (\<^verbatim>\<open>src/src/net/nv_pairing.h\<close>, \<^verbatim>\<open>src/src/net/nv_pairing.cpp\<close>) and
  the engine's wrappers around the primitives it uses (\<^verbatim>\<open>src/src/net/pairing_crypto.cpp\<close>).  OpenSSL's
  digests, ciphers and signatures are parameters, as functions that may fail; the HTTP transport,
  the pinning callback and the random source are those of the source's parameters, on a world
  state.  A transport that never returns is the result \<^term>\<open>None\<close>.
\<close>

section \<open>Primitives\<close>

record crypto =
  evp_sha256 :: "bytes \<Rightarrow> bytes option"
  evp_sha1 :: "bytes \<Rightarrow> bytes option"
  evp_aes_enc :: "bytes \<Rightarrow> bytes \<Rightarrow> bytes option"
  evp_aes_dec :: "bytes \<Rightarrow> bytes \<Rightarrow> bytes option"
  x509_signature :: "string \<Rightarrow> bytes option"
  evp_verify :: "string \<Rightarrow> bytes \<Rightarrow> bytes \<Rightarrow> bool"
  evp_sign :: "string \<Rightarrow> bytes \<Rightarrow> bytes option"

definition or_empty :: "bytes option \<Rightarrow> bytes" where
  "or_empty r = (case r of Some b \<Rightarrow> b | None \<Rightarrow> [])"

definition sha256 :: "crypto \<Rightarrow> bytes \<Rightarrow> bytes" where
  "sha256 c data = or_empty (evp_sha256 c data)"

definition sha1 :: "crypto \<Rightarrow> bytes \<Rightarrow> bytes" where
  "sha1 c data = or_empty (evp_sha1 c data)"

text \<open>\<^verbatim>\<open>random_bytes\<close>; the second argument is the outcome of \<^verbatim>\<open>RAND_bytes\<close>.\<close>

definition random_bytes :: "int \<Rightarrow> (nat \<Rightarrow> char) option \<Rightarrow> bytes" where
  "random_bytes n rnd =
     (if n \<le> 0 then [] else (case rnd of None \<Rightarrow> [] | Some f \<Rightarrow> map f [0..<nat n]))"

definition aes_ecb :: "crypto \<Rightarrow> bytes \<Rightarrow> bytes \<Rightarrow> bool \<Rightarrow> bytes" where
  "aes_ecb c data key encrypt =
     (if length key \<noteq> 16 \<or> data = [] \<or> length data mod 16 \<noteq> 0 then []
      else (case (if encrypt then evp_aes_enc c key data else evp_aes_dec c key data) of
              None \<Rightarrow> []
            | Some out \<Rightarrow> if length out \<noteq> length data then [] else out))"

definition aes_ecb_encrypt :: "crypto \<Rightarrow> bytes \<Rightarrow> bytes \<Rightarrow> bytes" where
  "aes_ecb_encrypt c plaintext key = aes_ecb c plaintext key True"

definition aes_ecb_decrypt :: "crypto \<Rightarrow> bytes \<Rightarrow> bytes \<Rightarrow> bytes" where
  "aes_ecb_decrypt c ciphertext key = aes_ecb c ciphertext key False"

definition derive_aes_key :: "crypto \<Rightarrow> bytes \<Rightarrow> string \<Rightarrow> bool \<Rightarrow> bytes" where
  "derive_aes_key c salt pin gen7plus =
     (let hashed = (if gen7plus then sha256 c (salt @ pin) else sha1 c (salt @ pin))
      in if length hashed < 16 then [] else take 16 hashed)"

definition signature_from_pem_cert :: "crypto \<Rightarrow> string \<Rightarrow> bytes" where
  "signature_from_pem_cert c pem = or_empty (x509_signature c pem)"

definition verify_signature :: "crypto \<Rightarrow> bytes \<Rightarrow> bytes \<Rightarrow> string \<Rightarrow> bool" where
  "verify_signature c data sig pem = evp_verify c pem data sig"

definition sign_message :: "crypto \<Rightarrow> bytes \<Rightarrow> string \<Rightarrow> bytes" where
  "sign_message c message pem = or_empty (evp_sign c pem message)"

section \<open>The handshake\<close>

datatype pair_state = Paired | PairFailed | PinWrong | AlreadyInProgress

type_synonym pair_result = "pair_state \<times> string"

record 'w pair_env =
  transport :: "bool \<Rightarrow> string \<Rightarrow> string \<Rightarrow> 'w \<Rightarrow> (string \<times> 'w) option"
  set_pinned :: "string \<Rightarrow> 'w \<Rightarrow> 'w"
  random_fn :: "int \<Rightarrow> 'w \<Rightarrow> bytes \<times> 'w"

definition kPairPrefix :: string where
  "kPairPrefix = ''devicename=roth&updateState=1&''"

definition paired_ok :: "string \<Rightarrow> bool" where
  "paired_ok xml \<longleftrightarrow> xml \<noteq> [] \<and> xml_attr xml ''root'' ''status_code'' = ''200'' \<and> xml_text xml ''paired'' = ''1''"

definition gen_hash :: "crypto \<Rightarrow> bytes \<Rightarrow> bool \<Rightarrow> bytes" where
  "gen_hash c data gen7plus = (if gen7plus then sha256 c data else sha1 c data)"

text \<open>\<^verbatim>\<open>unpair(transport); return {state, ""};\<close>\<close>

definition unpair :: "'w pair_env \<Rightarrow> pair_state \<Rightarrow> 'w \<Rightarrow> (pair_result \<times> 'w) option" where
  "unpair E st w = (case transport E False ''unpair'' [] w of None \<Rightarrow> None | Some (_, w') \<Rightarrow> Some ((st, []), w'))"

definition pair_stage5 :: "'w pair_env \<Rightarrow> string \<Rightarrow> 'w \<Rightarrow> (pair_result \<times> 'w) option" where
  "pair_stage5 E cert w =
     (case transport E True ''pair'' (kPairPrefix @ ''phrase=pairchallenge'') w of
        None \<Rightarrow> None
      | Some (challengeFinal, w1) \<Rightarrow>
          if \<not> paired_ok challengeFinal then unpair E PairFailed w1 else Some ((Paired, cert), w1))"

definition pair_stage4 ::
  "crypto \<Rightarrow> 'w pair_env \<Rightarrow> client_identity \<Rightarrow> string \<Rightarrow> bytes \<Rightarrow> 'w \<Rightarrow> (pair_result \<times> 'w) option" where
  "pair_stage4 c E ident cert clientSecret w =
     (let clientPairingSecret = clientSecret @ sign_message c clientSecret (keyPem ident)
      in case transport E False ''pair'' (kPairPrefix @ ''clientpairingsecret='' @ to_hex clientPairingSecret) w of
           None \<Rightarrow> None
         | Some (secretXml, w1) \<Rightarrow>
             if \<not> paired_ok secretXml then unpair E PairFailed w1 else pair_stage5 E cert w1)"

text \<open>The server's proof: its signature over its secret, and the hash that shows it knows the PIN.\<close>

definition pair_checks ::
  "crypto \<Rightarrow> 'w pair_env \<Rightarrow> client_identity \<Rightarrow> bool \<Rightarrow> string \<Rightarrow> bytes \<Rightarrow> bytes \<Rightarrow> bytes \<Rightarrow> string \<Rightarrow> 'w
     \<Rightarrow> (pair_result \<times> 'w) option" where
  "pair_checks c E ident gen7 cert randomChallenge serverResponse clientSecret respXml w =
     (let pairingSecret = xml_text_hex respXml ''pairingsecret''
      in if length pairingSecret \<le> 16 then unpair E PairFailed w
         else
           let serverSecret = substr pairingSecret 0 16;
               serverSignature = drop 16 pairingSecret
           in if \<not> verify_signature c serverSecret serverSignature cert then unpair E PairFailed w
              else
                let expected = randomChallenge @ signature_from_pem_cert c cert @ serverSecret
                in if gen_hash c expected gen7 \<noteq> serverResponse then unpair E PinWrong w
                   else pair_stage4 c E ident cert clientSecret w)"

text \<open>\<^verbatim>\<open>paddedHash.resize(32, '\0')\<close>.\<close>

definition pad32 :: "bytes \<Rightarrow> bytes" where
  "pad32 bs = take 32 (bs @ replicate 32 (CHR 0x00))"

definition pair_stage3 ::
  "crypto \<Rightarrow> 'w pair_env \<Rightarrow> client_identity \<Rightarrow> bool \<Rightarrow> bytes \<Rightarrow> string \<Rightarrow> bytes \<Rightarrow> bytes \<Rightarrow> 'w
     \<Rightarrow> (pair_result \<times> 'w) option" where
  "pair_stage3 c E ident gen7 aesKey cert randomChallenge challengeResp w =
     (let hashLen = (if gen7 then 32 else 20);
          serverResponse = substr challengeResp 0 hashLen;
          (clientSecret, w1) = random_fn E 16 w;
          toHash = substr challengeResp hashLen 16 @ signature_from_pem_cert c (certPem ident) @ clientSecret;
          paddedHash = pad32 (gen_hash c toHash gen7)
      in case transport E False ''pair''
                (kPairPrefix @ ''serverchallengeresp='' @ to_hex (aes_ecb_encrypt c paddedHash aesKey)) w1 of
           None \<Rightarrow> None
         | Some (respXml, w2) \<Rightarrow>
             if \<not> paired_ok respXml then unpair E PairFailed w2
             else pair_checks c E ident gen7 cert randomChallenge serverResponse clientSecret respXml w2)"

definition pair_stage2 ::
  "crypto \<Rightarrow> 'w pair_env \<Rightarrow> client_identity \<Rightarrow> bool \<Rightarrow> bytes \<Rightarrow> string \<Rightarrow> 'w \<Rightarrow> (pair_result \<times> 'w) option" where
  "pair_stage2 c E ident gen7 aesKey cert w =
     (let hashLen = (if gen7 then 32 else 20);
          (randomChallenge, w1) = random_fn E 16 w;
          encChallenge = aes_ecb_encrypt c randomChallenge aesKey
      in case transport E False ''pair'' (kPairPrefix @ ''clientchallenge='' @ to_hex encChallenge) w1 of
           None \<Rightarrow> None
         | Some (challengeXml, w2) \<Rightarrow>
             if \<not> paired_ok challengeXml then unpair E PairFailed w2
             else
               let challengeResp = aes_ecb_decrypt c (xml_text_hex challengeXml ''challengeresponse'') aesKey
               in if length challengeResp < hashLen + 16 then unpair E PairFailed w2
                  else pair_stage3 c E ident gen7 aesKey cert randomChallenge challengeResp w2)"

definition nv_pair ::
  "crypto \<Rightarrow> 'w pair_env \<Rightarrow> client_identity \<Rightarrow> string \<Rightarrow> int \<Rightarrow> 'w \<Rightarrow> (pair_result \<times> 'w) option" where
  "nv_pair c E ident pin serverMajorVersion w =
     (let gen7 = 7 \<le> serverMajorVersion;
          (salt, w1) = random_fn E 16 w;
          aesKey = derive_aes_key c salt pin gen7
      in if aesKey = [] then Some ((PairFailed, []), w1)
         else
           case transport E False ''pair''
                  (kPairPrefix @ ''phrase=getservercert&salt='' @ to_hex salt @ ''&clientcert='' @ to_hex (certPem ident)) w1 of
             None \<Rightarrow> None
           | Some (getCert, w2) \<Rightarrow>
               if \<not> paired_ok getCert then Some ((PairFailed, []), w2)
               else
                 let cert = xml_text_hex getCert ''plaincert''
                 in if cert = [] then unpair E AlreadyInProgress w2
                    else pair_stage2 c E ident gen7 aesKey cert (set_pinned E cert w2))"

section \<open>Over a live client\<close>

text \<open>\<^verbatim>\<open>pair_with_client\<close>: the world is the client, the connections its requests will meet and the
  outcomes of the random source.\<close>

record ('c, 'k) live =
  live_client :: nv_client
  nets :: "('c, 'k) attempt list"
  rands :: "(nat \<Rightarrow> char) option list"

definition live_get :: "('c, 'k) openssl \<Rightarrow> bool \<Rightarrow> string \<Rightarrow> string \<Rightarrow> ('c, 'k) live \<Rightarrow> (string \<times> ('c, 'k) live) option" where
  "live_get ssl https command args w =
     (case nets w of
        [] \<Rightarrow> Some ([], w)
      | net # ns \<Rightarrow>
          (case (if https then get_https ssl (live_client w) command args net
                 else get_http ssl (live_client w) command args net) of
             None \<Rightarrow> None
           | Some (body, _) \<Rightarrow> Some (body, w\<lparr>nets := ns\<rparr>)))"

definition live_random :: "int \<Rightarrow> ('c, 'k) live \<Rightarrow> bytes \<times> ('c, 'k) live" where
  "live_random n w =
     (case rands w of
        [] \<Rightarrow> ([], w)
      | r # rs \<Rightarrow> (random_bytes n r, w\<lparr>rands := rs\<rparr>))"

definition live_pin :: "string \<Rightarrow> ('c, 'k) live \<Rightarrow> ('c, 'k) live" where
  "live_pin pem w = w\<lparr>live_client := set_pinned_server_cert pem (live_client w)\<rparr>"

definition live_env :: "('c, 'k) openssl \<Rightarrow> ('c, 'k) live pair_env" where
  "live_env ssl = \<lparr>transport = live_get ssl, set_pinned = live_pin, random_fn = live_random\<rparr>"

definition pair_with_client ::
  "('c, 'k) openssl \<Rightarrow> crypto \<Rightarrow> client_identity \<Rightarrow> string \<Rightarrow> int \<Rightarrow> ('c, 'k) live \<Rightarrow> (pair_result \<times> ('c, 'k) live) option" where
  "pair_with_client ssl c ident pin serverMajorVersion w = nv_pair c (live_env ssl) ident pin serverMajorVersion w"

section \<open>What success means\<close>

lemma unpair_not_paired: "unpair E st w = Some ((st', cert), w') \<Longrightarrow> st' = st \<and> cert = []"
  by (auto simp: unpair_def split: option.splits prod.splits)

lemma unpair_Paired [simp]: "st \<noteq> Paired \<Longrightarrow> unpair E st w \<noteq> Some ((Paired, cert), w')"
  by (auto dest: unpair_not_paired)

lemma stage5_Paired:
  assumes "pair_stage5 E cert w = Some ((Paired, cert'), w')"
  obtains x5 where "cert' = cert" "transport E True ''pair'' (kPairPrefix @ ''phrase=pairchallenge'') w = Some (x5, w')"
    "paired_ok x5"
  using assms by (auto simp: pair_stage5_def split: option.splits prod.splits if_splits)

lemma stage4_Paired:
  assumes "pair_stage4 c E ident cert secret w = Some ((Paired, cert'), w')"
  obtains x4 w1 where
    "transport E False ''pair'' (kPairPrefix @ ''clientpairingsecret='' @ to_hex (secret @ sign_message c secret (keyPem ident))) w
       = Some (x4, w1)" "paired_ok x4" "pair_stage5 E cert w1 = Some ((Paired, cert'), w')"
  using assms by (auto simp: pair_stage4_def Let_def split: option.splits prod.splits if_splits)

definition server_proves :: "crypto \<Rightarrow> bool \<Rightarrow> string \<Rightarrow> bytes \<Rightarrow> bytes \<Rightarrow> bytes \<Rightarrow> bool" where
  "server_proves c gen7 cert challenge serverResponse pairingSecret \<longleftrightarrow>
     16 < length pairingSecret
     \<and> verify_signature c (take 16 pairingSecret) (drop 16 pairingSecret) cert
     \<and> gen_hash c (challenge @ signature_from_pem_cert c cert @ take 16 pairingSecret) gen7 = serverResponse"

lemma checks_Paired:
  assumes "pair_checks c E ident gen7 cert ch sr secret x3 w = Some ((Paired, cert'), w')"
  shows "server_proves c gen7 cert ch sr (xml_text_hex x3 ''pairingsecret'')"
    and "pair_stage4 c E ident cert secret w = Some ((Paired, cert'), w')"
  using assms by (auto simp: pair_checks_def server_proves_def substr_def Let_def split: if_splits)

lemma stage3_Paired:
  assumes "pair_stage3 c E ident gen7 key cert ch resp w = Some ((Paired, cert'), w')"
  obtains secret w1 x3 w2 where "random_fn E 16 w = (secret, w1)"
    "transport E False ''pair'' (kPairPrefix @ ''serverchallengeresp='' @ to_hex (aes_ecb_encrypt c
        (pad32 (gen_hash c (take 16 (drop (if gen7 then 32 else 20) resp)
           @ signature_from_pem_cert c (certPem ident) @ secret) gen7)) key)) w1 = Some (x3, w2)"
    "paired_ok x3"
    "pair_checks c E ident gen7 cert ch (take (if gen7 then 32 else 20) resp) secret x3 w2 = Some ((Paired, cert'), w')"
proof -
  obtain secret w1 where r: "random_fn E 16 w = (secret, w1)" by force
  show thesis
    using assms r that [OF r] unfolding pair_stage3_def Let_def substr_def
    by (simp split: option.splits prod.splits if_split_asm)
qed

lemma stage2_Paired:
  assumes "pair_stage2 c E ident gen7 key cert w = Some ((Paired, cert'), w')"
  obtains ch w1 x2 w2 where "random_fn E 16 w = (ch, w1)"
    "transport E False ''pair'' (kPairPrefix @ ''clientchallenge='' @ to_hex (aes_ecb_encrypt c ch key)) w1 = Some (x2, w2)"
    "paired_ok x2"
    "(if gen7 then 32 else 20) + 16 \<le> length (aes_ecb_decrypt c (xml_text_hex x2 ''challengeresponse'') key)"
    "pair_stage3 c E ident gen7 key cert ch (aes_ecb_decrypt c (xml_text_hex x2 ''challengeresponse'') key) w2
       = Some ((Paired, cert'), w')"
proof -
  obtain ch w1 where r: "random_fn E 16 w = (ch, w1)" by force
  show thesis
    using assms r that [OF r] unfolding pair_stage2_def Let_def
    by (simp split: option.splits prod.splits if_split_asm)
qed

lemma nv_pair_stage1:
  assumes "nv_pair c E ident pin gen w = Some ((Paired, cert), w')"
  obtains salt w1 x1 w2 where "random_fn E 16 w = (salt, w1)"
    "transport E False ''pair'' (kPairPrefix @ ''phrase=getservercert&salt='' @ to_hex salt @ ''&clientcert=''
       @ to_hex (certPem ident)) w1 = Some (x1, w2)"
    "paired_ok x1" "xml_text_hex x1 ''plaincert'' \<noteq> []"
    "pair_stage2 c E ident (7 \<le> gen) (derive_aes_key c salt pin (7 \<le> gen)) (xml_text_hex x1 ''plaincert'')
       (set_pinned E (xml_text_hex x1 ''plaincert'') w2) = Some ((Paired, cert), w')"
proof -
  obtain salt w1 where r: "random_fn E 16 w = (salt, w1)" by force
  show thesis
    using assms r that [OF r] unfolding nv_pair_def Let_def
    by (simp split: option.splits prod.splits if_split_asm)
qed

section \<open>The record of a run\<close>

datatype pair_event = Request bool string string string | Pin string | Drew bytes

text \<open>Any environment, with the requests made (and their answers), the certificate pinned and the
  random bytes drawn written down.\<close>

definition traced :: "'w pair_env \<Rightarrow> ('w \<times> pair_event list) pair_env" where
  "traced E =
     \<lparr>transport = (\<lambda>https command args (w, tr).
        case transport E https command args w of
          None \<Rightarrow> None | Some (x, w') \<Rightarrow> Some (x, (w', tr @ [Request https command args x]))),
      set_pinned = (\<lambda>pem (w, tr). (set_pinned E pem w, tr @ [Pin pem])),
      random_fn = (\<lambda>n (w, tr). case random_fn E n w of (b, w') \<Rightarrow> (b, (w', tr @ [Drew b])))\<rparr>"

lemma traced_transport:
  "transport (traced E) https cmd args (w, tr) = Some (x, (w', tr')) \<longleftrightarrow>
     transport E https cmd args w = Some (x, w') \<and> tr' = tr @ [Request https cmd args x]"
  by (auto simp: traced_def split: option.splits)

lemma traced_random:
  "random_fn (traced E) n (w, tr) = (b, (w', tr')) \<longleftrightarrow> random_fn E n w = (b, w') \<and> tr' = tr @ [Drew b]"
  by (auto simp: traced_def split: prod.splits)

lemma traced_pin: "set_pinned (traced E) pem (w, tr) = (set_pinned E pem w, tr @ [Pin pem])"
  by (simp add: traced_def)

definition pair_args :: "string \<Rightarrow> string" where
  "pair_args tail = kPairPrefix @ tail"

text \<open>The requests of a run that pairs, in order.\<close>

definition full_run ::
  "crypto \<Rightarrow> client_identity \<Rightarrow> string \<Rightarrow> bool \<Rightarrow> string \<Rightarrow> bytes \<Rightarrow> bytes \<Rightarrow> bytes \<Rightarrow>
     string \<times> string \<times> string \<times> string \<times> string \<Rightarrow> pair_event list" where
  "full_run c ident pin gen7 cert salt challenge secret answers =
     (case answers of (x1, x2, x3, x4, x5) \<Rightarrow>
       let key = derive_aes_key c salt pin gen7;
           resp = aes_ecb_decrypt c (xml_text_hex x2 ''challengeresponse'') key;
           hash = gen_hash c (take 16 (drop (if gen7 then 32 else 20) resp) @ signature_from_pem_cert c (certPem ident) @ secret) gen7
       in [Drew salt,
           Request False ''pair'' (pair_args (''phrase=getservercert&salt='' @ to_hex salt @ ''&clientcert='' @ to_hex (certPem ident))) x1,
           Pin cert, Drew challenge,
           Request False ''pair'' (pair_args (''clientchallenge='' @ to_hex (aes_ecb_encrypt c challenge key))) x2,
           Drew secret,
           Request False ''pair'' (pair_args (''serverchallengeresp='' @ to_hex (aes_ecb_encrypt c (pad32 hash) key))) x3,
           Request False ''pair'' (pair_args (''clientpairingsecret='' @ to_hex (secret @ sign_message c secret (keyPem ident)))) x4,
           Request True ''pair'' (pair_args ''phrase=pairchallenge'') x5])"

text \<open>
  C1. Pairing is authentic.  A run that ends paired has made exactly the five requests of the
  protocol, in order, the first four in the clear and the last over TLS, each answered with status
  200 and paired; the certificate it returns is the nonempty one of the first answer, pinned before
  anything else was sent; and the server has proved both that it holds that certificate's key (its
  signature over its secret verifies) and that it knows the PIN (the hash it sent, encrypted under
  the key derived from salt and PIN, is that of the engine's fresh challenge, the certificate and
  the secret).
\<close>

theorem pairing_authentic:
  assumes "nv_pair c (traced E) ident pin gen (w, []) = Some ((Paired, cert), (w', tr))"
  shows "\<exists>salt challenge secret x1 x2 x3 x4 x5.
           tr = full_run c ident pin (7 \<le> gen) cert salt challenge secret (x1, x2, x3, x4, x5)
           \<and> (\<forall>x\<in>{x1, x2, x3, x4, x5}. paired_ok x)
           \<and> cert = xml_text_hex x1 ''plaincert'' \<and> cert \<noteq> []
           \<and> server_proves c (7 \<le> gen) cert challenge
               (take (if 7 \<le> gen then 32 else 20)
                 (aes_ecb_decrypt c (xml_text_hex x2 ''challengeresponse'') (derive_aes_key c salt pin (7 \<le> gen))))
               (xml_text_hex x3 ''pairingsecret'')"
proof -
  obtain salt w1 l1 x1 w2 l2 where s1: "random_fn (traced E) 16 (w, []) = (salt, (w1, l1))"
      "transport (traced E) False ''pair'' (kPairPrefix @ ''phrase=getservercert&salt='' @ to_hex salt @ ''&clientcert=''
         @ to_hex (certPem ident)) (w1, l1) = Some (x1, (w2, l2))"
      "paired_ok x1" "xml_text_hex x1 ''plaincert'' \<noteq> []"
      "pair_stage2 c (traced E) ident (7 \<le> gen) (derive_aes_key c salt pin (7 \<le> gen)) (xml_text_hex x1 ''plaincert'')
         (set_pinned (traced E) (xml_text_hex x1 ''plaincert'') (w2, l2)) = Some ((Paired, cert), (w', tr))"
    using nv_pair_stage1 [OF assms] by (metis prod.collapse)
  let ?cert = "xml_text_hex x1 ''plaincert''" and ?key = "derive_aes_key c salt pin (7 \<le> gen)"
  obtain ch w3 l3 x2 w4 l4 where s2: "random_fn (traced E) 16 (set_pinned (traced E) ?cert (w2, l2)) = (ch, (w3, l3))"
      "transport (traced E) False ''pair'' (kPairPrefix @ ''clientchallenge='' @ to_hex (aes_ecb_encrypt c ch ?key)) (w3, l3)
         = Some (x2, (w4, l4))" "paired_ok x2"
      "pair_stage3 c (traced E) ident (7 \<le> gen) ?key ?cert ch
         (aes_ecb_decrypt c (xml_text_hex x2 ''challengeresponse'') ?key) (w4, l4) = Some ((Paired, cert), (w', tr))"
    using stage2_Paired [OF s1(5)] by (metis prod.collapse)
  let ?resp = "aes_ecb_decrypt c (xml_text_hex x2 ''challengeresponse'') ?key"
  obtain secret w5 l5 x3 w6 l6 where s3: "random_fn (traced E) 16 (w4, l4) = (secret, (w5, l5))"
      "transport (traced E) False ''pair'' (kPairPrefix @ ''serverchallengeresp='' @ to_hex (aes_ecb_encrypt c
        (pad32 (gen_hash c (take 16 (drop (if 7 \<le> gen then 32 else 20) ?resp)
           @ signature_from_pem_cert c (certPem ident) @ secret) (7 \<le> gen))) ?key)) (w5, l5) = Some (x3, (w6, l6))"
      "paired_ok x3"
      "pair_checks c (traced E) ident (7 \<le> gen) ?cert ch (take (if 7 \<le> gen then 32 else 20) ?resp) secret x3 (w6, l6)
         = Some ((Paired, cert), (w', tr))"
    using stage3_Paired [OF s2(4)] by (metis prod.collapse)
  note checks = checks_Paired [OF s3(4)]
  obtain x4 w7 l7 where s4: "transport (traced E) False ''pair'' (kPairPrefix @ ''clientpairingsecret=''
         @ to_hex (secret @ sign_message c secret (keyPem ident))) (w6, l6) = Some (x4, (w7, l7))" "paired_ok x4"
      "pair_stage5 (traced E) ?cert (w7, l7) = Some ((Paired, cert), (w', tr))"
    using stage4_Paired [OF checks(2)] by (metis prod.collapse)
  obtain x5 where s5: "cert = ?cert"
      "transport (traced E) True ''pair'' (kPairPrefix @ ''phrase=pairchallenge'') (w7, l7) = Some (x5, (w', tr))"
      "paired_ok x5"
    using stage5_Paired [OF s4(3)] by metis
  have "tr = full_run c ident pin (7 \<le> gen) cert salt ch secret (x1, x2, x3, x4, x5)"
    using s1(1,2) s2(1,2) s3(1,2) s4(1) s5(1,2)
    by (simp add: traced_transport traced_random traced_pin full_run_def pair_args_def Let_def)
  moreover have "\<forall>x\<in>{x1, x2, x3, x4, x5}. paired_ok x" using s1(3) s2(3) s3(3) s4(2) s5(3) by simp
  moreover have "cert = ?cert \<and> cert \<noteq> []" using s1(4) s5(1) by simp
  moreover have "server_proves c (7 \<le> gen) cert ch (take (if 7 \<le> gen then 32 else 20) ?resp)
      (xml_text_hex x3 ''pairingsecret'')"
    using checks(1) s5(1) by simp
  ultimately show ?thesis by blast
qed
section \<open>What failure leaves behind\<close>

definition cancelled :: "pair_event list \<Rightarrow> bool" where
  "cancelled tr \<longleftrightarrow> (\<exists>x. tr \<noteq> [] \<and> last tr = Request False ''unpair'' [] x)"

lemma unpair_cancelled: "unpair (traced E) st (w, tr) = Some ((st', cert), (w', tr')) \<Longrightarrow> cert = [] \<and> cancelled tr'"
  by (auto simp: unpair_def cancelled_def traced_transport split: option.splits prod.splits)

lemma stage5_failed:
  assumes "pair_stage5 (traced E) cert (w, tr) = Some ((st, cert'), (w', tr'))" "st \<noteq> Paired"
  shows "cert' = [] \<and> cancelled tr'"
  using assms by (auto simp: pair_stage5_def split: option.splits prod.splits if_splits dest: unpair_cancelled)

lemma stage4_failed:
  assumes "pair_stage4 c (traced E) ident cert secret (w, tr) = Some ((st, cert'), (w', tr'))" "st \<noteq> Paired"
  shows "cert' = [] \<and> cancelled tr'"
  using assms by (auto simp: pair_stage4_def Let_def split: option.splits prod.splits if_splits
      dest: unpair_cancelled stage5_failed)

lemma checks_failed:
  assumes "pair_checks c (traced E) ident gen7 cert ch sr secret x3 (w, tr) = Some ((st, cert'), (w', tr'))" "st \<noteq> Paired"
  shows "cert' = [] \<and> cancelled tr'"
  using assms by (auto simp: pair_checks_def Let_def split: if_splits dest: unpair_cancelled stage4_failed)

lemma stage3_failed:
  assumes "pair_stage3 c (traced E) ident gen7 key cert ch resp (w, tr) = Some ((st, cert'), (w', tr'))" "st \<noteq> Paired"
  shows "cert' = [] \<and> cancelled tr'"
  using assms unfolding pair_stage3_def Let_def
  by (auto split: option.splits prod.splits if_splits dest: unpair_cancelled checks_failed)

lemma stage2_failed:
  assumes "pair_stage2 c (traced E) ident gen7 key cert (w, tr) = Some ((st, cert'), (w', tr'))" "st \<noteq> Paired"
  shows "cert' = [] \<and> cancelled tr'"
  using assms unfolding pair_stage2_def Let_def
  by (auto split: option.splits prod.splits if_splits dest: unpair_cancelled stage3_failed)

text \<open>
  C16. A failed pairing returns no certificate and is not left half done at the host: once the host
  has answered the first request (a certificate was pinned, or the host is pairing with someone
  else), every way of failing ends with an unpair request.
\<close>

theorem pairing_failure_cancels:
  assumes "nv_pair c (traced E) ident pin gen (w, []) = Some ((st, cert), (w', tr))" "st \<noteq> Paired"
  shows "cert = [] \<and> (st = AlreadyInProgress \<or> st = PinWrong \<or> (\<exists>p. Pin p \<in> set tr) \<longrightarrow> cancelled tr)"
proof -
  obtain salt w1 l1 where r: "random_fn (traced E) 16 (w, []) = (salt, (w1, l1))" by (metis prod.collapse)
  then have l1: "l1 = [Drew salt]" by (simp add: traced_random)
  show ?thesis
  proof (cases "transport (traced E) False ''pair'' (kPairPrefix @ ''phrase=getservercert&salt='' @ to_hex salt
           @ ''&clientcert='' @ to_hex (certPem ident)) (w1, l1)")
    case None
    with assms r l1 show ?thesis by (auto simp: nv_pair_def Let_def split: if_splits)
  next
    case (Some res)
    obtain x1 w2 l2 where x: "res = (x1, (w2, l2))" by (metis prod.collapse)
    have l2: "Pin p \<notin> set l2" for p using Some x l1 by (auto simp: traced_transport)
    from assms r Some x l1 l2 show ?thesis
      unfolding nv_pair_def Let_def
      by (auto simp: traced_pin split: if_splits dest: unpair_cancelled stage2_failed)
  qed
qed

section \<open>An honest host\<close>

text \<open>
  The other side of the protocol, as the GameStream host plays it.  It checks what it is sent: the
  client's hash and signature must prove the PIN and the client's key before it answers paired.
\<close>

record server =
  srv_pin :: string
  srv_cert :: string
  srv_key :: string
  srv_secret :: bytes
  srv_challenge :: bytes
  srv_aes :: bytes
  srv_client_cert :: string
  srv_client_hash :: bytes
  draws :: "bytes list"

definition reply :: "bool \<Rightarrow> string \<Rightarrow> string \<Rightarrow> string" where
  "reply ok tag value =
     ''<root status_code='' @ [CHR 0x22] @ ''200'' @ [CHR 0x22] @ ''>'' @ ''<paired>'' @ (if ok then ''1'' else ''0'')
       @ ''</paired>'' @ ''<'' @ tag @ ''>'' @ value @ ''</'' @ tag @ ''></root>''"

definition after_prefix :: "string \<Rightarrow> string \<Rightarrow> string option" where
  "after_prefix p s = (if take (length p) s = p then Some (drop (length p) s) else None)"

definition serve_pair :: "crypto \<Rightarrow> bool \<Rightarrow> bool \<Rightarrow> string \<Rightarrow> server \<Rightarrow> string \<times> server" where
  "serve_pair c gen7 https args s =
     (case after_prefix (pair_args ''phrase=getservercert&salt='') args of
        Some r \<Rightarrow>
          let salt = from_hex (take 32 r)
          in (reply True ''plaincert'' (to_hex (srv_cert s)),
              s\<lparr>srv_aes := derive_aes_key c salt (srv_pin s) gen7,
                srv_client_cert := from_hex (drop (32 + length ''&clientcert='') r)\<rparr>)
      | None \<Rightarrow>
     (case after_prefix (pair_args ''clientchallenge='') args of
        Some r \<Rightarrow>
          let ch = aes_ecb_decrypt c (from_hex r) (srv_aes s);
              proof_hash = gen_hash c (ch @ signature_from_pem_cert c (srv_cert s) @ srv_secret s) gen7;
              body = take 48 (proof_hash @ srv_challenge s @ replicate 48 (CHR 0x00))
          in (reply True ''challengeresponse'' (to_hex (aes_ecb_encrypt c body (srv_aes s))), s)
      | None \<Rightarrow>
     (case after_prefix (pair_args ''serverchallengeresp='') args of
        Some r \<Rightarrow>
          (reply True ''pairingsecret'' (to_hex (srv_secret s @ sign_message c (srv_secret s) (srv_key s))),
           s\<lparr>srv_client_hash := aes_ecb_decrypt c (from_hex r) (srv_aes s)\<rparr>)
      | None \<Rightarrow>
     (case after_prefix (pair_args ''clientpairingsecret='') args of
        Some r \<Rightarrow>
          let bytes = from_hex r; secret = take 16 bytes; sig = drop 16 bytes;
              expected = gen_hash c (srv_challenge s @ signature_from_pem_cert c (srv_client_cert s) @ secret) gen7
          in (reply (srv_client_hash s = pad32 expected \<and> verify_signature c secret sig (srv_client_cert s)) ''x'' [], s)
      | None \<Rightarrow> (reply (https \<and> args = pair_args ''phrase=pairchallenge'') ''x'' [], s)))))"

definition server_env :: "crypto \<Rightarrow> bool \<Rightarrow> server pair_env" where
  "server_env c gen7 =
     \<lparr>transport = (\<lambda>https command args s.
        if command = ''pair'' then Some (serve_pair c gen7 https args s) else Some ([], s)),
      set_pinned = (\<lambda>_ s. s),
      random_fn = (\<lambda>_ s. case draws s of [] \<Rightarrow> ([], s) | b # bs \<Rightarrow> (b, s\<lparr>draws := bs\<rparr>))\<rparr>"

text \<open>What the code relies on of OpenSSL: the digests have their lengths, AES decryption undoes
  encryption and keeps the length, and a key's signatures verify under its certificate.\<close>

definition crypto_laws :: "crypto \<Rightarrow> bool" where
  "crypto_laws c \<longleftrightarrow>
     (\<forall>d. \<exists>h. evp_sha256 c d = Some h \<and> length h = 32)
     \<and> (\<forall>d. \<exists>h. evp_sha1 c d = Some h \<and> length h = 20)
     \<and> (\<forall>k d. length k = 16 \<longrightarrow> d \<noteq> [] \<longrightarrow> length d mod 16 = 0 \<longrightarrow>
          (\<exists>e. evp_aes_enc c k d = Some e \<and> length e = length d \<and> evp_aes_dec c k e = Some d))"

definition key_pair :: "crypto \<Rightarrow> string \<Rightarrow> string \<Rightarrow> bool" where
  "key_pair c cert key \<longleftrightarrow> (\<forall>m. \<exists>s. evp_sign c key m = Some s \<and> s \<noteq> [] \<and> evp_verify c cert m s)"

lemma reply_paired: "xml_text (reply ok tag value) ''paired'' = (if ok then ''1'' else ''0'')"
proof -
  let ?pre = "''<root status_code='' @ [CHR 0x22] @ ''200'' @ [CHR 0x22] @ ''>''"
  have n: "find_start_tag ?pre ''paired'' = None" by code_simp
  have "encode_entities (if ok then ''1'' else ''0'') = (if ok then ''1'' else ''0'')"
    by (simp add: encode_entities_def entity_def)
  then show ?thesis
    using xml_text_value [OF n, of "[]" "if ok then ''1'' else ''0''" "''>'' @ ''<'' @ tag @ ''>'' @ value @ ''</'' @ tag @ ''></root>''"]
    by (simp add: reply_def)
qed

lemma reply_status: "xml_attr (reply ok tag value) ''root'' ''status_code'' = ''200''"
proof -
  let ?post = "''<paired>'' @ (if ok then ''1'' else ''0'') @ ''</paired>'' @ ''<'' @ tag @ ''>'' @ value @ ''</'' @ tag @ ''></root>''"
  have n: "find_start_tag [] ''root'' = None" by code_simp
  have e: "encode_entities ''200'' = ''200''" by (simp add: encode_entities_def entity_def)
  have f: "find_sub (''status_code'' @ ''='') (''<'' @ ''root'' @ '' '' @ ''status_code'' @ ''='')
      = Some (Suc (length ''root'' + length '' ''))" by code_simp
  show ?thesis
    using xml_attr_value [OF n _ _ _ _ _ f, of "[]" "CHR 0x22" "''200''" ?post]
    by (simp add: e reply_def is_space_def byte_of_def)
qed

lemma reply_ok [simp]: "paired_ok (reply ok tag value) \<longleftrightarrow> ok"
  by (simp add: paired_ok_def reply_status reply_paired) (simp add: reply_def)

lemma entity_hex: "hex_digit c \<noteq> None \<Longrightarrow> entity c = [c]"
  by (auto simp: entity_def hex_digit_def byte_of_def)

lemma hex_plain: "encode_entities (to_hex bs) = to_hex bs"
proof (induction bs)
  case (Cons c bs)
  have "entity (hex_char (byte_of c div 16)) = [hex_char (byte_of c div 16)]"
    "entity (hex_char (byte_of c mod 16)) = [hex_char (byte_of c mod 16)]"
    using byte_of_div_16 [of c] by (simp_all add: entity_hex)
  with Cons show ?case by (simp add: encode_entities_def)
qed (simp add: encode_entities_def)

lemma reply_value:
  assumes "tag \<in> {''plaincert'', ''challengeresponse'', ''pairingsecret''}"
  shows "xml_text_hex (reply ok tag (to_hex bs)) tag = bs"
proof -
  let ?pre = "''<root status_code='' @ [CHR 0x22] @ ''200'' @ [CHR 0x22] @ ''>'' @ ''<paired>'' @ (if ok then ''1'' else ''0'') @ ''</paired>''"
  have n: "find_start_tag ?pre tag = None"
  proof -
    have "\<forall>t\<in>{''plaincert'', ''challengeresponse'', ''pairingsecret''}. \<forall>v\<in>{''1'', ''0''}.
        find_start_tag (''<root status_code='' @ [CHR 0x22] @ ''200'' @ [CHR 0x22] @ ''>'' @ ''<paired>'' @ v @ ''</paired>'') t = None"
      by code_simp
    then show ?thesis using assms by (cases ok) auto
  qed
  have tag: "CHR ''<'' \<notin> set tag" "CHR ''>'' \<notin> set (tag @ [])" "last (''<'' @ tag @ []) \<noteq> CHR ''/''"
    using assms by auto
  have "xml_text (?pre @ ''<'' @ tag @ [] @ ''>'' @ encode_entities (to_hex bs) @ ''</'' @ tag @ ''></root>'') tag = to_hex bs"
    by (rule xml_text_value [OF n tag(1,2) _ tag(3)]) simp
  then show ?thesis by (simp add: xml_text_hex_def reply_def hex_plain from_hex_to_hex)
qed

section \<open>The two sides together\<close>

lemma aes_roundtrip:
  assumes "crypto_laws c" "length k = 16" "d \<noteq> []" "length d mod 16 = 0"
  shows "aes_ecb_decrypt c (aes_ecb_encrypt c d k) k = d"
proof -
  have "\<exists>e. evp_aes_enc c k d = Some e \<and> length e = length d \<and> evp_aes_dec c k e = Some d"
    using assms(1) assms(2-) unfolding crypto_laws_def by (elim conjE allE [of _ k] allE [of _ d]) simp
  then obtain e where e: "evp_aes_enc c k d = Some e" "length e = length d" "evp_aes_dec c k e = Some d"
    by blast
  then have "e \<noteq> []" using assms(3) by auto
  with e assms show ?thesis by (simp add: aes_ecb_decrypt_def aes_ecb_encrypt_def aes_ecb_def)
qed

lemma gen_hash_length: "crypto_laws c \<Longrightarrow> length (gen_hash c d gen7) = (if gen7 then 32 else 20)"
proof -
  assume "crypto_laws c"
  then obtain h1 h2 where "evp_sha256 c d = Some h1" "length h1 = 32" "evp_sha1 c d = Some h2" "length h2 = 20"
    unfolding crypto_laws_def by meson
  then show ?thesis by (simp add: gen_hash_def sha256_def sha1_def or_empty_def)
qed

lemma derive_length: "crypto_laws c \<Longrightarrow> length (derive_aes_key c salt pin gen7) = 16"
  using gen_hash_length [of c "salt @ pin" gen7] by (auto simp: derive_aes_key_def gen_hash_def Let_def)

lemma after_prefix_same [simp]: "after_prefix (pair_args a) (pair_args (a @ r)) = Some r"
  by (simp add: after_prefix_def pair_args_def)

lemma after_prefix_args: "after_prefix (pair_args a) (pair_args b) = after_prefix a b"
  by (simp add: after_prefix_def pair_args_def)

lemma serve_getservercert:
  assumes "length salt = 16"
  shows "serve_pair c g https (pair_args (''phrase=getservercert&salt='' @ to_hex salt @ ''&clientcert='' @ to_hex cc)) s
     = (reply True ''plaincert'' (to_hex (srv_cert s)),
        s\<lparr>srv_aes := derive_aes_key c salt (srv_pin s) g, srv_client_cert := cc\<rparr>)"
proof -
  have "take 32 (to_hex salt @ ''&clientcert='' @ to_hex cc) = to_hex salt"
    "drop (32 + length ''&clientcert='') (to_hex salt @ ''&clientcert='' @ to_hex cc) = to_hex cc"
    using assms by simp_all
  then show ?thesis by (simp only: serve_pair_def after_prefix_same option.case Let_def from_hex_to_hex)
qed

lemma serve_clientchallenge:
  "serve_pair c g https (pair_args (''clientchallenge='' @ to_hex enc)) s
     = (reply True ''challengeresponse'' (to_hex (aes_ecb_encrypt c
          (take 48 (gen_hash c (aes_ecb_decrypt c enc (srv_aes s) @ signature_from_pem_cert c (srv_cert s) @ srv_secret s) g
             @ srv_challenge s @ replicate 48 (CHR 0x00))) (srv_aes s))), s)"
proof -
  have "after_prefix (pair_args ''phrase=getservercert&salt='') (pair_args (''clientchallenge='' @ to_hex enc)) = None"
    by (simp add: after_prefix_args) (simp add: after_prefix_def)
  then show ?thesis by (simp only: serve_pair_def after_prefix_same option.case Let_def from_hex_to_hex)
qed

lemma serve_serverchallengeresp:
  "serve_pair c g https (pair_args (''serverchallengeresp='' @ to_hex enc)) s
     = (reply True ''pairingsecret'' (to_hex (srv_secret s @ sign_message c (srv_secret s) (srv_key s))),
        s\<lparr>srv_client_hash := aes_ecb_decrypt c enc (srv_aes s)\<rparr>)"
proof -
  have "after_prefix (pair_args ''phrase=getservercert&salt='') (pair_args (''serverchallengeresp='' @ to_hex enc)) = None"
    "after_prefix (pair_args ''clientchallenge='') (pair_args (''serverchallengeresp='' @ to_hex enc)) = None"
    by (simp_all add: after_prefix_args) (simp_all add: after_prefix_def)
  then show ?thesis by (simp only: serve_pair_def after_prefix_same option.case Let_def from_hex_to_hex)
qed

lemma serve_clientpairingsecret:
  assumes "length secret = 16"
  shows "serve_pair c g https (pair_args (''clientpairingsecret='' @ to_hex (secret @ sig))) s
     = (reply (srv_client_hash s = pad32 (gen_hash c (srv_challenge s @ signature_from_pem_cert c (srv_client_cert s) @ secret) g)
          \<and> verify_signature c secret sig (srv_client_cert s)) ''x'' [], s)"
proof -
  let ?a = "pair_args (''clientpairingsecret='' @ to_hex (secret @ sig))"
  have "after_prefix (pair_args ''phrase=getservercert&salt='') ?a = None"
    "after_prefix (pair_args ''clientchallenge='') ?a = None" "after_prefix (pair_args ''serverchallengeresp='') ?a = None"
    by (simp_all add: after_prefix_args) (simp_all add: after_prefix_def)
  moreover have "take 16 (secret @ sig) = secret" "drop 16 (secret @ sig) = sig" using assms by simp_all
  ultimately show ?thesis by (simp only: serve_pair_def after_prefix_same option.case Let_def from_hex_to_hex)
qed

lemma serve_pairchallenge:
  "serve_pair c g True (pair_args ''phrase=pairchallenge'') s = (reply True ''x'' [], s)"
proof -
  let ?a = "pair_args ''phrase=pairchallenge''"
  have "after_prefix (pair_args ''phrase=getservercert&salt='') ?a = None"
    "after_prefix (pair_args ''clientchallenge='') ?a = None" "after_prefix (pair_args ''serverchallengeresp='') ?a = None"
    "after_prefix (pair_args ''clientpairingsecret='') ?a = None"
    by (simp_all add: after_prefix_args) (simp_all add: after_prefix_def)
  then show ?thesis by (simp only: serve_pair_def option.case) simp
qed

lemma server_transport: "transport (server_env c g) https ''pair'' args s = Some (serve_pair c g https args s)"
  by (simp add: server_env_def)

lemma server_random:
  "random_fn (server_env c g) n s = (case draws s of [] \<Rightarrow> ([], s) | b # bs \<Rightarrow> (b, s\<lparr>draws := bs\<rparr>))"
  by (simp add: server_env_def)

lemmas serve_lemmas = serve_getservercert serve_clientchallenge serve_serverchallengeresp serve_clientpairingsecret
  serve_pairchallenge

lemma key_pair_signs:
  assumes "key_pair c cert key"
  shows "verify_signature c m (sign_message c m key) cert" "sign_message c m key \<noteq> []"
proof -
  obtain s where "evp_sign c key m = Some s" "s \<noteq> []" "evp_verify c cert m s"
    using assms unfolding key_pair_def by blast
  then show "verify_signature c m (sign_message c m key) cert" "sign_message c m key \<noteq> []"
    by (simp_all add: verify_signature_def sign_message_def or_empty_def)
qed

lemmas args_fold = pair_args_def [symmetric]

lemma honest_stage4:
  assumes "length secret = 16" "key_pair c (certPem ident) (keyPem ident)" "srv_client_cert s = certPem ident"
    "srv_client_hash s = pad32 (gen_hash c (srv_challenge s @ signature_from_pem_cert c (certPem ident) @ secret) g)"
  shows "pair_stage4 c (server_env c g) ident cert secret s = Some ((Paired, cert), s)"
  unfolding pair_stage4_def pair_stage5_def Let_def args_fold server_transport
    serve_clientpairingsecret [OF assms(1)] serve_pairchallenge
  using assms(3,4) key_pair_signs [OF assms(2)] by simp

lemma honest_stage3:
  fixes resp :: bytes and g :: bool
  defines "h \<equiv> if g then 32 else (20::nat)"
  assumes laws: "crypto_laws c" and k: "length (srv_aes s) = 16"
    and keys: "key_pair c (certPem ident) (keyPem ident)" "key_pair c (srv_cert s) (srv_key s)"
    and s: "srv_client_cert s = certPem ident" "length (srv_secret s) = 16" "draws s = [secret]" "length secret = 16"
    and resp: "take h resp = gen_hash c (ch @ signature_from_pem_cert c (srv_cert s) @ srv_secret s) g"
      "take 16 (drop h resp) = srv_challenge s"
  shows "\<exists>s'. pair_stage3 c (server_env c g) ident g (srv_aes s) (srv_cert s) ch resp s = Some ((Paired, srv_cert s), s')"
proof -
  let ?hash = "gen_hash c (srv_challenge s @ signature_from_pem_cert c (certPem ident) @ secret) g"
  let ?s1 = "s\<lparr>draws := [], srv_client_hash := pad32 ?hash\<rparr>"
  have "length (pad32 ?hash) = 32" by (simp add: pad32_def)
  then have aes: "aes_ecb_decrypt c (aes_ecb_encrypt c (pad32 ?hash) (srv_aes s)) (srv_aes s) = pad32 ?hash"
    by (intro aes_roundtrip [OF laws k]) auto
  have st4: "pair_stage4 c (server_env c g) ident (srv_cert s) secret ?s1 = Some ((Paired, srv_cert s), ?s1)"
    using honest_stage4 [OF s(4) keys(1), of ?s1] s(1) by simp
  have ps: "xml_text_hex (reply True ''pairingsecret'' (to_hex (srv_secret s @ sign_message c (srv_secret s) (srv_key s)))) ''pairingsecret''
      = srv_secret s @ sign_message c (srv_secret s) (srv_key s)"
    by (rule reply_value) simp
  have checks: "pair_checks c (server_env c g) ident g (srv_cert s) ch (take h resp) secret
       (reply True ''pairingsecret'' (to_hex (srv_secret s @ sign_message c (srv_secret s) (srv_key s)))) ?s1
     = Some ((Paired, srv_cert s), ?s1)"
    using key_pair_signs [OF keys(2), of "srv_secret s"] s(2) resp(1) st4
    unfolding pair_checks_def ps Let_def by (simp add: substr_def)
  show ?thesis
    unfolding pair_stage3_def Let_def server_random s(3) substr_def args_fold server_transport
      serve_serverchallengeresp
    using checks aes resp(2) by (simp add: h_def)
qed
lemma honest_stage2:
  assumes laws: "crypto_laws c" and k: "length (srv_aes s) = 16"
    and keys: "key_pair c (certPem ident) (keyPem ident)" "key_pair c (srv_cert s) (srv_key s)"
    and s: "srv_client_cert s = certPem ident" "length (srv_secret s) = 16" "length (srv_challenge s) = 16"
      "draws s = [ch, secret]" "length ch = 16" "length secret = 16"
  shows "\<exists>s'. pair_stage2 c (server_env c g) ident g (srv_aes s) (srv_cert s) s = Some ((Paired, srv_cert s), s')"
proof -
  let ?s1 = "s\<lparr>draws := [secret]\<rparr>"
  let ?h = "if g then 32 else (20::nat)"
  let ?hash = "gen_hash c (ch @ signature_from_pem_cert c (srv_cert s) @ srv_secret s) g"
  let ?body = "take 48 (?hash @ srv_challenge s @ replicate 48 (CHR 0x00))"
  have hash: "length ?hash = ?h" by (rule gen_hash_length [OF laws])
  have ch: "aes_ecb_decrypt c (aes_ecb_encrypt c ch (srv_aes s)) (srv_aes s) = ch"
    using s(5) by (intro aes_roundtrip [OF laws k]) auto
  have blen: "length ?body = 48" by simp
  then have "?body \<noteq> []" by auto
  with blen have body: "aes_ecb_decrypt c (aes_ecb_encrypt c ?body (srv_aes s)) (srv_aes s) = ?body"
    by (intro aes_roundtrip [OF laws k]) simp_all
  have cr: "xml_text_hex (reply True ''challengeresponse'' (to_hex (aes_ecb_encrypt c ?body (srv_aes s)))) ''challengeresponse''
      = aes_ecb_encrypt c ?body (srv_aes s)"
    by (rule reply_value) simp
  have parts: "take ?h ?body = ?hash" "take 16 (drop ?h ?body) = srv_challenge s"
    using hash s(3) by (cases g; simp add: drop_take)+
  define b where "b = ?body"
  have "\<exists>s'. pair_stage3 c (server_env c g) ident g (srv_aes ?s1) (srv_cert ?s1) ch b ?s1 = Some ((Paired, srv_cert ?s1), s')"
    by (rule honest_stage3 [where secret = secret, OF laws])
      (use k keys s parts [folded b_def] in \<open>simp_all\<close>)
  then have "\<exists>s'. pair_stage3 c (server_env c g) ident g (srv_aes s) (srv_cert s) ch ?body ?s1 = Some ((Paired, srv_cert s), s')"
    unfolding b_def by simp
  then show ?thesis
    unfolding pair_stage2_def Let_def server_random s(4) args_fold server_transport serve_clientchallenge
    using ch body cr blen by simp
qed

lemma honest_pairs:
  assumes "crypto_laws c" "key_pair c (certPem ident) (keyPem ident)" "key_pair c (srv_cert s) (srv_key s)"
    "srv_pin s = pin" "srv_cert s \<noteq> []" "length (srv_secret s) = 16" "length (srv_challenge s) = 16"
    "draws s = [salt, ch, secret]" "length salt = 16" "length ch = 16" "length secret = 16"
  shows "\<exists>s'. nv_pair c (server_env c (7 \<le> gen)) ident pin gen s = Some ((Paired, srv_cert s), s')"
proof -
  let ?g = "7 \<le> gen"
  let ?key = "derive_aes_key c salt pin ?g"
  let ?s1 = "s\<lparr>draws := [ch, secret], srv_aes := ?key, srv_client_cert := certPem ident\<rparr>"
  have key: "length ?key = 16" by (rule derive_length [OF assms(1)])
  have cert: "xml_text_hex (reply True ''plaincert'' (to_hex (srv_cert s))) ''plaincert'' = srv_cert s"
    by (rule reply_value) simp
  have "\<exists>s'. pair_stage2 c (server_env c ?g) ident ?g (srv_aes ?s1) (srv_cert ?s1) ?s1 = Some ((Paired, srv_cert ?s1), s')"
    by (rule honest_stage2 [where ch = ch and secret = secret, OF assms(1)]) (use assms key in simp_all)
  moreover have "set_pinned (server_env c ?g) x t = t" for x t by (simp add: server_env_def)
  moreover have "?key \<noteq> []" using key by auto
  ultimately show ?thesis
    unfolding nv_pair_def Let_def server_random assms(8) args_fold server_transport
    using assms(4,5) cert serve_getservercert [OF assms(9)] by simp
qed

text \<open>
  C15. Pairing is complete.  An engine and an honest host that were given the same PIN, with working
  cryptography, matching keys and fresh sixteen-byte random values, end paired, for every host
  generation, and the engine obtains the host's certificate; the host for its part has verified the
  engine's proof of the PIN and its signature.
\<close>

theorem pairing_complete:
  assumes "crypto_laws c" "key_pair c (certPem ident) (keyPem ident)" "key_pair c (srv_cert s) (srv_key s)"
    "srv_pin s = pin" "srv_cert s \<noteq> []" "length (srv_secret s) = 16" "length (srv_challenge s) = 16"
    "draws s = [salt, ch, secret]" "length salt = 16" "length ch = 16" "length secret = 16"
  shows "\<exists>s'. nv_pair c (server_env c (7 \<le> gen)) ident pin gen s = Some ((Paired, srv_cert s), s')"
  by (rule honest_pairs [OF assms])

text \<open>A toy cryptography that satisfies the laws, for the concrete runs below.\<close>

definition toy_crypto :: crypto where
  "toy_crypto = \<lparr>evp_sha256 = (\<lambda>d. Some (take 32 (d @ replicate 32 (CHR ''#'')))),
     evp_sha1 = (\<lambda>d. Some (take 20 (d @ replicate 20 (CHR ''#'')))),
     evp_aes_enc = (\<lambda>k d. Some (rev d)), evp_aes_dec = (\<lambda>k d. Some (rev d)),
     x509_signature = (\<lambda>pem. Some (''sig'' @ pem)), evp_verify = (\<lambda>pem m s. s = ''s'' @ m),
     evp_sign = (\<lambda>key m. Some (''s'' @ m))\<rparr>"

definition toy_server :: server where
  "toy_server = \<lparr>srv_pin = ''1234'', srv_cert = ''CERT'', srv_key = ''KEY'', srv_secret = replicate 16 (CHR ''S''),
     srv_challenge = replicate 16 (CHR ''C''), srv_aes = [], srv_client_cert = [], srv_client_hash = [],
     draws = [replicate 16 (CHR ''a''), replicate 16 (CHR ''b''), replicate 16 (CHR ''c'')]\<rparr>"

lemma toy_laws: "crypto_laws toy_crypto" "key_pair toy_crypto cert key"
  by (auto simp: crypto_laws_def key_pair_def toy_crypto_def min_def)

theorem pairing_complete_witness:
  "\<exists>s'. nv_pair toy_crypto (server_env toy_crypto True) \<lparr>certPem = ''MY'', keyPem = ''MK''\<rparr> ''1234'' 7 toy_server
     = Some ((Paired, ''CERT''), s')"
proof -
  have "\<exists>s'. nv_pair toy_crypto (server_env toy_crypto (7 \<le> (7::int))) \<lparr>certPem = ''MY'', keyPem = ''MK''\<rparr> ''1234'' 7 toy_server
     = Some ((Paired, srv_cert toy_server), s')"
    by (rule pairing_complete [where salt = "replicate 16 (CHR ''a'')" and ch = "replicate 16 (CHR ''b'')"
          and secret = "replicate 16 (CHR ''c'')", OF toy_laws(1) toy_laws(2) toy_laws(2)]) (simp_all add: toy_server_def)
  then show ?thesis by (simp add: toy_server_def)
qed

definition toy_ssl :: "(string, string) openssl" where
  "toy_ssl = \<lparr>pem_cert = Some, pem_key = Some, x509_same = (=)\<rparr>"

definition toy_net :: "string \<Rightarrow> (string, string) attempt" where
  "toy_net x =
     (let ch = \<lparr>handle = 3, rxq = [Data (''HTTP/1.1 200 OK'' @ crlf @ crlf @ x)], txq = [], sent = []\<rparr>
      in \<lparr>rand16 = None, addrs = [Some ch], tls_connect = (\<lambda>_ _. Some (Some ''CERT'', ch))\<rparr>)"

text \<open>A host that answers one request per connection, with a status line and a body.\<close>

lemma recv_whole:
  "0 \<le> h \<Longrightarrow> bs \<noteq> [] \<Longrightarrow> length bs \<le> 4096 \<Longrightarrow> recv_all \<lparr>handle = h, rxq = [Data bs], txq = tq, sent = sn\<rparr> [] = bs"
  by (simp add: recv_all.simps sys_recv_def)

lemma send_whole: "0 \<le> h \<Longrightarrow> bs \<noteq> [] \<Longrightarrow> pipe_write \<lparr>handle = h, rxq = q, txq = [], sent = sn\<rparr> bs
    = (\<lparr>handle = h, rxq = q, txq = [], sent = sn @ bs\<rparr>, True)"
  by (simp add: pipe_write.simps [of _ bs] sys_send_def) (simp add: pipe_write.simps [of _ "[]"])

lemma exchange_whole:
  assumes "req \<noteq> []" "raw \<noteq> []" "length raw \<le> 4096"
  shows "exchange \<lparr>handle = 3, rxq = [Data raw], txq = [], sent = []\<rparr> req = (req, raw)"
  using assms by (simp add: exchange_def send_all_def send_whole recv_whole)

lemma plain_reply: "parse_http_response (''HTTP/1.1 200 OK'' @ crlf @ crlf @ x) = Some \<lparr>rsp_ok = True, httpStatus = 200, rsp_body = x\<rparr>"
proof -
  let ?l = "''HTTP/1.1 200 OK''"
  have "map to_lower ?l = ''http/1.1 200 ok''" by code_simp
  moreover have "header_text [?l] = ?l" by (simp add: header_text_def header_block_def crlf_def)
  ultimately have plain: "\<not> is_chunked [?l]" by (simp add: is_chunked_def)
  have lines: "list_all line_ok [?l]" by (simp add: line_ok_def)
  have "dec_digits 200 = ''200''" by code_simp
  then have status: "?l = ''HTTP/1.1 '' @ dec_digits 200 @ '' '' @ ''OK''" by (simp only: append.simps)
  have "parse_http_response (header_block [?l] @ crlf @ x)
      = map_option (\<lambda>b. \<lparr>rsp_ok = True, httpStatus = int 200, rsp_body = b\<rparr>) (if is_chunked [?l] then dechunk x else Some x)"
    by (rule parse_http_reply [OF lines status]) simp
  then show ?thesis by (simp only: plain if_False option.map of_nat_numeral) (simp add: header_block_def)
qed

lemma toy_net_get:
  assumes "nets l = toy_net x # ns" "length x \<le> 4000" "https \<Longrightarrow> pinnedServerCert (live_client l) = ''CERT''"
  shows "live_get toy_ssl https cmd args l = Some (x, l\<lparr>nets := ns\<rparr>)"
proof -
  define raw where "raw = ''HTTP/1.1 200 OK'' @ crlf @ crlf @ x"
  have raw: "raw \<noteq> []" "length raw \<le> 4096" "parse_http_response raw = Some \<lparr>rsp_ok = True, httpStatus = 200, rsp_body = x\<rparr>"
    using assms(2) plain_reply [of x] by (simp_all add: raw_def crlf_def)
  have net: "toy_net x = \<lparr>rand16 = None, addrs = [Some \<lparr>handle = 3, rxq = [Data raw], txq = [], sent = []\<rparr>],
      tls_connect = (\<lambda>_ _. Some (Some ''CERT'', \<lparr>handle = 3, rxq = [Data raw], txq = [], sent = []\<rparr>))\<rparr>"
    unfolding toy_net_def raw_def Let_def by (rule refl)
  have ex: "exchange \<lparr>handle = 3, rxq = [Data raw], txq = [], sent = []\<rparr> (CHR ''G'' # req) = (CHR ''G'' # req, raw)" for req
    by (rule exchange_whole) (use raw in simp_all)
  have "\<exists>out. request toy_ssl (live_client l) https port cmd args (toy_net x) = Some (x, out)" for port
    using assms(3) by (cases https) (simp_all add: request_def net Let_def ex raw(3) toy_ssl_def read_pem_cert_def)
  then have "\<exists>out. (if https then get_https toy_ssl (live_client l) cmd args (toy_net x)
      else get_http toy_ssl (live_client l) cmd args (toy_net x)) = Some (x, out)"
    by (cases https) (auto simp: get_http_def get_https_def)
  then show ?thesis using assms(1) by (auto simp: live_get_def split: if_splits)
qed

lemma toy_live_get:
  "length x \<le> 4000 \<Longrightarrow> (https \<Longrightarrow> pinnedServerCert cl = ''CERT'') \<Longrightarrow>
     live_get toy_ssl https cmd args \<lparr>live_client = cl, nets = toy_net x # ns, rands = rs\<rparr> = Some (x, \<lparr>live_client = cl, nets = ns, rands = rs\<rparr>)"
  by (subst toy_net_get [of _ x ns]) simp_all

text \<open>The answers of the toy server to the handshake that draws the same bytes sixteen times.\<close>

definition toy_proof :: bytes where
  "toy_proof = gen_hash toy_crypto (replicate 16 (CHR ''b'') @ signature_from_pem_cert toy_crypto ''CERT'' @ replicate 16 (CHR ''S'')) True"

definition toy_live :: "(string, string) live" where
  "toy_live =
     \<lparr>live_client = new_client ''h'' 1 2 \<lparr>certPem = ''MY'', keyPem = ''MK''\<rparr> ''u'',
      nets = [toy_net (reply True ''plaincert'' (to_hex ''CERT'')),
              toy_net (reply True ''challengeresponse'' (to_hex (rev (toy_proof @ replicate 16 (CHR ''C''))))),
              toy_net (reply True ''pairingsecret'' (to_hex (replicate 16 (CHR ''S'') @ ''s'' @ replicate 16 (CHR ''S'')))),
              toy_net (reply True ''x'' []), toy_net (reply True ''x'' [])],
      rands = [Some (\<lambda>_. CHR ''a''), Some (\<lambda>_. CHR ''b''), Some (\<lambda>_. CHR ''c'')]\<rparr>"

lemma reply_length: "2 * length tag + length val \<le> 3000 \<Longrightarrow> length (reply ok tag val) \<le> 4000"
  by (simp add: reply_def)

lemma toy_live_pairs:
  "map_option fst (pair_with_client toy_ssl toy_crypto \<lparr>certPem = ''MY'', keyPem = ''MK''\<rparr> ''1234'' 7 toy_live)
     = Some (Paired, ''CERT'')"
proof -
  let ?E = "live_env toy_ssl" and ?id = "\<lparr>certPem = ''MY'', keyPem = ''MK''\<rparr>"
  let ?x = "toy_net (reply True ''x'' [])" and ?S = "replicate 16 (CHR ''S'')"
  let ?y = "toy_net (reply True ''pairingsecret'' (to_hex (?S @ ''s'' @ ?S)))"
  let ?z = "toy_net (reply True ''challengeresponse'' (to_hex (rev (toy_proof @ replicate 16 (CHR ''C'')))))"
  let ?st = "\<lambda>cl ns rs. \<lparr>live_client = cl, nets = ns, rands = rs\<rparr>"
  have E: "transport ?E = live_get toy_ssl" "set_pinned ?E = live_pin" "random_fn ?E = live_random" by (simp_all add: live_env_def)
  have len: "length toy_proof = 32" by (simp add: toy_proof_def gen_hash_def sha256_def or_empty_def toy_crypto_def)
  have draw: "live_random 16 (?st cl ns (Some (\<lambda>_. c) # rs)) = (replicate 16 c, ?st cl ns rs)" for cl ns rs and c
    by (simp add: live_random_def random_bytes_def map_replicate_const)
  have s5: "pair_stage5 ?E ''CERT'' (?st cl [?x] []) = Some ((Paired, ''CERT''), ?st cl [] [])" if "pinnedServerCert cl = ''CERT''" for cl
    using that by (simp add: pair_stage5_def E toy_live_get reply_length)
  have s4: "pair_stage4 toy_crypto ?E ?id ''CERT'' k (?st cl [?x, ?x] []) = Some ((Paired, ''CERT''), ?st cl [] [])"
    if "pinnedServerCert cl = ''CERT''" for cl k
    using s5 [OF that] by (simp add: pair_stage4_def E toy_live_get reply_length)
  have chk: "pair_checks toy_crypto ?E ?id True ''CERT'' (replicate 16 (CHR ''b'')) toy_proof k (reply True ''pairingsecret'' (to_hex (?S @ ''s'' @ ?S))) (?st cl [?x, ?x] [])
      = Some ((Paired, ''CERT''), ?st cl [] [])" if "pinnedServerCert cl = ''CERT''" for cl k
  proof -
    have v: "xml_text_hex (reply True ''pairingsecret'' (to_hex (?S @ ''s'' @ ?S))) ''pairingsecret'' = ?S @ ''s'' @ ?S" by (rule reply_value) simp
    have p: "substr (?S @ ''s'' @ ?S) 0 16 = ?S" "drop 16 (?S @ ''s'' @ ?S) = ''s'' @ ?S" "\<not> length (?S @ ''s'' @ ?S) \<le> 16"
      by (simp_all add: substr_def)
    have "verify_signature toy_crypto ?S (''s'' @ ?S) ''CERT''" by (simp add: verify_signature_def toy_crypto_def)
    then show ?thesis unfolding pair_checks_def v Let_def p toy_proof_def [symmetric] using p(3) by (simp only: if_False simp_thms s4 [OF that])
  qed
  have s3: "pair_stage3 toy_crypto ?E ?id True key ''CERT'' (replicate 16 (CHR ''b'')) (toy_proof @ replicate 16 (CHR ''C'')) (?st cl [?y, ?x, ?x] [Some (\<lambda>_. CHR ''c'')])
      = Some ((Paired, ''CERT''), ?st cl [] [])" if "pinnedServerCert cl = ''CERT''" for cl key
  proof -
    have g: "live_get toy_ssl False cmd args (?st cl [?y, ?x, ?x] []) = Some (reply True ''pairingsecret'' (to_hex (?S @ ''s'' @ ?S)), ?st cl [?x, ?x] [])" for cmd args
      by (rule toy_live_get) (auto intro!: reply_length)
    have "substr (toy_proof @ replicate 16 (CHR ''C'')) 0 32 = toy_proof" using len by (simp add: substr_def)
    then show ?thesis unfolding pair_stage3_def E draw Let_def prod.case g option.case if_True reply_ok
      by (simp only: simp_thms if_False chk [OF that])
  qed
  have s2: "pair_stage2 toy_crypto ?E ?id True key ''CERT'' (?st cl [?z, ?y, ?x, ?x] [Some (\<lambda>_. CHR ''b''), Some (\<lambda>_. CHR ''c'')])
      = Some ((Paired, ''CERT''), ?st cl [] [])" if "pinnedServerCert cl = ''CERT''" "length key = 16" for cl key
  proof -
    let ?r = "toy_proof @ replicate 16 (CHR ''C'')"
    have g: "live_get toy_ssl False cmd args (?st cl [?z, ?y, ?x, ?x] rs) = Some (reply True ''challengeresponse'' (to_hex (rev ?r)), ?st cl [?y, ?x, ?x] rs)" for cmd args rs
      by (rule toy_live_get) (auto intro!: reply_length simp: len)
    have v: "xml_text_hex (reply True ''challengeresponse'' (to_hex (rev ?r))) ''challengeresponse'' = rev ?r" by (rule reply_value) simp
    have d: "aes_ecb_decrypt toy_crypto (rev ?r) key = ?r" "\<not> length ?r < 32 + 16"
      using len that(2) by (simp_all add: aes_ecb_decrypt_def aes_ecb_def or_empty_def toy_crypto_def)
    show ?thesis unfolding pair_stage2_def E draw Let_def prod.case g option.case if_True reply_ok v d
      by (simp only: simp_thms if_False d s3 [OF that(1)])
  qed
  have g: "live_get toy_ssl False cmd args (?st cl (nets toy_live) rs) = Some (reply True ''plaincert'' (to_hex ''CERT''), ?st cl [?z, ?y, ?x, ?x] rs)" for cl cmd args rs
    unfolding toy_live_def live.select_convs by (rule toy_live_get) (auto intro!: reply_length)
  have v: "xml_text_hex (reply True ''plaincert'' (to_hex ''CERT'')) ''plaincert'' = ''CERT''" by (rule reply_value) simp
  have len16: "length (derive_aes_key toy_crypto (replicate 16 (CHR ''a'')) ''1234'' True) = 16"
    by (simp add: derive_aes_key_def gen_hash_def sha256_def or_empty_def toy_crypto_def)
  then have k: "derive_aes_key toy_crypto (replicate 16 (CHR ''a'')) ''1234'' True \<noteq> []" by auto
  define cl where "cl = live_client toy_live"
  have l: "toy_live = ?st cl (nets toy_live) [Some (\<lambda>_. CHR ''a''), Some (\<lambda>_. CHR ''b''), Some (\<lambda>_. CHR ''c'')]"
    by (simp add: toy_live_def cl_def)
  have pin: "live_pin ''CERT'' (?st cl ns rs) = ?st (set_pinned_server_cert ''CERT'' cl) ns rs" for ns rs by (simp add: live_pin_def)
  have "pinnedServerCert (set_pinned_server_cert ''CERT'' cl) = ''CERT''" by (simp add: set_pinned_server_cert_def)
  note s2 = s2 [OF this len16]
  have gen: "(7 \<le> (7 :: int)) = True" by simp
  show ?thesis
    unfolding pair_with_client_def
    by (subst l) (simp only: nv_pair_def Let_def gen E draw prod.case g option.case reply_ok v k pin s2 simp_thms if_True if_False
        list.distinct option.map fst_conv)
qed

section \<open>Over a live client\<close>

text \<open>A request over TLS that brought a body: its connection, the handshake, what was sent and what was read on it.\<close>

lemma https_channel:
  assumes "get_https ssl cl command args net = Some (body, out)" "body \<noteq> []"
  obtains p ch pinned req raw resp where
    "tls_connect net (read_pem_cert ssl (certPem (cl_identity cl)))
       (if keyPem (cl_identity cl) = [] then None else pem_key ssl (keyPem (cl_identity cl))) = Some (Some p, ch)"
    "pem_cert ssl (pinnedServerCert cl) = Some pinned" "x509_same ssl p pinned"
    "exchange ch req = (out, raw)" "parse_http_response raw = Some resp" "rsp_body resp = body"
proof -
  have nil: "parse_http_response [] = Some no_response" by (simp add: parse_http_response_def)
  show thesis
    using assms that
    by (auto simp: get_https_def request_def Let_def read_pem_cert_def nil no_response_def
        split: option.splits if_splits prod.splits)
qed

text \<open>A request with an answer uses up exactly the next connection.\<close>

lemma live_get_answered:
  assumes "live_get ssl https cmd args w = Some (x, w')" "paired_ok x"
  obtains net out where "nets w = net # nets w'" "live_client w' = live_client w"
    "(if https then get_https ssl (live_client w) cmd args net else get_http ssl (live_client w) cmd args net) = Some (x, out)"
  using assms by (cases "nets w") (auto simp: live_get_def paired_ok_def split: option.splits prod.splits)

lemma live_get_step: "live_get ssl https cmd args w = Some (x, w') \<Longrightarrow> live_client w' = live_client w \<and> set (nets w') \<subseteq> set (nets w)"
  by (auto simp: live_get_def split: list.splits option.splits prod.splits)

lemma live_random_step: "live_random n w = (b, w') \<Longrightarrow> live_client w' = live_client w \<and> nets w' = nets w"
  by (auto simp: live_random_def split: list.splits)

text \<open>The four requests after the first, each on a connection of its own.\<close>

lemma stage2_live:
  assumes "pair_stage2 c (live_env ssl) ident gen7 key cert w = Some ((Paired, cert'), w')"
  obtains n2 n3 n4 n5 x5 out where "nets w = n2 # n3 # n4 # n5 # nets w'" "live_client w' = live_client w" "cert' = cert" "paired_ok x5"
    "get_https ssl (live_client w) ''pair'' (kPairPrefix @ ''phrase=pairchallenge'') n5 = Some (x5, out)"
proof -
  have E: "transport (live_env ssl) = live_get ssl" "random_fn (live_env ssl) = live_random"
    by (simp_all add: live_env_def)
  obtain ch w1 x2 w2 a2 resp where s2: "live_random 16 w = (ch, w1)" "live_get ssl False ''pair'' a2 w1 = Some (x2, w2)" "paired_ok x2"
      "pair_stage3 c (live_env ssl) ident gen7 key cert ch resp w2 = Some ((Paired, cert'), w')"
    using stage2_Paired [OF assms] unfolding E by metis
  obtain secret w3 x3 w4 a3 sr where s3: "live_random 16 w2 = (secret, w3)" "live_get ssl False ''pair'' a3 w3 = Some (x3, w4)" "paired_ok x3"
      "pair_checks c (live_env ssl) ident gen7 cert ch sr secret x3 w4 = Some ((Paired, cert'), w')"
    using stage3_Paired [OF s2(4)] unfolding E by metis
  obtain x4 w5 a4 where s4: "live_get ssl False ''pair'' a4 w4 = Some (x4, w5)" "paired_ok x4"
      "pair_stage5 (live_env ssl) cert w5 = Some ((Paired, cert'), w')"
    using stage4_Paired [OF checks_Paired(2) [OF s3(4)]] unfolding E by metis
  obtain x5 where s5: "cert' = cert" "live_get ssl True ''pair'' (kPairPrefix @ ''phrase=pairchallenge'') w5 = Some (x5, w')" "paired_ok x5"
    using stage5_Paired [OF s4(3)] unfolding E by metis
  obtain n2 where n2: "nets w1 = n2 # nets w2" "live_client w2 = live_client w1" using live_get_answered [OF s2(2,3)] by metis
  obtain n3 where n3: "nets w3 = n3 # nets w4" "live_client w4 = live_client w3" using live_get_answered [OF s3(2,3)] by metis
  obtain n4 where n4: "nets w4 = n4 # nets w5" "live_client w5 = live_client w4" using live_get_answered [OF s4(1,2)] by metis
  obtain n5 out where n5: "nets w5 = n5 # nets w'" "live_client w' = live_client w5"
      "get_https ssl (live_client w5) ''pair'' (kPairPrefix @ ''phrase=pairchallenge'') n5 = Some (x5, out)"
    using live_get_answered [OF s5(2,3)] by (metis (full_types))
  have "live_client w1 = live_client w" "nets w1 = nets w" "live_client w3 = live_client w2" "nets w3 = nets w2"
    using live_random_step s2(1) s3(1) by blast+
  then show thesis using that [of n2 n3 n4 n5 x5 out] n2 n3 n4 n5 s5(1,3) by simp
qed

text \<open>
  C17. Pairing over a live client ends with the pinned certificate proved over TLS.  If
  \<open>pair_with_client\<close> returns paired, it has used exactly five connections.  The first answered the request in the
  clear from which the returned certificate was taken, and the client is left as it was but for being pinned to that
  certificate.  The last was a TLS connection, opened with the client's own certificate and key, in
  whose handshake the peer presented a certificate equal to the returned one, and on that connection the final challenge was sent and its
  paired answer was read.
\<close>

theorem pair_with_client_pins:
  assumes "pair_with_client ssl c ident pin gen w = Some ((Paired, cert), w')"
  shows "\<exists>n1 n2 n3 n4 n5 a1 x1 o1 x5 out p ch pinned req raw resp.
           nets w = n1 # n2 # n3 # n4 # n5 # nets w'
           \<and> get_http ssl (live_client w) ''pair'' a1 n1 = Some (x1, o1) \<and> cert = xml_text_hex x1 ''plaincert'' \<and> cert \<noteq> []
           \<and> live_client w' = set_pinned_server_cert cert (live_client w)
           \<and> get_https ssl (live_client w') ''pair'' (kPairPrefix @ ''phrase=pairchallenge'') n5 = Some (x5, out) \<and> paired_ok x5
           \<and> tls_connect n5 (read_pem_cert ssl (certPem (cl_identity (live_client w))))
                (if keyPem (cl_identity (live_client w)) = [] then None else pem_key ssl (keyPem (cl_identity (live_client w))))
              = Some (Some p, ch)
           \<and> pem_cert ssl cert = Some pinned \<and> x509_same ssl p pinned
           \<and> exchange ch req = (out, raw) \<and> parse_http_response raw = Some resp \<and> rsp_body resp = x5"
proof -
  have E: "transport (live_env ssl) = live_get ssl" "random_fn (live_env ssl) = live_random" "set_pinned (live_env ssl) = live_pin"
    by (simp_all add: live_env_def)
  obtain salt w1 x1 w2 key a1 where s1: "live_random 16 w = (salt, w1)" "live_get ssl False ''pair'' a1 w1 = Some (x1, w2)" "paired_ok x1"
      "xml_text_hex x1 ''plaincert'' \<noteq> []"
      "pair_stage2 c (live_env ssl) ident (7 \<le> gen) key (xml_text_hex x1 ''plaincert'') (live_pin (xml_text_hex x1 ''plaincert'') w2)
         = Some ((Paired, cert), w')"
    using nv_pair_stage1 [OF assms [unfolded pair_with_client_def]] unfolding E by metis
  obtain n1 o1 where n1: "nets w1 = n1 # nets w2" "live_client w2 = live_client w1"
      "get_http ssl (live_client w1) ''pair'' a1 n1 = Some (x1, o1)"
    using live_get_answered [OF s1(2,3)] by (metis (full_types))
  have w1: "live_client w1 = live_client w" "nets w1 = nets w" using live_random_step s1(1) by blast+
  obtain n2 n3 n4 n5 x5 out where r: "nets (live_pin cert w2) = n2 # n3 # n4 # n5 # nets w'" "live_client w' = live_client (live_pin cert w2)"
      "cert = xml_text_hex x1 ''plaincert''" "paired_ok x5"
      "get_https ssl (live_client w') ''pair'' (kPairPrefix @ ''phrase=pairchallenge'') n5 = Some (x5, out)"
    using stage2_live [OF s1(5)] by metis
  have cl: "live_client w' = set_pinned_server_cert cert (live_client w)" and nets: "nets w = n1 # n2 # n3 # n4 # n5 # nets w'"
    using r(1,2) n1(1,2) w1 by (simp_all add: live_pin_def)
  have "x5 \<noteq> []" using r(4) by (simp add: paired_ok_def)
  note x5 = this
  have same: "cl_identity (live_client w') = cl_identity (live_client w)" "pinnedServerCert (live_client w') = cert"
    using cl by (simp_all add: set_pinned_server_cert_def)
  obtain p ch pinned req raw resp where
    "tls_connect n5 (read_pem_cert ssl (certPem (cl_identity (live_client w))))
       (if keyPem (cl_identity (live_client w)) = [] then None else pem_key ssl (keyPem (cl_identity (live_client w)))) = Some (Some p, ch)"
    "pem_cert ssl cert = Some pinned" "x509_same ssl p pinned"
    "exchange ch req = (out, raw)" "parse_http_response raw = Some resp" "rsp_body resp = x5"
    by (rule https_channel [OF r(5) x5, unfolded same])
  with n1(3) [unfolded w1(1)] r(3-5) s1(4) [folded r(3)] cl nets show ?thesis by blast
qed

theorem pair_with_client_pins_witness:
  "\<exists>w'. pair_with_client toy_ssl toy_crypto \<lparr>certPem = ''MY'', keyPem = ''MK''\<rparr> ''1234'' 7 toy_live
           = Some ((Paired, ''CERT''), w')
     \<and> live_client w' = set_pinned_server_cert ''CERT'' (live_client toy_live) \<and> length (nets toy_live) = 5 + length (nets w')"
proof -
  obtain w' where r: "pair_with_client toy_ssl toy_crypto \<lparr>certPem = ''MY'', keyPem = ''MK''\<rparr> ''1234'' 7 toy_live
      = Some ((Paired, ''CERT''), w')"
    using toy_live_pairs by auto
  obtain n1 n2 n3 n4 n5 where "nets toy_live = n1 # n2 # n3 # n4 # n5 # nets w'"
    "live_client w' = set_pinned_server_cert ''CERT'' (live_client toy_live)"
    using pair_with_client_pins [OF r] by blast
  with r show ?thesis by (intro exI [of _ w']) simp
qed

section \<open>Tracing changes nothing\<close>

definition erase :: "(pair_result \<times> ('w \<times> pair_event list)) option \<Rightarrow> (pair_result \<times> 'w) option" where
  "erase = map_option (\<lambda>(r, w, tr). (r, w))"

lemma erase_simps [simp]: "erase None = None" "erase (Some (r, (w, tr))) = Some (r, w)"
  by (simp_all add: erase_def)

lemma traced_transport_eq:
  "transport (traced E) https cmd args (w, tr) =
     (case transport E https cmd args w of None \<Rightarrow> None | Some (x, w') \<Rightarrow> Some (x, (w', tr @ [Request https cmd args x])))"
  by (simp add: traced_def)

lemma traced_random_eq: "random_fn (traced E) n (w, tr) = (case random_fn E n w of (b, w') \<Rightarrow> (b, (w', tr @ [Drew b])))"
  by (simp add: traced_def)

lemma erase_unpair [simp]: "erase (unpair (traced E) st (w, tr)) = unpair E st w"
  by (simp add: unpair_def traced_transport_eq split: option.splits prod.splits)

lemma erase_stage5 [simp]: "erase (pair_stage5 (traced E) cert (w, tr)) = pair_stage5 E cert w"
  unfolding pair_stage5_def traced_transport_eq by (simp split: option.splits prod.splits)

lemma erase_stage4 [simp]: "erase (pair_stage4 c (traced E) ident cert secret (w, tr)) = pair_stage4 c E ident cert secret w"
  unfolding pair_stage4_def Let_def traced_transport_eq by (simp split: option.splits prod.splits)

lemma erase_checks [simp]:
  "erase (pair_checks c (traced E) ident g cert ch sr secret x (w, tr)) = pair_checks c E ident g cert ch sr secret x w"
  unfolding pair_checks_def Let_def by simp

lemma erase_stage3 [simp]:
  "erase (pair_stage3 c (traced E) ident g key cert ch resp (w, tr)) = pair_stage3 c E ident g key cert ch resp w"
  unfolding pair_stage3_def Let_def traced_random_eq by (simp add: traced_transport_eq split: option.splits prod.splits)

lemma erase_stage2 [simp]:
  "erase (pair_stage2 c (traced E) ident g key cert (w, tr)) = pair_stage2 c E ident g key cert w"
  unfolding pair_stage2_def Let_def traced_random_eq by (simp add: traced_transport_eq split: option.splits prod.splits)

lemma erase_nv_pair: "erase (nv_pair c (traced E) ident pin gen (w, tr)) = nv_pair c E ident pin gen w"
  unfolding nv_pair_def Let_def traced_random_eq
  by (simp add: traced_transport_eq traced_pin split: option.splits prod.splits)

lemma traced_run:
  assumes "nv_pair c E ident pin gen w = Some (r, w')"
  obtains tr where "nv_pair c (traced E) ident pin gen (w, []) = Some (r, (w', tr))"
  using assms erase_nv_pair [of c E ident pin gen w "[]"] by (auto simp: erase_def)

lemma toy_run:
  obtains s' tr where "nv_pair toy_crypto (traced (server_env toy_crypto True)) \<lparr>certPem = ''MY'', keyPem = ''MK''\<rparr> ''1234'' 7
      (toy_server, []) = Some ((Paired, ''CERT''), (s', tr))"
proof -
  have "\<exists>s'. nv_pair toy_crypto (server_env toy_crypto (7 \<le> (7::int))) \<lparr>certPem = ''MY'', keyPem = ''MK''\<rparr> ''1234'' 7 toy_server
     = Some ((Paired, srv_cert toy_server), s')"
    by (rule honest_pairs [where salt = "replicate 16 (CHR ''a'')" and ch = "replicate 16 (CHR ''b'')"
          and secret = "replicate 16 (CHR ''c'')", OF toy_laws(1) toy_laws(2) toy_laws(2)]) (simp_all add: toy_server_def)
  then obtain s' where r: "nv_pair toy_crypto (server_env toy_crypto True) \<lparr>certPem = ''MY'', keyPem = ''MK''\<rparr> ''1234'' 7 toy_server
     = Some ((Paired, ''CERT''), s')"
    by (auto simp: toy_server_def)
  obtain tr where "nv_pair toy_crypto (traced (server_env toy_crypto True)) \<lparr>certPem = ''MY'', keyPem = ''MK''\<rparr> ''1234'' 7
      (toy_server, []) = Some ((Paired, ''CERT''), (s', tr))"
    by (rule traced_run [OF r])
  then show thesis by (rule that)
qed

theorem pairing_authentic_witness:
  "\<exists>s' tr salt challenge secret answers.
     nv_pair toy_crypto (traced (server_env toy_crypto True)) \<lparr>certPem = ''MY'', keyPem = ''MK''\<rparr> ''1234'' 7 (toy_server, [])
       = Some ((Paired, ''CERT''), (s', tr))
     \<and> tr = full_run toy_crypto \<lparr>certPem = ''MY'', keyPem = ''MK''\<rparr> ''1234'' True ''CERT'' salt challenge secret answers"
proof -
  obtain s' tr where r: "nv_pair toy_crypto (traced (server_env toy_crypto True)) \<lparr>certPem = ''MY'', keyPem = ''MK''\<rparr> ''1234'' 7
      (toy_server, []) = Some ((Paired, ''CERT''), (s', tr))"
    using toy_run .
  obtain salt ch secret x1 x2 x3 x4 x5 where
    "tr = full_run toy_crypto \<lparr>certPem = ''MY'', keyPem = ''MK''\<rparr> ''1234'' (7 \<le> (7::int)) ''CERT'' salt ch secret (x1, x2, x3, x4, x5)"
    using pairing_authentic [OF r] by blast
  then have "tr = full_run toy_crypto \<lparr>certPem = ''MY'', keyPem = ''MK''\<rparr> ''1234'' True ''CERT'' salt ch secret (x1, x2, x3, x4, x5)"
    by simp
  with r show ?thesis by blast
qed

theorem pairing_failure_cancels_witness:
  "\<exists>w' tr. nv_pair toy_crypto (traced \<lparr>transport = (\<lambda>_ _ _ w. Some (reply True ''x'' [], w)), set_pinned = (\<lambda>_ w. w),
        random_fn = (\<lambda>_ w. (''r'', w))\<rparr>) \<lparr>certPem = ''MY'', keyPem = ''MK''\<rparr> ''1234'' 7 ((), [])
     = Some ((AlreadyInProgress, []), (w', tr)) \<and> cancelled tr"
proof -
  let ?E = "\<lparr>transport = (\<lambda>_ _ _ w. Some (reply True ''x'' [], w)), set_pinned = (\<lambda>_ w. w),
        random_fn = (\<lambda>_ w. (''r'', w))\<rparr> :: unit pair_env"
  have x: "xml_text_hex (reply True ''x'' []) ''plaincert'' = []" by code_simp
  have "derive_aes_key toy_crypto ''r'' ''1234'' True \<noteq> []"
    using derive_length [OF toy_laws(1)] by (metis list.size(3) zero_neq_numeral)
  then have n: "nv_pair toy_crypto ?E \<lparr>certPem = ''MY'', keyPem = ''MK''\<rparr> ''1234'' 7 () = Some ((AlreadyInProgress, []), ())"
    by (simp add: nv_pair_def Let_def x unpair_def)
  obtain tr where r: "nv_pair toy_crypto (traced ?E) \<lparr>certPem = ''MY'', keyPem = ''MK''\<rparr> ''1234'' 7 ((), [])
      = Some ((AlreadyInProgress, []), ((), tr))"
    by (rule traced_run [OF n])
  from r pairing_failure_cancels [OF r] show ?thesis by auto
qed

end
