(* ===== verification/IdentityStore.thy ===== *)
theory IdentityStore
  imports Json Http FileSystem
begin

text \<open>
  The client's identity and its registry of paired hosts on disk (\<^verbatim>\<open>src/src/net/identity.cpp\<close>,
  \<^verbatim>\<open>src/src/net/identity_store.h\<close>, \<^verbatim>\<open>src/src/net/identity_store.cpp\<close>).  The key material OpenSSL
  generates is an argument: the PEM texts, or a failure.  The registry refines a map from addresses
  to hosts; the contract its clients rely on is the locale \<open>host_registry\<close>.
\<close>

unbundle bit_operations_syntax

section \<open>Generating an identity\<close>

definition generate_identity :: "client_identity option \<Rightarrow> client_identity option" where
  "generate_identity made =
     (case made of
        None \<Rightarrow> None
      | Some i \<Rightarrow> if keyPem i \<noteq> [] \<and> certPem i \<noteq> [] then Some i else None)"

definition uid_shifts :: "nat list" where
  "uid_shifts = [60, 56, 52, 48, 44, 40, 36, 32, 28, 24, 20, 16, 12, 8, 4, 0]"

text \<open>\<^verbatim>\<open>generate_unique_id\<close>; the argument is the outcome of \<^verbatim>\<open>RAND_bytes\<close>.\<close>

definition generate_unique_id :: "64 word option \<Rightarrow> string" where
  "generate_unique_id rnd =
     (case rnd of
        None \<Rightarrow> []
      | Some uid \<Rightarrow> map (\<lambda>shift. hex_char (unat (drop_bit shift uid AND 0xF))) uid_shifts)"

section \<open>The store\<close>

definition default_store_dir :: "(string \<Rightarrow> string option) \<Rightarrow> string" where
  "default_store_dir getenv =
     (let getenv_str = (\<lambda>n. case getenv n of Some v \<Rightarrow> v | None \<Rightarrow> []);
          xdg = getenv_str ''XDG_DATA_HOME'';
          home = getenv_str ''HOME''
      in if xdg \<noteq> [] then path_join xdg ''arcade-stream-engine''
         else if home \<noteq> []
         then path_join (path_join (path_join home ''.local'') ''share'') ''arcade-stream-engine''
         else path_join ''.'' ''arcade-stream-engine'')"

definition kCertFile :: string where "kCertFile = ''client.crt''"
definition kKeyFile :: string where "kKeyFile = ''client.key''"
definition kUniqueIdFile :: string where "kUniqueIdFile = ''uniqueid''"
definition kHostsFile :: string where "kHostsFile = ''hosts.json''"

definition persisted :: "string \<Rightarrow> fsys \<Rightarrow> (client_identity \<times> string) option" where
  "persisted dir fs =
     (case (read_file fs (path_join dir kCertFile), read_file fs (path_join dir kKeyFile),
            read_file fs (path_join dir kUniqueIdFile)) of
        (Some cert, Some key, Some uid) \<Rightarrow>
          if cert \<noteq> [] \<and> key \<noteq> [] \<and> uid \<noteq> [] then Some (\<lparr>certPem = cert, keyPem = key\<rparr>, uid) else None
      | _ \<Rightarrow> None)"

text \<open>\<^verbatim>\<open>IdentityStore::load_or_create_identity\<close>, with what OpenSSL generates if asked.\<close>

definition load_or_create_identity ::
  "string \<Rightarrow> client_identity option \<Rightarrow> 64 word option \<Rightarrow> fsys \<Rightarrow> fsys \<times> (client_identity \<times> string) option" where
  "load_or_create_identity dir made rnd fs =
     (case persisted dir fs of
        Some r \<Rightarrow> (fs, Some r)
      | None \<Rightarrow>
          (case generate_identity made of
             None \<Rightarrow> (fs, None)
           | Some fresh \<Rightarrow>
               let uid = generate_unique_id rnd
               in if uid = [] then (fs, None)
                  else (case write_file (path_join dir kCertFile) (certPem fresh) fs of
                          (fs1, False) \<Rightarrow> (fs1, None)
                        | (fs1, True) \<Rightarrow>
                            (case write_file (path_join dir kKeyFile) (keyPem fresh) fs1 of
                               (fs2, False) \<Rightarrow> (fs2, None)
                             | (fs2, True) \<Rightarrow>
                                 (case write_file (path_join dir kUniqueIdFile) uid fs2 of
                                    (fs3, False) \<Rightarrow> (fs3, None)
                                  | (fs3, True) \<Rightarrow> (fs3, Some (fresh, uid)))))))"

section \<open>Paired hosts\<close>

record paired_host =
  address :: string
  host_name :: string
  serverCertPem :: string

definition host_of_json :: "jvalue \<Rightarrow> paired_host" where
  "host_of_json v =
     \<lparr>address = get_str ''address'' [] v, host_name = get_str ''name'' [] v,
      serverCertPem = get_str ''serverCert'' [] v\<rparr>"

definition read_hosts :: "string \<Rightarrow> fsys \<Rightarrow> paired_host list" where
  "read_hosts path fs =
     (case read_file fs path of
        None \<Rightarrow> []
      | Some text \<Rightarrow>
          (case parse text of
             Some (JArr vs) \<Rightarrow>
               filter (\<lambda>h. address h \<noteq> []) (map host_of_json (filter is_object vs))
           | _ \<Rightarrow> []))"

definition host_json :: "paired_host \<Rightarrow> jvalue" where
  "host_json h =
     obj [(''address'', JStr (address h)), (''name'', JStr (host_name h)), (''serverCert'', JStr (serverCertPem h))]"

definition write_hosts :: "string \<Rightarrow> paired_host list \<Rightarrow> fsys \<Rightarrow> fsys \<times> bool" where
  "write_hosts path hosts fs = write_file path (dump (JArr (map host_json hosts))) fs"

text \<open>The loop of \<^verbatim>\<open>upsert_host\<close>: replace the first record of the address, or append.\<close>

fun replace_host :: "paired_host \<Rightarrow> paired_host list \<Rightarrow> paired_host list" where
  "replace_host host [] = [host]"
| "replace_host host (h # hs) = (if address h = address host then host # hs else h # replace_host host hs)"

definition upsert_host :: "string \<Rightarrow> paired_host \<Rightarrow> fsys \<Rightarrow> fsys \<times> bool" where
  "upsert_host dir host fs =
     (if address host = [] then (fs, False)
      else
        let path = path_join dir kHostsFile
        in write_hosts path (replace_host host (read_hosts path fs)) fs)"

definition list_hosts :: "string \<Rightarrow> fsys \<Rightarrow> paired_host list" where
  "list_hosts dir fs = read_hosts (path_join dir kHostsFile) fs"

definition find_host :: "string \<Rightarrow> string \<Rightarrow> fsys \<Rightarrow> paired_host option" where
  "find_host dir addr fs = List.find (\<lambda>h. address h = addr) (read_hosts (path_join dir kHostsFile) fs)"

definition remove_host :: "string \<Rightarrow> string \<Rightarrow> fsys \<Rightarrow> fsys \<times> bool" where
  "remove_host dir addr fs =
     (let path = path_join dir kHostsFile;
          hosts = read_hosts path fs;
          left = filter (\<lambda>h. address h \<noteq> addr) hosts
      in if length left = length hosts then (fs, False) else write_hosts path left fs)"

section \<open>The unique id\<close>

lemma length_unique_id: "generate_unique_id (Some uid) \<noteq> []" "length (generate_unique_id (Some uid)) = 16"
  by (simp_all add: generate_unique_id_def uid_shifts_def)

text \<open>The id is the number's sixteen hexadecimal digits, so that different numbers have different ids.\<close>

lemma nibble_less: "unat (w AND 0xF :: 64 word) < 16"
proof -
  have "w AND 0xF = take_bit 4 w" by (simp add: take_bit_eq_mask mask_numeral)
  then show ?thesis by (simp only: unsigned_take_bit_eq) (simp add: take_bit_eq_mod)
qed

lemma unique_id_inject:
  assumes "generate_unique_id (Some u) = generate_unique_id (Some v)"
  shows "u = v"
proof (rule bit_word_eqI)
  fix i assume "i < LENGTH(64)"
  then have i: "i < 64" by simp
  have eq: "drop_bit s u AND 0xF = drop_bit s v AND 0xF" if "s \<in> set uid_shifts" for s
  proof -
    have "hex_char (unat (drop_bit s u AND 0xF)) = hex_char (unat (drop_bit s v AND 0xF))"
      using assms that by (auto simp: generate_unique_id_def)
    then have "Some (unat (drop_bit s u AND 0xF)) = Some (unat (drop_bit s v AND 0xF))"
      using hex_digit_hex_char [OF nibble_less] by metis
    then show ?thesis by (simp only: option.inject word_unat_eq_iff)
  qed
  have "i div 4 * 4 \<in> set uid_shifts"
  proof -
    have "i div 4 < 16" using i by simp
    then have "i div 4 \<in> set [0..<16]" by simp
    then show ?thesis by (simp add: upt_rec uid_shifts_def) auto
  qed
  from eq [OF this] have "bit (drop_bit (i div 4 * 4) u AND 0xF) (i mod 4) = bit (drop_bit (i div 4 * 4) v AND 0xF) (i mod 4)"
    by simp
  moreover have "bit (0xF :: 64 word) (i mod 4)"
  proof -
    have "bit (mask 4 :: 64 word) (i mod 4)" by (simp add: bit_mask_iff)
    then show ?thesis by (simp add: mask_numeral)
  qed
  ultimately show "bit u i = bit v i" by (simp add: bit_and_iff bit_drop_bit_eq)
qed

section \<open>A stable identity\<close>

lemma identity_files_distinct:
  "path_join d kCertFile \<noteq> path_join d kKeyFile" "path_join d kCertFile \<noteq> path_join d kUniqueIdFile"
  "path_join d kKeyFile \<noteq> path_join d kUniqueIdFile"
  "path_join d kCertFile \<noteq> tmp_of (path_join d kKeyFile)" "path_join d kCertFile \<noteq> tmp_of (path_join d kUniqueIdFile)"
  "path_join d kKeyFile \<noteq> tmp_of (path_join d kUniqueIdFile)"
  by (simp_all add: tmp_path_join kCertFile_def kKeyFile_def kUniqueIdFile_def)

lemma hosts_file_distinct:
  assumes "n \<in> {kCertFile, kKeyFile, kUniqueIdFile}"
  shows "path_join d n \<noteq> path_join d kHostsFile" "path_join d n \<noteq> tmp_of (path_join d kHostsFile)"
  using assms by (auto simp: tmp_path_join kCertFile_def kKeyFile_def kUniqueIdFile_def kHostsFile_def)

lemma created_persists:
  assumes "load_or_create_identity d made rnd fs = (fs', Some r)" "prompt_errors fs"
  shows "persisted d fs' = Some r"
proof (cases "persisted d fs")
  case None
  obtain fresh where fresh: "generate_identity made = Some fresh"
    using assms(1) None by (auto simp: load_or_create_identity_def split: option.splits)
  let ?uid = "generate_unique_id rnd"
  have uid: "?uid \<noteq> []" using assms(1) None fresh by (auto simp: load_or_create_identity_def Let_def)
  obtain fs1 fs2 where w: "write_file (path_join d kCertFile) (certPem fresh) fs = (fs1, True)"
      "write_file (path_join d kKeyFile) (keyPem fresh) fs1 = (fs2, True)"
      "write_file (path_join d kUniqueIdFile) ?uid fs2 = (fs', True)" and r: "r = (fresh, ?uid)"
    using assms(1) None fresh uid
    by (auto simp: load_or_create_identity_def Let_def split: prod.splits bool.splits)
  have prompt: "prompt_errors fs1" "prompt_errors fs2"
    using assms(2) write_file_prompt [OF w(1)] write_file_prompt [OF w(2)] by simp_all
  have "files fs' (path_join d kCertFile) = Some (certPem fresh)"
    using write_file_True [OF w(1) assms(2)] write_file_other [OF w(2)] write_file_other [OF w(3)] identity_files_distinct [of d] by simp
  moreover have "files fs' (path_join d kKeyFile) = Some (keyPem fresh)"
    using write_file_True [OF w(2) prompt(1)] write_file_other [OF w(3)] identity_files_distinct [of d] by simp
  moreover have "files fs' (path_join d kUniqueIdFile) = Some ?uid"
    using write_file_True [OF w(3) prompt(2)] by simp
  moreover have "keyPem fresh \<noteq> []" "certPem fresh \<noteq> []"
    using fresh by (auto simp: generate_identity_def split: option.splits if_splits)
  ultimately show ?thesis using r uid by (simp add: persisted_def read_file_def)
qed (use assms(1) in \<open>simp add: load_or_create_identity_def\<close>)

lemma persisted_cong:
  assumes "\<And>n. n \<in> {kCertFile, kKeyFile, kUniqueIdFile} \<Longrightarrow> files fs' (path_join d n) = files fs (path_join d n)"
  shows "persisted d fs' = persisted d fs"
  using assms by (simp add: persisted_def read_file_def)

lemma write_hosts_keeps_identity:
  assumes "write_hosts (path_join d kHostsFile) hs fs = (fs', ok)"
  shows "persisted d fs' = persisted d fs"
proof (rule persisted_cong)
  fix n assume "n \<in> {kCertFile, kKeyFile, kUniqueIdFile}"
  from write_file_other [OF assms [unfolded write_hosts_def] hosts_file_distinct [OF this]]
  show "files fs' (path_join d n) = files fs (path_join d n)" .
qed

section \<open>The registry\<close>

text \<open>The contract: lookups after updates, and the records kept distinct and named.\<close>

locale host_registry =
  fixes upsert :: "paired_host \<Rightarrow> 'fs \<Rightarrow> 'fs \<times> bool"
    and remove :: "string \<Rightarrow> 'fs \<Rightarrow> 'fs \<times> bool"
    and lookup :: "string \<Rightarrow> 'fs \<Rightarrow> paired_host option"
    and hosts :: "'fs \<Rightarrow> paired_host list"
    and reliable :: "'fs \<Rightarrow> bool"
  assumes reliable_upsert: "upsert h fs = (fs', ok) \<Longrightarrow> reliable fs \<Longrightarrow> reliable fs'"
    and reliable_remove: "remove a fs = (fs', ok) \<Longrightarrow> reliable fs \<Longrightarrow> reliable fs'"
    and lookup_upsert: "upsert h fs = (fs', True) \<Longrightarrow> reliable fs \<Longrightarrow>
            lookup a fs' = (if a = address h then Some h else lookup a fs)"
    and lookup_remove: "remove b fs = (fs', True) \<Longrightarrow> reliable fs \<Longrightarrow> lookup a fs' = (if a = b then None else lookup a fs)"
    and lookup_hosts: "lookup a fs = Some h \<Longrightarrow> h \<in> set (hosts fs) \<and> address h = a \<and> a \<noteq> []"
    and distinct_upsert: "upsert h fs = (fs', True) \<Longrightarrow> reliable fs \<Longrightarrow> distinct (map address (hosts fs)) \<Longrightarrow>
            distinct (map address (hosts fs'))"
    and distinct_remove: "remove a fs = (fs', True) \<Longrightarrow> reliable fs \<Longrightarrow> distinct (map address (hosts fs)) \<Longrightarrow>
            distinct (map address (hosts fs'))"
begin

text \<open>A pinned certificate stays pinned through any updates of other hosts.\<close>

definition update :: "paired_host + string \<Rightarrow> 'fs \<Rightarrow> 'fs \<times> bool" where
  "update u fs = (case u of Inl h \<Rightarrow> upsert h fs | Inr a \<Rightarrow> remove a fs)"

primrec updates :: "(paired_host + string) list \<Rightarrow> 'fs \<Rightarrow> 'fs \<Rightarrow> bool" where
  "updates [] fs fs' \<longleftrightarrow> fs' = fs"
| "updates (u # us) fs fs' \<longleftrightarrow> (\<exists>fs1. update u fs = (fs1, True) \<and> updates us fs1 fs')"

definition target :: "paired_host + string \<Rightarrow> string" where
  "target u = (case u of Inl h \<Rightarrow> address h | Inr a \<Rightarrow> a)"

lemma reliable_update: "update u fs = (fs', ok) \<Longrightarrow> reliable fs \<Longrightarrow> reliable fs'"
  using reliable_upsert reliable_remove by (cases u) (auto simp: update_def)

lemma lookup_updates:
  "updates us fs fs' \<Longrightarrow> reliable fs \<Longrightarrow> a \<notin> target ` set us \<Longrightarrow> lookup a fs' = lookup a fs"
proof (induction us arbitrary: fs)
  case (Cons u us)
  then obtain fs1 where u: "update u fs = (fs1, True)" "updates us fs1 fs'" by auto
  moreover have "lookup a fs1 = lookup a fs"
    using u(1) Cons.prems(2,3) lookup_upsert lookup_remove
    by (cases u) (auto simp: update_def target_def)
  ultimately show ?case using Cons reliable_update [OF u(1)] by simp
qed simp

lemma distinct_updates:
  "updates us fs fs' \<Longrightarrow> reliable fs \<Longrightarrow> distinct (map address (hosts fs)) \<Longrightarrow> distinct (map address (hosts fs'))"
proof (induction us arbitrary: fs)
  case (Cons u us)
  then obtain fs1 where u: "update u fs = (fs1, True)" "updates us fs1 fs'" by auto
  then have "distinct (map address (hosts fs1))"
    using Cons.prems(2,3) distinct_upsert distinct_remove by (cases u) (auto simp: update_def)
  with u Cons.IH Cons.prems(2) reliable_update [OF u(1)] show ?case by blast
qed simp

end

lemma host_of_json_host_json [simp]: "host_of_json (host_json h) = h"
  by (simp add: host_of_json_def host_json_def)

lemma read_hosts_written:
  assumes "write_hosts path hs fs = (fs', True)" "prompt_errors fs"
  shows "read_hosts path fs' = filter (\<lambda>h. address h \<noteq> []) hs"
proof -
  have "wf_json (JArr (map host_json hs))" by (auto simp: host_json_def)
  then have "parse (dump (JArr (map host_json hs))) = Some (JArr (map host_json hs))" by (rule parse_dump)
  moreover have "filter is_object (map host_json hs) = map host_json hs"
    by (rule filter_True) (auto simp: host_json_def)
  moreover have "map host_of_json (map host_json hs) = hs" by (simp add: comp_def)
  ultimately show ?thesis
    using write_file_True [OF assms(1) [unfolded write_hosts_def] assms(2)] by (simp add: read_hosts_def read_file_def)
qed

lemma read_hosts_named: "h \<in> set (read_hosts path fs) \<Longrightarrow> address h \<noteq> []"
  by (auto simp: read_hosts_def split: option.splits jvalue.splits)

lemma find_replace_host:
  "List.find (\<lambda>h. address h = a) (replace_host host hs)
     = (if a = address host then Some host else List.find (\<lambda>h. address h = a) hs)"
  by (induction hs) auto

lemma set_replace_host: "set (replace_host host hs) \<subseteq> insert host (set hs)"
  by (induction hs) auto

lemma distinct_replace_host:
  "distinct (map address hs) \<Longrightarrow> distinct (map address (replace_host host hs))"
proof (induction hs)
  case (Cons h hs)
  then show ?case using set_replace_host [of host hs] by fastforce
qed simp

lemma find_filter_other:
  "List.find (\<lambda>h. address h = a) (filter (\<lambda>h. address h \<noteq> b) hs)
     = (if a = b then None else List.find (\<lambda>h. address h = a) hs)"
  by (induction hs) auto

lemma upsert_host_hosts:
  assumes "upsert_host d h fs = (fs', True)" "prompt_errors fs"
  shows "list_hosts d fs' = replace_host h (list_hosts d fs)"
proof -
  have h: "address h \<noteq> []"
    and w: "write_hosts (path_join d kHostsFile) (replace_host h (list_hosts d fs)) fs = (fs', True)"
    using assms(1) by (auto simp: upsert_host_def list_hosts_def Let_def split: if_splits)
  have "\<forall>x\<in>set (replace_host h (list_hosts d fs)). address x \<noteq> []"
    using h set_replace_host [of h "list_hosts d fs"] read_hosts_named by (fastforce simp: list_hosts_def)
  then have "filter (\<lambda>h. address h \<noteq> []) (replace_host h (list_hosts d fs)) = replace_host h (list_hosts d fs)"
    by (rule filter_True)
  then show ?thesis using read_hosts_written [OF w assms(2)] by (simp add: list_hosts_def)
qed

lemma remove_host_hosts:
  assumes "remove_host d a fs = (fs', True)" "prompt_errors fs"
  shows "list_hosts d fs' = filter (\<lambda>h. address h \<noteq> a) (list_hosts d fs)"
proof -
  have w: "write_hosts (path_join d kHostsFile) (filter (\<lambda>h. address h \<noteq> a) (list_hosts d fs)) fs = (fs', True)"
    using assms(1) by (auto simp: remove_host_def list_hosts_def Let_def split: if_splits)
  have "\<forall>x\<in>set (filter (\<lambda>h. address h \<noteq> a) (list_hosts d fs)). address x \<noteq> []"
    using read_hosts_named by (auto simp: list_hosts_def)
  then have "filter (\<lambda>h. address h \<noteq> []) (filter (\<lambda>h. address h \<noteq> a) (list_hosts d fs))
      = filter (\<lambda>h. address h \<noteq> a) (list_hosts d fs)"
    by (rule filter_True)
  then show ?thesis using read_hosts_written [OF w assms(2)] by (simp add: list_hosts_def)
qed

lemma find_host_list: "find_host d a fs = List.find (\<lambda>h. address h = a) (list_hosts d fs)"
  by (simp add: find_host_def list_hosts_def)

lemma upsert_prompt: "upsert_host d h fs = (fs', ok) \<Longrightarrow> prompt_errors fs' = prompt_errors fs"
  by (auto simp: upsert_host_def write_hosts_def Let_def split: if_splits dest: write_file_prompt)

lemma remove_prompt: "remove_host d a fs = (fs', ok) \<Longrightarrow> prompt_errors fs' = prompt_errors fs"
  by (auto simp: remove_host_def write_hosts_def Let_def split: if_splits dest: write_file_prompt)

interpretation store: host_registry "upsert_host d" "remove_host d" "find_host d" "list_hosts d" prompt_errors for d
proof
  fix h fs fs' a b ok
  show "upsert_host d h fs = (fs', ok) \<Longrightarrow> prompt_errors fs \<Longrightarrow> prompt_errors fs'" by (simp add: upsert_prompt)
  show "remove_host d a fs = (fs', ok) \<Longrightarrow> prompt_errors fs \<Longrightarrow> prompt_errors fs'" by (simp add: remove_prompt)
  show "upsert_host d h fs = (fs', True) \<Longrightarrow> prompt_errors fs \<Longrightarrow> find_host d a fs' = (if a = address h then Some h else find_host d a fs)"
    by (simp add: find_host_list upsert_host_hosts find_replace_host)
  show "remove_host d b fs = (fs', True) \<Longrightarrow> prompt_errors fs \<Longrightarrow> find_host d a fs' = (if a = b then None else find_host d a fs)"
    by (simp add: find_host_list remove_host_hosts find_filter_other)
  show "find_host d a fs = Some h \<Longrightarrow> h \<in> set (list_hosts d fs) \<and> address h = a \<and> a \<noteq> []"
    using read_hosts_named [of h] by (auto simp: find_host_list list_hosts_def find_Some_iff dest: nth_mem)
  show "upsert_host d h fs = (fs', True) \<Longrightarrow> prompt_errors fs \<Longrightarrow> distinct (map address (list_hosts d fs)) \<Longrightarrow>
      distinct (map address (list_hosts d fs'))"
    by (simp add: upsert_host_hosts distinct_replace_host)
  show "remove_host d a fs = (fs', True) \<Longrightarrow> prompt_errors fs \<Longrightarrow> distinct (map address (list_hosts d fs)) \<Longrightarrow>
      distinct (map address (list_hosts d fs'))"
    by (simp add: remove_host_hosts distinct_map_filter)
qed

section \<open>Properties\<close>

lemma upsert_keeps_identity: "upsert_host d h fs = (fs', ok) \<Longrightarrow> persisted d fs' = persisted d fs"
  by (auto simp: upsert_host_def Let_def split: if_splits dest: write_hosts_keeps_identity)

lemma remove_keeps_identity: "remove_host d a fs = (fs', ok) \<Longrightarrow> persisted d fs' = persisted d fs"
  by (auto simp: remove_host_def Let_def split: if_splits dest: write_hosts_keeps_identity)

lemma load_persisted: "persisted d fs = Some r \<Longrightarrow> load_or_create_identity d made rnd fs = (fs, Some r)"
  by (simp add: load_or_create_identity_def)

text \<open>
  C19. The identity is created once: after any successful call, every later call returns the same
  certificate, key and id without generating or writing anything, also after hosts have been
  added or removed, successfully or not.  Write errors are assumed to show before the close.
\<close>

theorem identity_stable:
  assumes "load_or_create_identity d made rnd fs = (fs1, Some r)" "prompt_errors fs"
  shows "load_or_create_identity d made' rnd' fs1 = (fs1, Some r)
         \<and> (\<forall>h fs2 ok. upsert_host d h fs1 = (fs2, ok) \<longrightarrow> load_or_create_identity d made' rnd' fs2 = (fs2, Some r))
         \<and> (\<forall>a fs2 ok. remove_host d a fs1 = (fs2, ok) \<longrightarrow> load_or_create_identity d made' rnd' fs2 = (fs2, Some r))"
  using created_persists [OF assms] upsert_keeps_identity [of d _ fs1] remove_keeps_identity [of d _ fs1]
  by (auto intro!: load_persisted)

definition blank_fs :: fsys where
  "blank_fs = \<lparr>files = Map.empty, can_open = (\<lambda>_. True), disk_room = (\<lambda>_. None), late_error = (\<lambda>_. False), can_replace = (\<lambda>_. True),
     can_create = (\<lambda>_. True), can_remove = (\<lambda>_. True)\<rparr>"

lemma blank_fs_healthy: "healthy_fs blank_fs" "prompt_errors blank_fs"
  by (simp_all add: healthy_fs_def prompt_errors_def blank_fs_def)

lemma load_or_create_healthy:
  assumes "healthy_fs fs" "generate_identity made \<noteq> None" "rnd \<noteq> None"
  shows "\<exists>fs' r. load_or_create_identity d made rnd fs = (fs', Some r) \<and> healthy_fs fs'"
proof (cases "persisted d fs")
  case None
  obtain fresh uid where g: "generate_identity made = Some fresh" "rnd = Some uid" using assms by auto
  obtain fs1 where w1: "write_file (path_join d kCertFile) (certPem fresh) fs = (fs1, True)" "healthy_fs fs1"
    using write_file_healthy [OF assms(1)] by blast
  obtain fs2 where w2: "write_file (path_join d kKeyFile) (keyPem fresh) fs1 = (fs2, True)" "healthy_fs fs2"
    using write_file_healthy [OF w1(2)] by blast
  obtain fs3 where w3: "write_file (path_join d kUniqueIdFile) (generate_unique_id rnd) fs2 = (fs3, True)" "healthy_fs fs3"
    using write_file_healthy [OF w2(2)] by blast
  from w1 w2 w3 g None length_unique_id [of uid] show ?thesis
    by (simp add: load_or_create_identity_def)
qed (use assms in \<open>simp add: load_or_create_identity_def\<close>)

theorem identity_stable_witness:
  "\<exists>fs1 r. load_or_create_identity ''/s'' (Some \<lparr>certPem = ''C'', keyPem = ''K''\<rparr>) (Some 5) blank_fs = (fs1, Some r)
     \<and> load_or_create_identity ''/s'' None None fs1 = (fs1, Some r)"
proof -
  obtain fs1 r where l: "load_or_create_identity ''/s'' (Some \<lparr>certPem = ''C'', keyPem = ''K''\<rparr>) (Some 5) blank_fs = (fs1, Some r)"
    using load_or_create_healthy [OF blank_fs_healthy(1), of "Some \<lparr>certPem = ''C'', keyPem = ''K''\<rparr>" "Some 5" "''/s''"]
    by (auto simp: generate_identity_def)
  from l identity_stable [OF l blank_fs_healthy(2), of None None] show ?thesis by blast
qed

text \<open>The records of a list with distinct addresses are the range of its lookup.\<close>

lemma find_range:
  assumes "distinct (map address hs)" shows "set hs = ran (\<lambda>a. List.find (\<lambda>h. address h = a) hs)"
proof -
  have "List.find (\<lambda>h. address h = a) hs = Some x \<longleftrightarrow> x \<in> set hs \<and> address x = a" for a x
    using assms by (induction hs) (auto simp: image_iff)
  then show ?thesis by (simp add: ran_def)
qed

lemma list_hosts_range: "distinct (map address (list_hosts d fs)) \<Longrightarrow> set (list_hosts d fs) = ran (\<lambda>a. find_host d a fs)"
  by (simp add: find_host_list find_range)

lemma replace_host_addresses:
  "map address (replace_host h hs) = map address hs @ (if address h \<in> set (map address hs) then [] else [address h])"
  by (induction hs) auto

text \<open>
  C18. The registry refines a finite map from addresses to hosts, through the JSON file: a successful
  \<open>upsert_host\<close> is the map update at its address, a successful \<open>remove_host\<close> deletes the address, and after each
  \<open>list_hosts\<close> is exactly the range of the map, each host once and every address nonempty.  The list keeps its order: an update in place, a new
  address at the end, a removal without moving the others.  Write errors are assumed to show before the
  close (\<open>prompt_errors\<close>), since a late one leaves a shortened file behind a reported success.
\<close>

theorem registry_refines_map:
  assumes "upsert_host d h fs = (fs1, True)" "remove_host d b fs1 = (fs2, True)"
    "distinct (map address (list_hosts d fs))" "prompt_errors fs"
  shows "(\<lambda>a. find_host d a fs1) = (\<lambda>a. find_host d a fs)(address h \<mapsto> h)
         \<and> (\<lambda>a. find_host d a fs2) = (\<lambda>a. find_host d a fs1)(b := None)
         \<and> set (list_hosts d fs1) = ran ((\<lambda>a. find_host d a fs)(address h \<mapsto> h))
         \<and> set (list_hosts d fs2) = ran ((\<lambda>a. find_host d a fs1)(b := None))
         \<and> map address (list_hosts d fs1) = map address (list_hosts d fs)
              @ (if address h \<in> set (map address (list_hosts d fs)) then [] else [address h])
         \<and> list_hosts d fs2 = filter (\<lambda>x. address x \<noteq> b) (list_hosts d fs1)
         \<and> distinct (map address (list_hosts d fs1)) \<and> distinct (map address (list_hosts d fs2))
         \<and> (\<forall>x\<in>set (list_hosts d fs1). address x \<noteq> [])"
proof -
  note p1 = store.reliable_upsert [OF assms(1,4)]
  note d1 = store.distinct_upsert [OF assms(1,4,3)]
  note d2 = store.distinct_remove [OF assms(2) p1 d1]
  have f1: "(\<lambda>a. find_host d a fs1) = (\<lambda>a. find_host d a fs)(address h \<mapsto> h)"
    using store.lookup_upsert [OF assms(1,4)] by (simp add: fun_eq_iff)
  have f2: "(\<lambda>a. find_host d a fs2) = (\<lambda>a. find_host d a fs1)(b := None)"
    using store.lookup_remove [OF assms(2) p1] by (simp add: fun_eq_iff)
  have named: "\<forall>x\<in>set (list_hosts d fs1). address x \<noteq> []" using read_hosts_named by (auto simp: list_hosts_def)
  have addresses: "map address (list_hosts d fs1) = map address (list_hosts d fs)
      @ (if address h \<in> set (map address (list_hosts d fs)) then [] else [address h])"
    unfolding upsert_host_hosts [OF assms(1,4)] by (rule replace_host_addresses)
  show ?thesis
    by (intro conjI f1 f2 d1 d2 named addresses list_hosts_range [OF d1, unfolded f1] list_hosts_range [OF d2, unfolded f2]
        remove_host_hosts [OF assms(2) p1])
qed

theorem registry_refines_map_witness:
  "\<exists>fs1 fs2. upsert_host ''/s'' \<lparr>address = ''h'', host_name = ''n'', serverCertPem = ''c''\<rparr> blank_fs = (fs1, True)
     \<and> find_host ''/s'' ''h'' fs1 = Some \<lparr>address = ''h'', host_name = ''n'', serverCertPem = ''c''\<rparr>
     \<and> remove_host ''/s'' ''h'' fs1 = (fs2, True) \<and> find_host ''/s'' ''h'' fs2 = None"
proof -
  let ?h = "\<lparr>address = ''h'', host_name = ''n'', serverCertPem = ''c''\<rparr>"
  have "list_hosts ''/s'' blank_fs = []" by (simp add: list_hosts_def read_hosts_def read_file_def blank_fs_def)
  note e = this
  obtain fs1 where u: "upsert_host ''/s'' ?h blank_fs = (fs1, True)" "healthy_fs fs1"
    using write_file_healthy [OF blank_fs_healthy(1)] by (simp add: upsert_host_def write_hosts_def Let_def) blast
  have "list_hosts ''/s'' fs1 = [?h]" using upsert_host_hosts [OF u(1) blank_fs_healthy(2)] e by simp
  then obtain fs2 where r: "remove_host ''/s'' ''h'' fs1 = (fs2, True)"
    using write_file_healthy [OF u(2)] by (simp add: remove_host_def write_hosts_def list_hosts_def Let_def) blast
  have "distinct (map address (list_hosts ''/s'' blank_fs))" by (simp add: e)
  note m = registry_refines_map [OF u(1) r this blank_fs_healthy(2)]
  have "find_host ''/s'' ''h'' fs1 = Some ?h" "find_host ''/s'' ''h'' fs2 = None"
    using fun_cong [OF conjunct1 [OF m], of "''h''"] fun_cong [OF conjunct1 [OF conjunct2 [OF m]], of "''h''"] by simp_all
  with u r show ?thesis by auto
qed

text \<open>
  The unique id is a faithful name: it always has sixteen characters, and two different random
  numbers never give the same id.
\<close>

theorem unique_id_faithful:
  "length (generate_unique_id (Some u)) = 16 \<and> (generate_unique_id (Some u) = generate_unique_id (Some v) \<longleftrightarrow> u = v)"
  using length_unique_id(2) [of u] unique_id_inject by auto

end
