(* ===== verification/AppList.thy ===== *)
theory AppList
  imports Http
begin

text \<open>
  The host's list of apps (\<^verbatim>\<open>src/src/net/nv_applist.h\<close>, \<^verbatim>\<open>src/src/net/nv_applist.cpp\<close>): scanning the
  answer for \<^verbatim>\<open><App>\<close> elements, and resolving what the user asked for to an app id.
\<close>

section \<open>Scanning\<close>

function app_body_from :: "string \<Rightarrow> nat \<Rightarrow> (nat \<times> nat) option" where
  "app_body_from xml pos =
     (case str_find xml ''<App'' pos of
        None \<Rightarrow> None
      | Some i \<Rightarrow>
          let after = i + 4
          in if length xml \<le> after then None
             else if ends_name (xml ! after) then
               (case str_find xml ''>'' i of None \<Rightarrow> None | Some gt \<Rightarrow> Some (i, gt + 1))
             else app_body_from xml (i + 1))"
  by pat_completeness auto
termination
  by (relation "measure (\<lambda>(xml, pos). Suc (length xml) - pos)") (auto dest!: str_find_ge)

declare app_body_from.simps [simp del]

text \<open>\<^verbatim>\<open>find_app_body\<close>: the index of the start tag and of the element's body.\<close>

definition find_app_body :: "string \<Rightarrow> nat \<Rightarrow> (nat \<times> nat) option" where
  "find_app_body xml pos = app_body_from xml pos"

definition all_digits :: "string \<Rightarrow> bool" where
  "all_digits s \<longleftrightarrow> s \<noteq> [] \<and> list_all is_digit s"

definition iequals :: "string \<Rightarrow> string \<Rightarrow> bool" where
  "iequals a b \<longleftrightarrow> length a = length b \<and> list_all2 (\<lambda>x y. to_lower x = to_lower y) a b"

record app_info =
  app_id :: int
  app_title :: string
  hdrSupported :: bool

lemma app_body_from_ge: "app_body_from xml pos = Some (i, b) \<Longrightarrow> pos \<le> i \<and> i < b \<and> b \<le> length xml"
proof (induction xml pos rule: app_body_from.induct)
  case (1 xml pos)
  obtain k where k: "str_find xml ''<App'' pos = Some k"
    using 1(2) by (cases "str_find xml ''<App'' pos") (auto simp: app_body_from.simps [of xml pos])
  have ge: "pos \<le> k" "k + 4 \<le> length xml" using str_find_ge [OF k] by auto
  show ?case
  proof (cases "k + 4 < length xml \<and> ends_name (xml ! (k + 4))")
    case True
    then obtain gt where "str_find xml ''>'' k = Some gt" "i = k" "b = gt + 1"
      using 1(2) k by (auto simp: app_body_from.simps [of xml pos] Let_def split: option.splits)
    then show ?thesis using str_find_ge [of xml "''>''" k gt] ge by auto
  next
    case False
    then have "app_body_from xml (k + 1) = Some (i, b)" "\<not> length xml \<le> k + 4" "\<not> ends_name (xml ! (k + 4))"
      using 1(2) k by (auto simp: app_body_from.simps [of xml pos] Let_def split: if_splits)
    then show ?thesis using 1(1) [OF k refl] ge by auto
  qed
qed

definition app_of_block :: "string \<Rightarrow> app_info" where
  "app_of_block block =
     \<lparr>app_id = atoi (xml_text block ''ID''), app_title = xml_text block ''AppTitle'',
      hdrSupported = (xml_text block ''IsHdrSupported'' = ''1'')\<rparr>"

text \<open>The loop of \<^verbatim>\<open>parse_app_list\<close>.\<close>

function app_list_from :: "string \<Rightarrow> nat \<Rightarrow> app_info list" where
  "app_list_from xml pos =
     (case find_app_body xml pos of
        None \<Rightarrow> []
      | Some (i, body) \<Rightarrow>
          let close = str_find xml ''</App>'' body;
              stop = (case close of None \<Rightarrow> length xml | Some k \<Rightarrow> k);
              a = app_of_block (substr xml body (stop - body));
              rest = app_list_from xml (case close of None \<Rightarrow> length xml | Some k \<Rightarrow> k + 6)
          in if 0 < app_id a \<and> app_title a \<noteq> [] then a # rest else rest)"
  by pat_completeness auto
termination
proof (relation "measure (\<lambda>(xml, pos). length xml - pos)", goal_cases)
  case (2 xml pos x i body close)
  then have "pos \<le> i" "i < body" "body \<le> length xml"
    using app_body_from_ge [of xml pos i body] by (auto simp: find_app_body_def)
  then show ?case
    using 2 str_find_ge [of xml "''</App>''" body] by (auto split: option.splits)
qed simp

declare app_list_from.simps [simp del]

definition parse_app_list :: "string \<Rightarrow> app_info list" where
  "parse_app_list xml = app_list_from xml 0"

section \<open>Resolving and fetching\<close>

definition resolve_app_id :: "app_info list \<Rightarrow> string \<Rightarrow> int" where
  "resolve_app_id apps ref =
     (if all_digits ref \<and> 0 < atoi ref then atoi ref
      else (case List.find (\<lambda>a. iequals (app_title a) ref) apps of Some a \<Rightarrow> app_id a | None \<Rightarrow> 0))"

text \<open>\<^verbatim>\<open>fetch_app_list\<close> on the body the transport returned: the apps and the error text, empty when
  there is none.\<close>

definition fetch_app_list :: "string \<Rightarrow> app_info list \<times> string" where
  "fetch_app_list xml =
     (if xml = [] \<or> xml_attr xml ''root'' ''status_code'' \<noteq> ''200''
      then ([], ''host returned no status-200 applist response'')
      else (parse_app_list xml, []))"

section \<open>Documents without a start tag\<close>

definition no_tag :: "string \<Rightarrow> string \<Rightarrow> bool" where
  "no_tag s tag \<longleftrightarrow> (\<forall>i. \<not> tag_at s tag i)"

lemma no_tag_find: "no_tag s tag \<Longrightarrow> find_start_tag s tag = None"
  using start_tag_from_spec [of 0 s tag] by (auto simp: no_tag_def find_start_tag_def split: option.splits)

lemma tag_at_Cons: "tag_at (c # s) tag (Suc i) = tag_at s tag i"
  "tag_at (c # s) tag 0 \<longleftrightarrow> c = CHR ''<'' \<and> (\<exists>d r. s = tag @ d # r \<and> ends_name d)"
  by (auto simp: tag_at_def)

lemma no_tag_Nil: "no_tag [] tag"
  by (simp add: no_tag_def tag_at_def)

lemma no_tag_Cons:
  "no_tag (c # s) tag \<longleftrightarrow> \<not> (c = CHR ''<'' \<and> (\<exists>d r. s = tag @ d # r \<and> ends_name d)) \<and> no_tag s tag"
proof -
  have "no_tag (c # s) tag \<longleftrightarrow> \<not> tag_at (c # s) tag 0 \<and> (\<forall>i. \<not> tag_at (c # s) tag (Suc i))"
    unfolding no_tag_def by (metis not0_implies_Suc)
  then show ?thesis by (simp only: tag_at_Cons no_tag_def [of s, symmetric])
qed

lemma no_tag_skip: "CHR ''<'' \<notin> set pre \<Longrightarrow> no_tag (pre @ s) tag = no_tag s tag"
  by (induction pre) (auto simp: no_tag_Cons)

lemmas no_tag_simps = no_tag_Nil no_tag_Cons no_tag_skip encode_entities_special

section \<open>What a host writes\<close>

definition app_fields :: "app_info \<Rightarrow> string" where
  "app_fields a =
     ''<IsHdrSupported>'' @ (if hdrSupported a then ''1'' else ''0'') @ ''</IsHdrSupported>''
       @ ''<AppTitle>'' @ encode_entities (app_title a) @ ''</AppTitle>''
       @ ''<ID>'' @ dec_digits (nat (app_id a)) @ ''</ID>''"

definition app_xml :: "app_info \<Rightarrow> string" where
  "app_xml a = ''<App>'' @ app_fields a @ ''</App>''"

definition usable :: "app_info \<Rightarrow> bool" where
  "usable a \<longleftrightarrow> 0 < app_id a \<and> app_id a < 2 ^ 31 \<and> app_title a \<noteq> []"

lemma dec_digits_plain: "CHR ''<'' \<notin> set (dec_digits n)" "CHR ''&'' \<notin> set (dec_digits n)"
  using dec_digits_digits [of "CHR ''<''" n] dec_digits_digits [of "CHR ''&''" n] by (auto simp: is_digit_def byte_of_def)

lemma encode_digits: "encode_entities (dec_digits n) = dec_digits n"
proof -
  have "entity c = [c]" if "is_digit c" for c
    using that by (auto simp: entity_def is_digit_def byte_of_def)
  then have "\<forall>c\<in>set (dec_digits n). entity c = [c]" using dec_digits_digits by blast
  moreover have "concat (map entity s) = s" if "\<forall>c\<in>set s. entity c = [c]" for s
    using that by (induction s) auto
  ultimately show ?thesis by (simp add: encode_entities_def)
qed

lemma xml_text_field:
  assumes "no_tag pre tag" "CHR ''<'' \<notin> set tag" "CHR ''>'' \<notin> set tag" "last (CHR ''<'' # tag) \<noteq> CHR ''/''"
  shows "xml_text (pre @ ''<'' @ tag @ ''>'' @ encode_entities v @ ''</'' @ tag @ post) tag = v"
  using xml_text_value [of pre tag "[]" v post] assms by (simp add: no_tag_find)

lemma app_of_fields:
  assumes "usable a" shows "app_of_block (app_fields a) = a"
proof -
  let ?hdr = "if hdrSupported a then ''1'' else ''0''"
  let ?p1 = "''<IsHdrSupported>'' @ ?hdr @ ''</IsHdrSupported>''"
  let ?p2 = "?p1 @ ''<AppTitle>'' @ encode_entities (app_title a) @ ''</AppTitle>''"
  have h: "encode_entities ?hdr = ?hdr" by (simp add: encode_entities_def entity_def)
  have "xml_text ([] @ ''<'' @ ''IsHdrSupported'' @ ''>'' @ encode_entities ?hdr @ ''</'' @ ''IsHdrSupported'' @ ''>'' @ drop (length ?p1) (app_fields a))
      ''IsHdrSupported'' = ?hdr"
    by (rule xml_text_field) (simp_all add: no_tag_Nil)
  then have "xml_text (app_fields a) ''IsHdrSupported'' = ?hdr" by (simp add: h app_fields_def)
  moreover have "xml_text (?p1 @ ''<'' @ ''AppTitle'' @ ''>'' @ encode_entities (app_title a) @ ''</'' @ ''AppTitle'' @ ''>''
      @ ''<ID>'' @ dec_digits (nat (app_id a)) @ ''</ID>'') ''AppTitle'' = app_title a"
    by (rule xml_text_field) (auto simp: no_tag_simps)
  then have "xml_text (app_fields a) ''AppTitle'' = app_title a" by (simp add: app_fields_def)
  moreover have "xml_text (?p2 @ ''<'' @ ''ID'' @ ''>'' @ encode_entities (dec_digits (nat (app_id a))) @ ''</'' @ ''ID'' @ ''>'') ''ID''
      = dec_digits (nat (app_id a))"
    by (rule xml_text_field) (auto simp: no_tag_simps)
  then have "xml_text (app_fields a) ''ID'' = dec_digits (nat (app_id a))" by (simp add: app_fields_def encode_digits)
  moreover have "atoi (dec_digits (nat (app_id a))) = app_id a"
    using assms atoi_dec_digits [of "nat (app_id a)"] by (auto simp: usable_def nat_less_iff)
  ultimately show ?thesis by (simp add: app_of_block_def)
qed

lemma find_app_close: "find_sub ''</App>'' (app_fields a @ ''</App>'' @ rest) = Some (length (app_fields a))"
proof -
  have title: "find_sub ''</App>'' (encode_entities (app_title a) @ s) = map_option ((+) (length (encode_entities (app_title a)))) (find_sub ''</App>'' s)" for s
    by (rule find_sub_skip) (simp_all add: encode_entities_special)
  have digits: "find_sub ''</App>'' (dec_digits (nat (app_id a)) @ s) = map_option ((+) (length (dec_digits (nat (app_id a))))) (find_sub ''</App>'' s)" for s
    by (rule find_sub_skip) (simp_all add: dec_digits_plain)
  show ?thesis by (simp add: app_fields_def title digits)
qed

text \<open>An element with any content that is closed where its first end tag stands.\<close>

definition app_block :: "string \<Rightarrow> string" where
  "app_block b = ''<App>'' @ b @ ''</App>''"

definition closed_block :: "string \<Rightarrow> bool" where
  "closed_block b \<longleftrightarrow> find_sub ''</App>'' (b @ ''</App>'') = Some (length b)"

definition listed :: "app_info \<Rightarrow> bool" where
  "listed a \<longleftrightarrow> 0 < app_id a \<and> app_title a \<noteq> []"

lemma find_sub_inside: "find_sub n (b @ n) = Some (length b) \<Longrightarrow> find_sub n (b @ n @ rest) = Some (length b)"
  using find_sub_stays [of n "b @ n" "length b" rest] by simp

lemma app_list_from_block:
  assumes "closed_block b"
  shows "app_list_from (pre @ app_block b @ rest) (length pre)
    = filter listed [app_of_block b] @ app_list_from (pre @ app_block b @ rest) (length (pre @ app_block b))"
proof -
  let ?xml = "pre @ app_block b @ rest"
  let ?body = "length pre + 5"
  have xml: "?xml = pre @ ''<App>'' @ b @ ''</App>'' @ rest" by (simp add: app_block_def)
  have "str_find ?xml ''<App'' (length pre) = Some (length pre)" "str_find ?xml ''>'' (length pre) = Some (length pre + 4)"
    unfolding xml str_find_append by simp_all
  moreover have "?xml ! (length pre + 4) = CHR ''>''" unfolding xml by (simp add: nth_append)
  moreover have "length pre + 4 < length ?xml" unfolding xml by simp
  ultimately have "find_app_body ?xml (length pre) = Some (length pre, ?body)"
    by (simp add: find_app_body_def app_body_from.simps [of ?xml] ends_name_def)
  moreover have "str_find ?xml ''</App>'' ?body = Some (?body + length b)"
    using str_find_append [of "pre @ ''<App>''" "b @ ''</App>'' @ rest" "''</App>''"]
      find_sub_inside [of "''</App>''" b rest] assms
    by (simp add: xml closed_block_def eval_nat_numeral)
  moreover have "substr ?xml ?body (length b) = b"
    using substr_mid [of "pre @ ''<App>''" b "''</App>'' @ rest"] by (simp add: xml eval_nat_numeral)
  ultimately show ?thesis
    by (subst app_list_from.simps) (simp add: Let_def listed_def app_block_def add.assoc eval_nat_numeral)
qed

lemma app_list_from_end:
  assumes "find_sub ''<App'' post = None"
  shows "app_list_from (pre @ post) (length pre) = []"
  using assms by (simp add: app_list_from.simps find_app_body_def app_body_from.simps str_find_append)

lemma app_list_from_blocks:
  assumes "list_all closed_block bs" "find_sub ''<App'' post = None"
  shows "app_list_from (pre @ concat (map app_block bs) @ post) (length pre) = filter listed (map app_of_block bs)"
  using assms(1)
proof (induction bs arbitrary: pre)
  case Nil
  then show ?case using app_list_from_end [OF assms(2)] by simp
next
  case (Cons b bs)
  have "app_list_from (pre @ app_block b @ concat (map app_block bs) @ post) (length pre)
      = filter listed [app_of_block b] @ app_list_from ((pre @ app_block b) @ concat (map app_block bs) @ post) (length (pre @ app_block b))"
    using app_list_from_block [of b pre "concat (map app_block bs) @ post"] Cons.prems by simp
  also have "\<dots> = filter listed (map app_of_block (b # bs))" using Cons.IH [of "pre @ app_block b"] Cons.prems by simp
  finally show ?case by simp
qed

lemma app_list_from_apps:
  assumes "list_all usable apps" "find_sub ''<App'' post = None"
  shows "app_list_from (pre @ concat (map app_xml apps) @ post) (length pre) = apps"
proof -
  have x: "app_xml = app_block \<circ> app_fields" by (simp add: fun_eq_iff app_xml_def app_block_def)
  have closed: "list_all closed_block (map app_fields apps)"
    using find_app_close [of _ "[]"] by (simp add: list_all_iff closed_block_def)
  have "map app_of_block (map app_fields apps) = apps" "filter listed apps = apps"
    using assms(1) by (auto simp: list_all_iff app_of_fields listed_def usable_def intro: map_idI)
  then show ?thesis using app_list_from_blocks [OF closed assms(2), of pre] by (simp only: x map_map [symmetric])
qed

lemma find_sub_boundary:
  assumes "c \<notin> set n" "find_sub (c # n) (pre @ [c]) = None"
  shows "find_sub (c # n) (pre @ c # s) = map_option ((+) (length pre)) (find_sub (c # n) (c # s))"
  using assms(2)
proof (induction pre)
  case Nil
  show ?case by (simp add: option.map_ident)
next
  case (Cons d pre)
  have "\<not> prefix (c # n) (d # pre @ c # s)"
  proof
    assume p: "prefix (c # n) (d # pre @ c # s)"
    then obtain r where r: "pre @ c # s = n @ r" "d = c" by (auto simp: prefix_def)
    have "length n \<le> length pre"
    proof (rule ccontr)
      assume "\<not> length n \<le> length pre"
      then have "n ! length pre = c" "length pre < length n"
        using arg_cong [OF r(1), of "\<lambda>x. x ! length pre"] by (auto simp: nth_append)
      then show False using assms(1) by (metis nth_mem)
    qed
    then have "prefix n pre" using r(1) by (metis append_eq_append_conv_if append_take_drop_id prefixI)
    then have "prefix (c # n) (d # pre @ [c])" using r(2) by (simp add: prefix_prefix)
    then show False using Cons.prems by (auto split: if_splits)
  qed
  moreover have "find_sub (c # n) (pre @ [c]) = None" using Cons.prems by (auto split: if_splits)
  then have "find_sub (c # n) (pre @ c # s) = map_option ((+) (length pre)) (find_sub (c # n) (c # s))"
    by (rule Cons.IH)
  ultimately have "find_sub (c # n) (d # pre @ c # s) = map_option Suc (map_option ((+) (length pre)) (find_sub (c # n) (c # s)))"
    by (simp only: find_sub.simps if_False)
  moreover have "Suc \<circ> (+) (length pre) = (+) (length (d # pre))" by auto
  ultimately show ?case by (simp only: option.map_comp append_Cons)
qed

lemma app_list_from_skip:
  assumes "find_sub ''<App'' (pre @ ''<'') = None"
  shows "app_list_from (pre @ CHR ''<'' # s) 0 = app_list_from (pre @ CHR ''<'' # s) (length pre)"
proof -
  have "str_find (pre @ CHR ''<'' # s) ''<App'' 0 = str_find (pre @ CHR ''<'' # s) ''<App'' (length pre)"
    using find_sub_boundary [of "CHR ''<''" "''App''" pre s] assms by (simp add: str_find_zero str_find_append)
  then show ?thesis
    by (simp add: app_list_from.simps [of _ 0] app_list_from.simps [of _ "length pre"] find_app_body_def
        app_body_from.simps [of _ 0] app_body_from.simps [of _ "length pre"])
qed

text \<open>What is read from any document of closed elements.\<close>

lemma parse_app_blocks:
  assumes "list_all closed_block bs" "find_sub ''<App'' (pre @ ''<'') = None"
  shows "parse_app_list (pre @ concat (map app_block bs) @ ''</root>'') = filter listed (map app_of_block bs)"
proof -
  obtain s where s: "concat (map app_block bs) @ ''</root>'' = CHR ''<'' # s"
    by (cases bs) (auto simp: app_block_def)
  have "parse_app_list (pre @ concat (map app_block bs) @ ''</root>'')
      = app_list_from (pre @ concat (map app_block bs) @ ''</root>'') (length pre)"
    unfolding parse_app_list_def s by (rule app_list_from_skip [OF assms(2)])
  also have "\<dots> = filter listed (map app_of_block bs)" by (rule app_list_from_blocks [OF assms(1)]) simp
  finally show ?thesis .
qed

section \<open>Properties\<close>

text \<open>
  The app list round trip: a host's document with any apps that have a positive id and a
  nonempty title (of any characters, escaped), after any prolog in which no app begins, is read back
  to exactly those apps, in order.
\<close>

theorem app_list_roundtrip:
  assumes "list_all usable apps" "find_sub ''<App'' (pre @ ''<'') = None"
  shows "parse_app_list (pre @ concat (map app_xml apps) @ ''</root>'') = apps"
proof -
  obtain s where s: "concat (map app_xml apps) @ ''</root>'' = CHR ''<'' # s"
    by (cases apps) (auto simp: app_xml_def)
  have "parse_app_list (pre @ concat (map app_xml apps) @ ''</root>'')
      = app_list_from (pre @ concat (map app_xml apps) @ ''</root>'') (length pre)"
    unfolding parse_app_list_def s by (rule app_list_from_skip [OF assms(2)])
  also have "\<dots> = apps" by (rule app_list_from_apps [OF assms(1)]) simp
  finally show ?thesis .
qed

theorem app_list_roundtrip_witness:
  "parse_app_list (''<root status_code=200>'' @ concat (map app_xml
      [\<lparr>app_id = 1, app_title = ''Desktop'', hdrSupported = False\<rparr>, \<lparr>app_id = 7, app_title = ''A & B'', hdrSupported = True\<rparr>]) @ ''</root>'')
   = [\<lparr>app_id = 1, app_title = ''Desktop'', hdrSupported = False\<rparr>, \<lparr>app_id = 7, app_title = ''A & B'', hdrSupported = True\<rparr>]"
  by (rule app_list_roundtrip) (simp_all add: usable_def)

lemma iequals_map: "iequals a b \<longleftrightarrow> map to_lower a = map to_lower b"
  by (auto simp: iequals_def list_all2_conv_all_nth list_eq_iff_nth_eq)

lemma to_lower_idem: "to_lower (to_lower c) = to_lower c"
  by (auto simp: to_lower_def byte_of_char_of)

lemma is_digit_to_lower: "is_digit (to_lower c) = is_digit c"
  by (auto simp: to_lower_def is_digit_def byte_of_char_of)

lemma all_digits_lower: "all_digits (map to_lower s) = all_digits s"
  by (simp add: all_digits_def list_all_iff is_digit_to_lower)

lemma iequals_lower: "iequals t (map to_lower s) = iequals t s"
  by (simp add: iequals_map comp_def to_lower_idem)

lemma resolve_title:
  assumes "\<not> all_digits ref"
  shows "resolve_app_id apps ref =
    (case List.find (\<lambda>a. iequals (app_title a) ref) apps of Some a \<Rightarrow> app_id a | None \<Rightarrow> 0)"
  using assms by (simp add: resolve_app_id_def)

lemma resolve_digits:
  assumes "0 < n" "n < 2 ^ 31" shows "resolve_app_id apps (dec_digits n) = int n"
  using assms by (simp add: resolve_app_id_def all_digits_def list_all_iff dec_digits_digits dec_digits_not_Nil atoi_dec_digits)

lemma find_first: "\<lbrakk>P a; \<forall>x\<in>set xs. \<not> P x\<rbrakk> \<Longrightarrow> List.find P (xs @ a # ys) = Some a"
  by (induction xs) auto

text \<open>
  Resolving is right on every reference: a positive number below the \<^verbatim>\<open>int\<close> bound written in
  digits is itself; otherwise letter case is ignored, the answer is the id of the first app whose
  title matches, and zero exactly when no title does.
\<close>

theorem resolve_app_id_spec:
  assumes "\<forall>a\<in>set apps. 0 < app_id a"
  shows "(0 < n \<and> n < 2 ^ 31 \<longrightarrow> resolve_app_id apps (dec_digits n) = int n)
         \<and> (\<not> all_digits ref \<longrightarrow>
              resolve_app_id apps (map to_lower ref) = resolve_app_id apps ref
              \<and> (resolve_app_id apps ref = 0 \<longleftrightarrow> (\<forall>a\<in>set apps. map to_lower (app_title a) \<noteq> map to_lower ref))
              \<and> (\<forall>xs a ys. apps = xs @ a # ys \<longrightarrow> iequals (app_title a) ref \<longrightarrow> (\<forall>x\<in>set xs. \<not> iequals (app_title x) ref)
                    \<longrightarrow> resolve_app_id apps ref = app_id a))"
proof (intro conjI impI)
  show "resolve_app_id apps (dec_digits n) = int n" if "0 < n \<and> n < 2 ^ 31"
    using that by (simp add: resolve_digits)
next
  assume ref: "\<not> all_digits ref"
  show "resolve_app_id apps (map to_lower ref) = resolve_app_id apps ref"
    using ref by (simp add: resolve_title all_digits_lower iequals_lower)
  have "0 < app_id a" if "List.find (\<lambda>a. iequals (app_title a) ref) apps = Some a" for a
    using that assms by (auto simp: find_Some_iff)
  then have "resolve_app_id apps ref = 0 \<longleftrightarrow> List.find (\<lambda>a. iequals (app_title a) ref) apps = None"
    using resolve_title [OF ref] by (auto split: option.splits)
  also have "\<dots> \<longleftrightarrow> (\<forall>a\<in>set apps. map to_lower (app_title a) \<noteq> map to_lower ref)"
    by (auto simp: find_None_iff iequals_map)
  finally show "resolve_app_id apps ref = 0 \<longleftrightarrow> (\<forall>a\<in>set apps. map to_lower (app_title a) \<noteq> map to_lower ref)" .
  show "\<forall>xs a ys. apps = xs @ a # ys \<longrightarrow> iequals (app_title a) ref \<longrightarrow> (\<forall>x\<in>set xs. \<not> iequals (app_title x) ref)
      \<longrightarrow> resolve_app_id apps ref = app_id a"
    using resolve_title [OF ref] by (simp add: find_first)
qed

theorem resolve_app_id_spec_witness:
  "resolve_app_id [\<lparr>app_id = 9, app_title = ''Steam'', hdrSupported = False\<rparr>] ''STEAM'' = 9
   \<and> resolve_app_id [\<lparr>app_id = 9, app_title = ''Steam'', hdrSupported = False\<rparr>] ''7zip'' = 0
   \<and> resolve_app_id [\<lparr>app_id = 9, app_title = ''Steam'', hdrSupported = False\<rparr>] (dec_digits 42) = 42"
proof -
  let ?apps = "[\<lparr>app_id = 9, app_title = ''Steam'', hdrSupported = False\<rparr>]"
  have pos: "\<forall>a\<in>set ?apps. 0 < app_id a" by simp
  note spec = resolve_app_id_spec [OF pos]
  have "iequals ''Steam'' ''STEAM''" "\<not> all_digits ''STEAM''" "\<not> all_digits ''7zip''" "\<not> iequals ''Steam'' ''7zip''"
    by code_simp+
  then show ?thesis
    using spec [of 42 "''STEAM''"] spec [of 42 "''7zip''"] by (auto simp: iequals_map Cons_eq_append_conv)
qed

end
