(* ===== verification/Launch.thy ===== *)
theory Launch
  imports AppList
begin

text \<open>
  The launch handshake (\<^verbatim>\<open>src/src/net/nv_launch.h\<close>, \<^verbatim>\<open>src/src/net/nv_launch.cpp\<close>): the query that
  asks a host to run an app or to resume it, and the reading of its answer, up to the RTSP session
  URL.
\<close>

section \<open>The query\<close>

record launch_config =
  lc_appId :: int
  lc_width :: int
  lc_height :: int
  lc_fps :: int
  lc_sops :: bool
  localAudio :: bool
  lc_hdr :: bool
  gamepadMask :: int
  persistControllers :: bool
  isGfe :: bool
  riKeyHex :: string
  riKeyId :: int
  surroundAudioInfo :: int
  extraQuery :: string

definition default_launch_config :: launch_config where
  "default_launch_config =
     \<lparr>lc_appId = 0, lc_width = 1920, lc_height = 1080, lc_fps = 60, lc_sops = True, localAudio = False,
      lc_hdr = False, gamepadMask = 1, persistControllers = False, isGfe = False, riKeyHex = [],
      riKeyId = 0, surroundAudioInfo = 0, extraQuery = []\<rparr>"

definition kHdrQuery :: string where
  "kHdrQuery =
     ''&hdrMode=1&clientHdrCapVersion=0&clientHdrCapSupportedFlagsInUint32=0''
     @ ''&clientHdrCapMetaDataId=NV_STATIC_METADATA_TYPE_1&clientHdrCapDisplayData=0x0x0x0x0x0x0x0x0x0x0''"

definition flag :: "bool \<Rightarrow> string" where
  "flag b = (if b then ''1'' else ''0'')"

definition build_launch_args :: "launch_config \<Rightarrow> string" where
  "build_launch_args cfg =
     (let modeFps = (if 60 < lc_fps cfg \<and> isGfe cfg then 0 else lc_fps cfg)
      in ''appid='' @ to_string (lc_appId cfg)
         @ ''&mode='' @ to_string (lc_width cfg) @ ''x'' @ to_string (lc_height cfg) @ ''x'' @ to_string modeFps
         @ ''&additionalStates=1&sops='' @ flag (lc_sops cfg)
         @ ''&rikey='' @ riKeyHex cfg
         @ ''&rikeyid='' @ to_string (riKeyId cfg)
         @ (if lc_hdr cfg then kHdrQuery else [])
         @ ''&localAudioPlayMode='' @ flag (localAudio cfg)
         @ ''&surroundAudioInfo='' @ to_string (surroundAudioInfo cfg)
         @ ''&remoteControllersBitmap='' @ to_string (gamepadMask cfg)
         @ ''&gcmap='' @ to_string (gamepadMask cfg)
         @ ''&gcpersist='' @ flag (persistControllers cfg)
         @ extraQuery cfg)"

definition build_resume_args :: "launch_config \<Rightarrow> string" where
  "build_resume_args cfg =
     ''rikey='' @ riKeyHex cfg
     @ ''&rikeyid='' @ to_string (riKeyId cfg)
     @ ''&surroundAudioInfo='' @ to_string (surroundAudioInfo cfg)
     @ extraQuery cfg"

section \<open>The handshake\<close>

record launch_result =
  lr_ok :: bool
  rtspSessionUrl :: string
  lr_error :: string

text \<open>The transport answers with the body and with whatever it leaves behind; \<^term>\<open>None\<close> is an
  answer whose decoding never ends.\<close>

definition run_launch ::
  "(string \<Rightarrow> string \<Rightarrow> (string \<times> 'w) option) \<Rightarrow> string \<Rightarrow> launch_config \<Rightarrow> (launch_result \<times> 'w) option" where
  "run_launch issue verb cfg =
     (let args = (if verb = ''resume'' then build_resume_args cfg else build_launch_args cfg)
      in case issue verb args of
           None \<Rightarrow> None
         | Some (resp, w) \<Rightarrow>
             Some (if resp = [] \<or> xml_attr resp ''root'' ''status_code'' \<noteq> ''200''
                   then \<lparr>lr_ok = False, rtspSessionUrl = [],
                         lr_error = ''host rejected '' @ verb @ '' (no status-200 response)''\<rparr>
                   else
                     let url = xml_text resp ''sessionUrl0''
                     in if url = []
                        then \<lparr>lr_ok = False, rtspSessionUrl = [],
                              lr_error = verb @ '' succeeded but returned no sessionUrl0''\<rparr>
                        else \<lparr>lr_ok = True, rtspSessionUrl = url, lr_error = []\<rparr>, w))"

definition launch_or_resume ::
  "('c, 'k) openssl \<Rightarrow> nv_client \<Rightarrow> launch_config \<Rightarrow> int \<Rightarrow> ('c, 'k) attempt \<Rightarrow> (launch_result \<times> bytes) option" where
  "launch_or_resume ssl cl cfg currentGame net =
     (let verb = (if currentGame \<noteq> 0 then ''resume'' else ''launch'')
      in run_launch (\<lambda>v a. get_https ssl cl v a net) verb cfg)"

section \<open>What a host reads\<close>

text \<open>The host's side: parameters are cut at \<^verbatim>\<open>&\<close>, a parameter at its first \<^verbatim>\<open>=\<close>, and the first
  parameter of a name counts.\<close>

fun split_on :: "char \<Rightarrow> string \<Rightarrow> string list" where
  "split_on c [] = [[]]"
| "split_on c (x # xs) =
     (if x = c then [] # split_on c xs
      else (case split_on c xs of [] \<Rightarrow> [[x]] | p # ps \<Rightarrow> (x # p) # ps))"

definition parse_param :: "string \<Rightarrow> string \<times> string" where
  "parse_param p = (takeWhile (\<lambda>c. c \<noteq> CHR ''='') p, drop 1 (dropWhile (\<lambda>c. c \<noteq> CHR ''='') p))"

definition query_params :: "string \<Rightarrow> string \<rightharpoonup> string" where
  "query_params q = map_of (map parse_param (split_on (CHR ''&'') q))"

lemma split_on_not_Nil [simp]: "split_on c s \<noteq> []"
  by (cases s) (auto split: list.splits)

lemma split_on_head: "c \<notin> set a \<Longrightarrow> split_on c (a @ s) = (a @ hd (split_on c s)) # tl (split_on c s)"
proof (induction a)
  case (Cons x a)
  then show ?case by (auto split: list.splits)
qed simp

lemma split_on_sep: "c \<notin> set a \<Longrightarrow> split_on c (a @ c # s) = a # split_on c s"
  by (simp add: split_on_head)

lemma split_on_last: "c \<notin> set a \<Longrightarrow> split_on c a = [a]"
  using split_on_head [of c a "[]"] by simp

lemma to_string_digits: "c \<in> set (to_string n) \<Longrightarrow> is_digit c \<or> c = CHR ''-''"
  by (auto simp: to_string_def dec_digits_digits split: if_splits)

lemma to_string_plain:
  "CHR ''&'' \<notin> set (to_string n)" "CHR ''x'' \<notin> set (to_string n)" "CHR ''='' \<notin> set (to_string n)"
  using to_string_digits [of _ n] by (fastforce simp: is_digit_def byte_of_def)+

lemma flag_plain: "CHR ''&'' \<notin> set (flag b)"
  by (simp add: flag_def)

text \<open>One parameter off the front of a query, and the last one before the extras.\<close>

lemma query_params_Cons:
  assumes "CHR ''='' \<notin> set k" "CHR ''&'' \<notin> set k" "CHR ''&'' \<notin> set v"
  shows "query_params (k @ CHR ''='' # v @ CHR ''&'' # q) = (query_params q)(k \<mapsto> v)"
proof -
  have "split_on (CHR ''&'') ((k @ CHR ''='' # v) @ CHR ''&'' # q) = (k @ CHR ''='' # v) # split_on (CHR ''&'') q"
    by (rule split_on_sep) (use assms in simp)
  moreover have "parse_param (k @ CHR ''='' # v) = (k, v)"
    using assms(1) by (simp add: parse_param_def takeWhile_append dropWhile_append)
  ultimately show ?thesis by (simp add: query_params_def)
qed

definition extra_ok :: "string \<Rightarrow> bool" where
  "extra_ok e \<longleftrightarrow> e = [] \<or> hd e = CHR ''&''"

definition extra_params :: "string \<Rightarrow> string \<rightharpoonup> string" where
  "extra_params e = (if e = [] then Map.empty else query_params (drop 1 e))"

lemma query_params_last:
  assumes "CHR ''='' \<notin> set k" "CHR ''&'' \<notin> set k" "CHR ''&'' \<notin> set v" "extra_ok e"
  shows "query_params (k @ CHR ''='' # v @ e) = (extra_params e)(k \<mapsto> v)"
proof (cases e)
  case Nil
  have "split_on (CHR ''&'') (k @ CHR ''='' # v) = [k @ CHR ''='' # v]"
    by (rule split_on_last) (use assms in simp)
  then show ?thesis
    using assms(1) Nil
    by (simp add: extra_params_def query_params_def parse_param_def takeWhile_append dropWhile_append)
next
  case (Cons c s)
  then show ?thesis
    using assms query_params_Cons [of k v s] by (simp add: extra_ok_def extra_params_def)
qed

fun query_of :: "(string \<times> string) list \<Rightarrow> string \<Rightarrow> string" where
  "query_of [] e = e"
| "query_of [(k, v)] e = k @ CHR ''='' # v @ e"
| "query_of ((k, v) # p # ps) e = k @ CHR ''='' # v @ CHR ''&'' # query_of (p # ps) e"

definition param_ok :: "string \<times> string \<Rightarrow> bool" where
  "param_ok p \<longleftrightarrow> CHR ''='' \<notin> set (fst p) \<and> CHR ''&'' \<notin> set (fst p) \<and> CHR ''&'' \<notin> set (snd p)"

lemma query_params_query_of:
  "ps \<noteq> [] \<Longrightarrow> list_all param_ok ps \<Longrightarrow> extra_ok e \<Longrightarrow> query_params (query_of ps e) = extra_params e ++ map_of ps"
proof (induction ps e rule: query_of.induct)
  case (3 k v p ps e)
  then have "query_params (query_of (p # ps) e) = extra_params e ++ map_of (p # ps)" by (intro 3(1)) simp_all
  moreover have "query_params (query_of ((k, v) # p # ps) e) = (query_params (query_of (p # ps) e))(k \<mapsto> v)"
    using 3(3) by (simp only: query_of.simps, subst query_params_Cons) (auto simp: param_ok_def)
  ultimately show ?case by (simp only: map_of.simps fst_conv snd_conv map_add_upd)
qed (auto simp: query_params_last param_ok_def)

definition mode_of :: "launch_config \<Rightarrow> string" where
  "mode_of cfg = to_string (lc_width cfg) @ CHR ''x'' # to_string (lc_height cfg) @ CHR ''x''
     # to_string (if 60 < lc_fps cfg \<and> isGfe cfg then 0 else lc_fps cfg)"

definition hdr_params :: "(string \<times> string) list" where
  "hdr_params = [(''hdrMode'', ''1''), (''clientHdrCapVersion'', ''0''), (''clientHdrCapSupportedFlagsInUint32'', ''0''),
     (''clientHdrCapMetaDataId'', ''NV_STATIC_METADATA_TYPE_1''), (''clientHdrCapDisplayData'', ''0x0x0x0x0x0x0x0x0x0x0'')]"

definition launch_params :: "launch_config \<Rightarrow> (string \<times> string) list" where
  "launch_params cfg =
     [(''appid'', to_string (lc_appId cfg)), (''mode'', mode_of cfg), (''additionalStates'', ''1''), (''sops'', flag (lc_sops cfg)),
      (''rikey'', riKeyHex cfg), (''rikeyid'', to_string (riKeyId cfg))] @ (if lc_hdr cfg then hdr_params else [])
     @ [(''localAudioPlayMode'', flag (localAudio cfg)), (''surroundAudioInfo'', to_string (surroundAudioInfo cfg)),
        (''remoteControllersBitmap'', to_string (gamepadMask cfg)), (''gcmap'', to_string (gamepadMask cfg)),
        (''gcpersist'', flag (persistControllers cfg))]"

definition resume_params :: "launch_config \<Rightarrow> (string \<times> string) list" where
  "resume_params cfg =
     [(''rikey'', riKeyHex cfg), (''rikeyid'', to_string (riKeyId cfg)), (''surroundAudioInfo'', to_string (surroundAudioInfo cfg))]"

lemma build_launch_args_query: "build_launch_args cfg = query_of (launch_params cfg) (extraQuery cfg)"
  by (simp add: build_launch_args_def launch_params_def hdr_params_def kHdrQuery_def mode_of_def)

lemma build_resume_args_query: "build_resume_args cfg = query_of (resume_params cfg) (extraQuery cfg)"
  by (simp add: build_resume_args_def resume_params_def)

lemma mode_plain: "CHR ''&'' \<notin> set (mode_of cfg)"
  by (simp add: mode_of_def to_string_plain)

lemma launch_params_ok: "CHR ''&'' \<notin> set (riKeyHex cfg) \<Longrightarrow> list_all param_ok (launch_params cfg)"
  by (simp add: launch_params_def hdr_params_def param_ok_def to_string_plain flag_plain mode_plain)

lemma resume_params_ok: "CHR ''&'' \<notin> set (riKeyHex cfg) \<Longrightarrow> list_all param_ok (resume_params cfg)"
  by (simp add: resume_params_def param_ok_def to_string_plain)

lemma split_mode:
  "split_on (CHR ''x'') (mode_of cfg)
     = [to_string (lc_width cfg), to_string (lc_height cfg), to_string (if 60 < lc_fps cfg \<and> isGfe cfg then 0 else lc_fps cfg)]"
  by (simp only: mode_of_def split_on_sep split_on_last to_string_plain not_False_eq_True)

definition is_int32 :: "int \<Rightarrow> bool" where
  "is_int32 n \<longleftrightarrow> - (2 ^ 31) \<le> n \<and> n < 2 ^ 31"

lemma atoi_int32: "is_int32 n \<Longrightarrow> atoi (to_string n) = n"
  by (simp add: is_int32_def atoi_to_string)

text \<open>The fields of the configuration are values of the C++ \<^verbatim>\<open>int\<close>, the key is hexadecimal text, and
  the extras begin with a separator.\<close>

definition config_ok :: "launch_config \<Rightarrow> bool" where
  "config_ok cfg \<longleftrightarrow>
     list_all is_int32 [lc_appId cfg, lc_width cfg, lc_height cfg, lc_fps cfg, riKeyId cfg, surroundAudioInfo cfg, gamepadMask cfg]
     \<and> CHR ''&'' \<notin> set (riKeyHex cfg) \<and> extra_ok (extraQuery cfg)"

lemma launch_query:
  "config_ok cfg \<Longrightarrow> query_params (build_launch_args cfg) = extra_params (extraQuery cfg) ++ map_of (launch_params cfg)"
  unfolding build_launch_args_query
  by (rule query_params_query_of) (auto simp: config_ok_def launch_params_ok, simp add: launch_params_def)

lemma resume_query:
  "config_ok cfg \<Longrightarrow> query_params (build_resume_args cfg) = extra_params (extraQuery cfg) ++ map_of (resume_params cfg)"
  unfolding build_resume_args_query
  by (rule query_params_query_of) (auto simp: config_ok_def resume_params_ok, simp add: resume_params_def)

section \<open>Properties\<close>

text \<open>
  C33. The launch query round trip: a host that parses the query finds the app id, the mode, the
  flags, the input key and its id, the audio layout and the controllers of the configuration, HDR
  parameters exactly when a 10-bit mode was asked for, and no extra parameter can override them.  The
  resume query carries the same key, key id and audio layout.
\<close>

theorem launch_query_roundtrip:
  assumes "config_ok cfg" "extra_params (extraQuery cfg) ''hdrMode'' = None"
  shows "let p = query_params (build_launch_args cfg); r = query_params (build_resume_args cfg) in
         map_option atoi (p ''appid'') = Some (lc_appId cfg)
         \<and> map_option (map atoi \<circ> split_on (CHR ''x'')) (p ''mode'')
             = Some [lc_width cfg, lc_height cfg, if 60 < lc_fps cfg \<and> isGfe cfg then 0 else lc_fps cfg]
         \<and> (p ''sops'' = Some ''1'' \<longleftrightarrow> lc_sops cfg) \<and> (p ''localAudioPlayMode'' = Some ''1'' \<longleftrightarrow> localAudio cfg)
         \<and> (p ''gcpersist'' = Some ''1'' \<longleftrightarrow> persistControllers cfg) \<and> (p ''hdrMode'' = Some ''1'' \<longleftrightarrow> lc_hdr cfg)
         \<and> map_option atoi (p ''gcmap'') = Some (gamepadMask cfg) \<and> p ''remoteControllersBitmap'' = p ''gcmap''
         \<and> (\<forall>q\<in>{p, r}. q ''rikey'' = Some (riKeyHex cfg) \<and> map_option atoi (q ''rikeyid'') = Some (riKeyId cfg)
              \<and> map_option atoi (q ''surroundAudioInfo'') = Some (surroundAudioInfo cfg))"
proof -
  define p where "p = query_params (build_launch_args cfg)"
  define r where "r = query_params (build_resume_args cfg)"
  have ints: "atoi (to_string n) = n"
    if "n \<in> {lc_appId cfg, lc_width cfg, lc_height cfg, lc_fps cfg, riKeyId cfg, surroundAudioInfo cfg, gamepadMask cfg, 0}" for n
    using that assms(1) by (auto simp: config_ok_def is_int32_def intro: atoi_to_string)
  have p: "p = extra_params (extraQuery cfg) ++ map_of (launch_params cfg)" and r: "r = extra_params (extraQuery cfg) ++ map_of (resume_params cfg)"
    unfolding p_def r_def by (rule launch_query [OF assms(1)], rule resume_query [OF assms(1)])
  have "p ''mode'' = Some (mode_of cfg)" by (simp add: p launch_params_def map_add_Some_iff)
  moreover have "map atoi (split_on (CHR ''x'') (mode_of cfg))
      = [lc_width cfg, lc_height cfg, if 60 < lc_fps cfg \<and> isGfe cfg then 0 else lc_fps cfg]"
    by (simp add: split_mode ints)
  moreover have "p ''hdrMode'' = (if lc_hdr cfg then Some ''1'' else None)"
    using assms(2) by (simp add: p launch_params_def hdr_params_def map_add_def)
  moreover have "p ''appid'' = Some (to_string (lc_appId cfg))" "p ''sops'' = Some (flag (lc_sops cfg))"
    "p ''localAudioPlayMode'' = Some (flag (localAudio cfg))" "p ''gcpersist'' = Some (flag (persistControllers cfg))"
    "p ''gcmap'' = Some (to_string (gamepadMask cfg))" "p ''remoteControllersBitmap'' = Some (to_string (gamepadMask cfg))"
    "p ''rikey'' = Some (riKeyHex cfg)" "p ''rikeyid'' = Some (to_string (riKeyId cfg))"
    "p ''surroundAudioInfo'' = Some (to_string (surroundAudioInfo cfg))"
    by (simp_all add: p launch_params_def hdr_params_def map_add_def)
  moreover have "r ''rikey'' = Some (riKeyHex cfg)" "r ''rikeyid'' = Some (to_string (riKeyId cfg))"
    "r ''surroundAudioInfo'' = Some (to_string (surroundAudioInfo cfg))"
    by (simp_all add: r resume_params_def map_add_def)
  ultimately show ?thesis unfolding p_def [symmetric] r_def [symmetric] Let_def by (simp add: ints flag_def)
qed

theorem launch_query_roundtrip_witness:
  "query_params (build_launch_args (default_launch_config
     \<lparr>lc_appId := 7, lc_fps := 120, isGfe := True, lc_hdr := True, riKeyHex := ''00ff'', riKeyId := 5, extraQuery := ''&corever=1&rikey=0''\<rparr>)) ''rikey''
     = Some ''00ff''
   \<and> map_option (map atoi \<circ> split_on (CHR ''x'')) (query_params (build_launch_args (default_launch_config
     \<lparr>lc_appId := 7, lc_fps := 120, isGfe := True, lc_hdr := True, riKeyHex := ''00ff'', riKeyId := 5, extraQuery := ''&corever=1&rikey=0''\<rparr>)) ''mode'')
     = Some [1920, 1080, 0]"
proof -
  let ?cfg = "default_launch_config
     \<lparr>lc_appId := 7, lc_fps := 120, isGfe := True, lc_hdr := True, riKeyHex := ''00ff'', riKeyId := 5, extraQuery := ''&corever=1&rikey=0''\<rparr>"
  have "config_ok ?cfg" by (simp add: config_ok_def default_launch_config_def is_int32_def extra_ok_def)
  moreover have "extra_params (extraQuery ?cfg) ''hdrMode'' = None"
    by (simp add: extra_params_def query_params_def parse_param_def)
  ultimately show ?thesis
    using launch_query_roundtrip [of ?cfg] by (simp add: Let_def default_launch_config_def)
qed

lemma run_launch_ok:
  assumes "run_launch issue verb cfg = Some (r, w)" "lr_ok r"
  obtains body where "issue verb (if verb = ''resume'' then build_resume_args cfg else build_launch_args cfg) = Some (body, w)"
    "body \<noteq> []" "xml_attr body ''root'' ''status_code'' = ''200''" "rtspSessionUrl r = xml_text body ''sessionUrl0''"
    "rtspSessionUrl r \<noteq> []" "lr_error r = []"
  using assms by (auto simp: run_launch_def Let_def split: option.splits if_splits)

lemma launch_ok_pinned:
  assumes "launch_or_resume ssl cl cfg currentGame net = Some (r, out)" "lr_ok r"
  obtains body p ch pinned ccert ckey where
    "get_https ssl cl (if currentGame \<noteq> 0 then ''resume'' else ''launch'')
       (if currentGame \<noteq> 0 then build_resume_args cfg else build_launch_args cfg) net = Some (body, out)"
    "xml_attr body ''root'' ''status_code'' = ''200''" "rtspSessionUrl r = xml_text body ''sessionUrl0''"
    "rtspSessionUrl r \<noteq> []" "lr_error r = []" "tls_connect net ccert ckey = Some (Some p, ch)"
    "pem_cert ssl (pinnedServerCert cl) = Some pinned" "x509_same ssl p pinned"
proof -
  let ?v = "if currentGame \<noteq> 0 then ''resume'' else ''launch''"
  obtain body where b: "get_https ssl cl ?v (if ?v = ''resume'' then build_resume_args cfg else build_launch_args cfg) net = Some (body, out)"
    "body \<noteq> []" "xml_attr body ''root'' ''status_code'' = ''200''" "rtspSessionUrl r = xml_text body ''sessionUrl0''"
    "rtspSessionUrl r \<noteq> []" "lr_error r = []"
    using assms unfolding launch_or_resume_def Let_def by (rule run_launch_ok)
  have verb: "?v = ''resume'' \<longleftrightarrow> currentGame \<noteq> 0" by simp
  obtain p ch pinned ccert ckey where "tls_connect net ccert ckey = Some (Some p, ch)"
    "pem_cert ssl (pinnedServerCert cl) = Some pinned" "x509_same ssl p pinned"
    using https_pinned [OF b(1)] b(2) by blast
  then show thesis using b that unfolding verb by blast
qed

text \<open>
  A stream is only started at the pinned host: when launching over a live client yields a
  session URL, the peer of that TLS connection presented the certificate pinned at pairing, the
  verb was \<^verbatim>\<open>resume\<close> exactly when an app was already running, and the URL is the one in the host's
  status-200 answer to the query of that verb; a result that is not ok carries no URL and says why.
\<close>

theorem launch_only_pinned:
  assumes "launch_or_resume ssl cl cfg currentGame net = Some (r, out)"
  shows "if lr_ok r
         then (\<exists>body p ch pinned ccert ckey.
                 get_https ssl cl (if currentGame \<noteq> 0 then ''resume'' else ''launch'')
                   (if currentGame \<noteq> 0 then build_resume_args cfg else build_launch_args cfg) net = Some (body, out)
               \<and> xml_attr body ''root'' ''status_code'' = ''200'' \<and> rtspSessionUrl r = xml_text body ''sessionUrl0''
               \<and> rtspSessionUrl r \<noteq> [] \<and> lr_error r = []
               \<and> tls_connect net ccert ckey = Some (Some p, ch)
               \<and> pem_cert ssl (pinnedServerCert cl) = Some pinned \<and> x509_same ssl p pinned)
         else rtspSessionUrl r = [] \<and> lr_error r \<noteq> []"
proof (cases "lr_ok r")
  case True
  from assms this show ?thesis by (rule launch_ok_pinned) (use True in auto)
next
  case False
  then show ?thesis
    using assms by (auto simp: launch_or_resume_def run_launch_def Let_def split: option.splits if_splits)
qed

text \<open>A host that answers any request with a session URL.\<close>

definition demo_reply :: string where
  "demo_reply = ''HTTP/1.1 200 OK'' @ crlf @ crlf @ ''<root status_code='' @ [CHR 0x22] @ ''200'' @ [CHR 0x22] @ ''><sessionUrl0>rtsp://h</sessionUrl0></root>''"

definition demo_net :: "(string, string) attempt" where
  "demo_net = \<lparr>rand16 = None, addrs = [Some \<lparr>handle = 3, rxq = [], txq = [], sent = []\<rparr>],
     tls_connect = (\<lambda>_ _. Some (Some ''CERT'', \<lparr>handle = 3, rxq = [Data demo_reply], txq = [], sent = []\<rparr>))\<rparr>"

definition demo_client :: nv_client where
  "demo_client = set_pinned_server_cert ''CERT'' (new_client ''h'' 1 2 \<lparr>certPem = ''C'', keyPem = ''K''\<rparr> ''u'')"

theorem launch_only_pinned_witness:
  "\<exists>r out. launch_or_resume \<lparr>pem_cert = Some, pem_key = Some, x509_same = (=)\<rparr> demo_client default_launch_config 0 demo_net = Some (r, out)
     \<and> lr_ok r \<and> rtspSessionUrl r \<noteq> []"
proof -
  have "map_option fst (launch_or_resume \<lparr>pem_cert = Some, pem_key = Some, x509_same = (=)\<rparr> demo_client default_launch_config 0 demo_net)
      = Some \<lparr>lr_ok = True, rtspSessionUrl = ''rtsp://h'', lr_error = []\<rparr>"
    by code_simp
  then obtain r out where r: "launch_or_resume \<lparr>pem_cert = Some, pem_key = Some, x509_same = (=)\<rparr> demo_client default_launch_config 0 demo_net = Some (r, out)"
    "lr_ok r" by auto
  from launch_only_pinned [OF r(1)] r show ?thesis by auto
qed

end
