(* ===== verification/StreamMain.thy ===== *)
theory StreamMain
  imports Server Pairing IdentityStore Launch StreamSession "HOL-Library.Monad_Syntax"
begin

text \<open>
  Client mode (\<^verbatim>\<open>src/src/client/stream_main.cpp\<close>, the build with OpenSSL and the streaming library):
  the handlers of the \<^verbatim>\<open>client.*\<close> methods, their registration, and \<^verbatim>\<open>stream_main\<close>.  A handler that does
  not return, because the answer of a host is decoded forever or because the process is aborted, has
  the result \<^term>\<open>None\<close>.
\<close>

unbundle bit_operations_syntax

section \<open>Helpers\<close>

definition kDefaultHttpPort :: int where "kDefaultHttpPort = 47989"
definition kDefaultHttpsPort :: int where "kDefaultHttpsPort = 47984"
definition kStereoSurroundInfo :: int where "kStereoSurroundInfo = 0x3 * 2 ^ 16 + 2"

definition major_version :: "string \<Rightarrow> int" where
  "major_version appversion = (if appversion = [] then 0 else atoi appversion)"

definition make_ri_key_id :: "bytes \<Rightarrow> int" where
  "make_ri_key_id four =
     (if length four < 4 then 0
      else
        let b = (\<lambda>i. of_nat (byte_of (four ! i)) :: 32 word);
            w = push_bit 24 (b 0) OR push_bit 16 (b 1) OR push_bit 8 (b 2) OR b 3
        in uint (w AND 0x7fffffff))"

text \<open>What does not change while the process runs: the store's directory, what OpenSSL generates when
  an identity is first needed, OpenSSL itself, and the library's launch parameters.\<close>

record ('c, 'k) client_env =
  ce_dir :: string
  ce_made :: "client_identity option"
  ce_uid :: "64 word option"
  ce_ssl :: "('c, 'k) openssl"
  ce_crypto :: crypto
  ce_extra :: string

record ('c, 'k) client_world =
  cw_fs :: fsys
  cw_nets :: "('c, 'k) attempt list"
  cw_rands :: "(nat \<Rightarrow> char) option list"
  cw_session :: session

type_synonym 'w ohandler = "jvalue \<Rightarrow> 'w \<Rightarrow> ((jvalue \<times> string \<times> string) \<times> 'w) option"

text \<open>A client over the world's connections, and the world after it was used.\<close>

definition with_client :: "nv_client \<Rightarrow> ('c, 'k) client_world \<Rightarrow> ('c, 'k) live" where
  "with_client cl w = \<lparr>live_client = cl, nets = cw_nets w, rands = cw_rands w\<rparr>"

definition back_from :: "('c, 'k) live \<Rightarrow> ('c, 'k) client_world \<Rightarrow> ('c, 'k) client_world" where
  "back_from l w = w\<lparr>cw_nets := nets l, cw_rands := rands l\<rparr>"

definition cw_get ::
  "('c, 'k) client_env \<Rightarrow> bool \<Rightarrow> nv_client \<Rightarrow> string \<Rightarrow> ('c, 'k) client_world \<Rightarrow> (string \<times> ('c, 'k) client_world) option" where
  "cw_get env https cl command w =
     do { (body, l) \<leftarrow> live_get (ce_ssl env) https command [] (with_client cl w); Some (body, back_from l w) }"

definition cw_random :: "int \<Rightarrow> ('c, 'k) client_world \<Rightarrow> bytes \<times> ('c, 'k) client_world" where
  "cw_random n w =
     (case cw_rands w of [] \<Rightarrow> ([], w) | r # rs \<Rightarrow> (random_bytes n r, w\<lparr>cw_rands := rs\<rparr>))"

definition quote :: "string \<Rightarrow> string" where
  "quote s = [CHR 0x27] @ s @ [CHR 0x27]"

definition store_identity ::
  "('c, 'k) client_env \<Rightarrow> ('c, 'k) client_world \<Rightarrow> (client_identity \<times> string) option \<times> ('c, 'k) client_world" where
  "store_identity env w =
     (case load_or_create_identity (ce_dir env) (ce_made env) (ce_uid env) (cw_fs w) of
        (fs, r) \<Rightarrow> (r, w\<lparr>cw_fs := fs\<rparr>))"

definition connect_paired_host ::
  "('c, 'k) client_env \<Rightarrow> string \<Rightarrow> ('c, 'k) client_world \<Rightarrow> (((string \<times> string) + nv_client) \<times> ('c, 'k) client_world) option" where
  "connect_paired_host env host w =
     (case find_host (ce_dir env) host (cw_fs w) of
        None \<Rightarrow> Some (Inl (''not_paired'', ''host '' @ quote host @ '' is not paired; run client.pair first''), w)
      | Some paired \<Rightarrow>
          (case store_identity env w of
             (None, w1) \<Rightarrow> Some (Inl (''internal'', ''could not load the persistent client identity''), w1)
           | (Some (identity, uniqueId), w1) \<Rightarrow>
               let client = set_pinned_server_cert (serverCertPem paired)
                              (new_client host kDefaultHttpPort kDefaultHttpsPort identity uniqueId)
               in do {
                 (infoHttp, w2) \<leftarrow> cw_get env False client ''serverinfo'' w1;
                 if infoHttp = [] \<or> xml_attr infoHttp ''root'' ''status_code'' \<noteq> ''200''
                 then Some (Inl (''host_unreachable'',
                        ''no serverinfo from '' @ host @ '' (is the host awake and GameStream/Sunshine running?)''), w2)
                 else
                   let httpsPort = atoi (xml_text infoHttp ''HttpsPort'')
                   in Some (Inr (if 0 < httpsPort then set_https_port httpsPort client else client), w2)
               }))"

text \<open>\<^verbatim>\<open>fetch_app_list\<close> over a client.\<close>

definition fetch_apps ::
  "('c, 'k) client_env \<Rightarrow> nv_client \<Rightarrow> ('c, 'k) client_world \<Rightarrow> ((app_info list \<times> string) \<times> ('c, 'k) client_world) option" where
  "fetch_apps env cl w = do { (body, w1) \<leftarrow> cw_get env True cl ''applist'' w; Some (fetch_app_list body, w1) }"

section \<open>Handlers\<close>

definition ok_reply :: "jvalue \<Rightarrow> 'w \<Rightarrow> ((jvalue \<times> string \<times> string) \<times> 'w) option" where
  "ok_reply r w = Some ((r, [], []), w)"

definition err_reply :: "string \<Rightarrow> string \<Rightarrow> 'w \<Rightarrow> ((jvalue \<times> string \<times> string) \<times> 'w) option" where
  "err_reply code msg w = Some ((JNull, code, msg), w)"

definition host_entry :: "paired_host \<Rightarrow> jvalue" where
  "host_entry h = obj [(''name'', JStr (host_name h)), (''address'', JStr (address h)), (''paired'', JBool True), (''state'', JStr ''idle'')]"

definition client_hosts :: "('c, 'k) client_env \<Rightarrow> ('c, 'k) client_world ohandler" where
  "client_hosts env params w =
     ok_reply (obj [(''hosts'', JArr (map host_entry (list_hosts (ce_dir env) (cw_fs w))))]) w"

definition app_entry :: "app_info \<Rightarrow> jvalue" where
  "app_entry a = obj [(''id'', JNum (double_of_int (app_id a))), (''name'', JStr (app_title a)), (''hdrSupported'', JBool (hdrSupported a))]"

definition client_apps :: "('c, 'k) client_env \<Rightarrow> ('c, 'k) client_world ohandler" where
  "client_apps env params w =
     (let host = get_str ''host'' [] params
      in if host = [] then err_reply ''bad_params'' (''client.apps requires a non-empty string '' @ quote ''host'') w
         else do {
           (c, w1) \<leftarrow> connect_paired_host env host w;
           (case c of
              Inl (code, msg) \<Rightarrow> err_reply code msg w1
            | Inr client \<Rightarrow> do {
                ((apps, err), w2) \<leftarrow> fetch_apps env client w1;
                if err \<noteq> []
                then err_reply ''host_unreachable'' (''could not fetch the app list from '' @ host @ '' ('' @ err @ '')'') w2
                else ok_reply (obj [(''apps'', JArr (map app_entry apps))]) w2
              })
         })"

definition client_pair :: "('c, 'k) client_env \<Rightarrow> ('c, 'k) client_world ohandler" where
  "client_pair env params w =
     (let host = get_str ''host'' [] params;
          pin = get_str ''pin'' [] params
      in if host = [] \<or> pin = []
         then err_reply ''bad_params'' (''client.pair requires non-empty string '' @ quote ''host'' @ '' and '' @ quote ''pin'') w
         else
           (case store_identity env w of
              (None, w1) \<Rightarrow> err_reply ''pairing_failed'' ''could not load or generate the persistent client identity'' w1
            | (Some (identity, uniqueId), w1) \<Rightarrow>
                let client = new_client host kDefaultHttpPort kDefaultHttpsPort identity uniqueId
                in do {
                  (info, w2) \<leftarrow> cw_get env False client ''serverinfo'' w1;
                  if info = [] \<or> xml_attr info ''root'' ''status_code'' \<noteq> ''200''
                  then err_reply ''host_unreachable''
                         (''no serverinfo response from '' @ host @ '' (is GameStream/Sunshine running?)'') w2
                  else
                    let gen = major_version (xml_text info ''appversion'');
                        httpsPort = atoi (xml_text info ''HttpsPort'');
                        client2 = (if 0 < httpsPort then set_https_port httpsPort client else client)
                    in do {
                      ((state, cert), l) \<leftarrow> pair_with_client (ce_ssl env) (ce_crypto env) identity pin gen (with_client client2 w2);
                      let w3 = back_from l w2
                      in case state of
                           Paired \<Rightarrow>
                             (case upsert_host (ce_dir env) \<lparr>address = host, host_name = get_str ''name'' [] params, serverCertPem = cert\<rparr> (cw_fs w3) of
                                (fs, stored) \<Rightarrow>
                                  ok_reply (obj [(''paired'', JBool True), (''serverCert'', JStr (to_hex cert))]) (w3\<lparr>cw_fs := fs\<rparr>))
                         | PinWrong \<Rightarrow> err_reply ''pin_wrong'' ''the PIN entered did not match'' w3
                         | AlreadyInProgress \<Rightarrow> err_reply ''already_pairing'' ''the host is already pairing with another client'' w3
                         | PairFailed \<Rightarrow> err_reply ''pairing_failed'' ''pairing handshake failed'' w3
                    }
                }))"

definition client_identity_method :: "('c, 'k) client_env \<Rightarrow> ('c, 'k) client_world ohandler" where
  "client_identity_method env params w =
     (case store_identity env w of
        (None, w1) \<Rightarrow> err_reply ''internal'' ''could not load or generate the persistent client identity'' w1
      | (Some (identity, uniqueId), w1) \<Rightarrow>
          ok_reply (obj [(''clientCertPem'', JStr (certPem identity)), (''uniqueId'', JStr uniqueId)]) w1)"

definition client_trust_host :: "('c, 'k) client_env \<Rightarrow> ('c, 'k) client_world ohandler" where
  "client_trust_host env params w =
     (let host = get_str ''host'' [] params;
          cert = get_str ''serverCertPem'' [] params
      in if host = [] \<or> cert = []
         then err_reply ''bad_params'' (''client.trustHost requires non-empty '' @ quote ''host'' @ '' and '' @ quote ''serverCertPem'') w
         else
           (case upsert_host (ce_dir env) \<lparr>address = host, host_name = get_str ''name'' [] params, serverCertPem = cert\<rparr> (cw_fs w) of
              (fs, False) \<Rightarrow> err_reply ''internal'' ''could not persist the pinned host cert'' (w\<lparr>cw_fs := fs\<rparr>)
            | (fs, True) \<Rightarrow> ok_reply (obj [(''trusted'', JBool True)]) (w\<lparr>cw_fs := fs\<rparr>)))"

section \<open>Starting a stream\<close>

text \<open>The app reference as \<^verbatim>\<open>client.start\<close> resolves it: an error, or the id.\<close>

definition start_app_id ::
  "('c, 'k) client_env \<Rightarrow> nv_client \<Rightarrow> string \<Rightarrow> string \<Rightarrow> ('c, 'k) client_world \<Rightarrow> (((string \<times> string) + int) \<times> ('c, 'k) client_world) option" where
  "start_app_id env client host appRef w =
     (if 0 < atoi appRef then Some (Inr (atoi appRef), w)
      else do {
        ((apps, err), w1) \<leftarrow> fetch_apps env client w;
        if err \<noteq> []
        then Some (Inl (''host_unreachable'', ''could not fetch the app list to resolve '' @ quote appRef @ '' ('' @ err @ '')''), w1)
        else
          let appId = resolve_app_id apps appRef
          in if appId \<le> 0 then Some (Inl (''app_not_found'', ''no app named '' @ quote appRef @ '' on host '' @ quote host), w1)
             else Some (Inr appId, w1)
      })"

definition start_launch_config :: "('c, 'k) client_env \<Rightarrow> stream_settings \<Rightarrow> int \<Rightarrow> string \<Rightarrow> bytes \<Rightarrow> int \<Rightarrow> launch_config" where
  "start_launch_config env settings appId gfeVersion riKey keyId =
     default_launch_config
       \<lparr>lc_appId := appId, lc_width := ss_width settings, lc_height := ss_height settings, lc_fps := ss_fps settings,
        lc_sops := True, lc_hdr := ss_hdr settings, isGfe := (gfeVersion \<noteq> []), gamepadMask := 1,
        riKeyHex := to_hex riKey, riKeyId := keyId, surroundAudioInfo := kStereoSurroundInfo, extraQuery := ce_extra env\<rparr>"

text \<open>From the authenticated \<^verbatim>\<open>serverinfo\<close> on.\<close>

definition dead_net :: "('c, 'k) attempt" where
  "dead_net = \<lparr>rand16 = None, addrs = [], tls_connect = (\<lambda>_ _. None)\<rparr>"

definition launch_stream ::
  "(start_info \<Rightarrow> ('c, 'k) client_world \<Rightarrow> ((jvalue \<times> string \<times> string) \<times> ('c, 'k) client_world) option) \<Rightarrow> ('c, 'k) client_env
     \<Rightarrow> jvalue \<Rightarrow> stream_settings \<Rightarrow> string \<Rightarrow> nv_client \<Rightarrow> int \<Rightarrow> string \<Rightarrow> ('c, 'k) client_world
     \<Rightarrow> ((jvalue \<times> string \<times> string) \<times> ('c, 'k) client_world) option" where
  "launch_stream hand env params settings host client appId info w =
     (let appVersion = xml_text info ''appversion'';
          gfeVersion = xml_text info ''GfeVersion'';
          codecSupport = atoi (xml_text info ''ServerCodecModeSupport'');
          currentGame = atoi (xml_text info ''currentgame'');
          (riKey, w1) = cw_random 16 w;
          (four, w2) = cw_random 4 w1;
          keyId = make_ri_key_id four
      in if length riKey \<noteq> 16 then err_reply ''internal'' ''could not generate the remote-input key'' w2
         else
           let net = (case cw_nets w2 of [] \<Rightarrow> dead_net | n # _ \<Rightarrow> n);
               w3 = w2\<lparr>cw_nets := tl (cw_nets w2)\<rparr>
           in do {
             (launched, out) \<leftarrow> launch_or_resume (ce_ssl env) client
                                  (start_launch_config env settings appId gfeVersion riKey keyId) currentGame net;
             if \<not> lr_ok launched then err_reply ''internal'' (lr_error launched) w3
             else
               let si = \<lparr>si_host = host, serverAppVersion = appVersion, si_gfeVersion = gfeVersion,
                         si_rtspSessionUrl = rtspSessionUrl launched, serverCodecModeSupport = codecSupport,
                         si_settings = settings, si_riKey = riKey, si_riKeyId = keyId,
                         embedWindow = get_bool ''embedWindow'' False params\<rparr>
               in hand si w3
           })"

text \<open>What the build with the streaming library does with a launched session.\<close>

definition start_stream ::
  "start_info \<Rightarrow> ('c, 'k) client_world \<Rightarrow> ((jvalue \<times> string \<times> string) \<times> ('c, 'k) client_world) option" where
  "start_stream si w =
     (case session_start si (cw_session w) of
        (Some err, ses) \<Rightarrow> err_reply ''engine_busy'' err (w\<lparr>cw_session := ses\<rparr>)
      | (None, ses) \<Rightarrow> if crashed ses then None else ok_reply (obj [(''started'', JBool True)]) (w\<lparr>cw_session := ses\<rparr>))"

abbreviation start_launch ::
  "('c, 'k) client_env \<Rightarrow> jvalue \<Rightarrow> stream_settings \<Rightarrow> string \<Rightarrow> nv_client \<Rightarrow> int \<Rightarrow> string \<Rightarrow> ('c, 'k) client_world
     \<Rightarrow> ((jvalue \<times> string \<times> string) \<times> ('c, 'k) client_world) option" where
  "start_launch \<equiv> launch_stream start_stream"

definition client_start_with ::
  "(start_info \<Rightarrow> ('c, 'k) client_world \<Rightarrow> ((jvalue \<times> string \<times> string) \<times> ('c, 'k) client_world) option)
     \<Rightarrow> ('c, 'k) client_env \<Rightarrow> ('c, 'k) client_world ohandler" where
  "client_start_with hand env params w =
     (case validate_stream_settings (case jfind ''settings'' params of Some sv \<Rightarrow> sv | None \<Rightarrow> JNull) of
        Inl (code, msg) \<Rightarrow> err_reply code msg w
      | Inr settings \<Rightarrow>
          let host = get_str ''host'' [] params;
              appRef = get_str ''app'' [] params
          in if host = [] then err_reply ''bad_params'' (''client.start requires a non-empty string '' @ quote ''host'') w
             else if appRef = []
             then err_reply ''bad_params'' (''client.start requires '' @ quote ''app'' @ '' (a GameStream appid or app name)'') w
             else do {
               (c, w1) \<leftarrow> connect_paired_host env host w;
               (case c of
                  Inl (code, msg) \<Rightarrow> err_reply code msg w1
                | Inr client \<Rightarrow> do {
                    (info, w2) \<leftarrow> cw_get env True client ''serverinfo'' w1;
                    if info = [] \<or> xml_attr info ''root'' ''status_code'' \<noteq> ''200''
                    then err_reply ''host_unreachable''
                           (''serverinfo over HTTPS failed '' @ [CHR 0xE2, CHR 0x80, CHR 0x94]
                              @ '' the pairing may be stale; re-pair the host'') w2
                    else do {
                      (a, w3) \<leftarrow> start_app_id env client host appRef w2;
                      (case a of
                         Inl (code, msg) \<Rightarrow> err_reply code msg w3
                       | Inr appId \<Rightarrow> launch_stream hand env params settings host client appId info w3)
                    }
                  })
             })"

definition client_start :: "('c, 'k) client_env \<Rightarrow> ('c, 'k) client_world ohandler" where
  "client_start = client_start_with start_stream"

text \<open>\<^verbatim>\<open>client.stop\<close> returns when the worker has been joined; by then the worker has reached its end, with
  whatever it still emitted.\<close>

definition stop_session :: "(session \<Rightarrow> session) \<Rightarrow> session \<Rightarrow> session" where
  "stop_session finish s = (let s1 = stop_begin s in if joining s1 then stop_end (finish s1) else s1)"

definition client_stop :: "(session \<Rightarrow> session) \<Rightarrow> ('c, 'k) client_world ohandler" where
  "client_stop finish params w =
     ok_reply (obj [(''stopped'', JBool True)]) (w\<lparr>cw_session := stop_session finish (cw_session w)\<rparr>)"

section \<open>What each part keeps\<close>

lemma cw_get_frame:
  assumes "cw_get env https cl command w = Some (body, w')"
  shows "cw_session w' = cw_session w" "cw_fs w' = cw_fs w" "set (cw_nets w') \<subseteq> set (cw_nets w)"
  using assms live_get_step [of "ce_ssl env" https command "[]" "with_client cl w"]
  by (auto simp: cw_get_def back_from_def with_client_def bind_eq_Some_conv)

lemma store_identity_frame:
  "store_identity env w = (r, w') \<Longrightarrow> cw_session w' = cw_session w \<and> cw_nets w' = cw_nets w"
  by (auto simp: store_identity_def split: prod.splits)

lemma cw_random_frame:
  "cw_random n w = (b, w') \<Longrightarrow> cw_session w' = cw_session w \<and> cw_nets w' = cw_nets w \<and> cw_fs w' = cw_fs w"
  by (auto simp: cw_random_def split: list.splits)

lemma set_https_port_pin [simp]: "pinnedServerCert (set_https_port p cl) = pinnedServerCert cl" "cl_host (set_https_port p cl) = cl_host cl"
  by (simp_all add: set_https_port_def)

lemma connect_paired_Inr:
  assumes "connect_paired_host env host w = Some (Inr cl, w')"
  obtains paired where "find_host (ce_dir env) host (cw_fs w) = Some paired" "pinnedServerCert cl = serverCertPem paired"
    "cl_host cl = host" "cw_session w' = cw_session w" "set (cw_nets w') \<subseteq> set (cw_nets w)"
proof -
  obtain paired where p: "find_host (ce_dir env) host (cw_fs w) = Some paired"
    using assms by (auto simp: connect_paired_host_def split: option.splits)
  obtain ident uid w1 where i: "store_identity env w = (Some (ident, uid), w1)"
    using assms p by (auto simp: connect_paired_host_def split: option.splits prod.splits)
  let ?cl = "set_pinned_server_cert (serverCertPem paired) (new_client host kDefaultHttpPort kDefaultHttpsPort ident uid)"
  obtain body where g: "cw_get env False ?cl ''serverinfo'' w1 = Some (body, w')"
    and cl: "cl = (if 0 < atoi (xml_text body ''HttpsPort'') then set_https_port (atoi (xml_text body ''HttpsPort'')) ?cl else ?cl)"
    using assms p i by (auto simp: connect_paired_host_def Let_def bind_eq_Some_conv split: if_splits prod.splits)
  show thesis
    using that [OF p] cl cw_get_frame [OF g] store_identity_frame [OF i]
    by (auto simp: set_pinned_server_cert_def new_client_def)
qed

lemma connect_paired_Inl:
  assumes "connect_paired_host env host w = Some (Inl (code, msg), w')"
  shows "cw_session w' = cw_session w \<and> code \<in> {''not_paired'', ''internal'', ''host_unreachable''} \<and> (code = ''not_paired'' \<longrightarrow> w' = w)"
  using assms
  by (auto simp: connect_paired_host_def Let_def bind_eq_Some_conv dest!: store_identity_frame cw_get_frame(1)
      split: option.splits prod.splits if_splits)

lemma fetch_apps_frame:
  "fetch_apps env cl w = Some (r, w') \<Longrightarrow> cw_session w' = cw_session w \<and> set (cw_nets w') \<subseteq> set (cw_nets w)"
  by (auto simp: fetch_apps_def bind_eq_Some_conv dest: cw_get_frame)

lemma start_app_id_frame:
  assumes "start_app_id env cl host appRef w = Some (a, w')"
  shows "cw_session w' = cw_session w \<and> set (cw_nets w') \<subseteq> set (cw_nets w)
         \<and> (case a of Inr i \<Rightarrow> 0 < i | Inl (code, msg) \<Rightarrow> code \<in> {''host_unreachable'', ''app_not_found''})"
  using assms fetch_apps_frame [of env cl w]
  by (auto simp: start_app_id_def Let_def bind_eq_Some_conv split: if_splits)

lemma session_start_ok:
  "session_start info s = (None, s') \<Longrightarrow> \<not> crashed s' \<Longrightarrow>
     \<not> ses_running s \<and> ses_worker s = NoThread \<and> ses_worker s' = Setup info \<and> length (si_riKey info) = 16 \<and> si_rtspSessionUrl info \<noteq> []"
  by (auto simp: session_start_def Let_def split: if_splits)

lemma session_start_busy:
  "session_start info s = (Some e, s') \<Longrightarrow> length (si_riKey info) = 16 \<Longrightarrow> si_rtspSessionUrl info \<noteq> [] \<Longrightarrow> s' = s \<and> ses_running s"
  by (auto simp: session_start_def Let_def split: if_splits)

lemma start_launch_cases:
  assumes "start_launch env params settings host cl appId info w = Some ((r, code, m), w')"
  shows "if code = []
         then \<exists>si net p ch ccert ckey pinned.
             ses_worker (cw_session w') = Setup si \<and> si_host si = host \<and> si_settings si = settings
             \<and> length (si_riKey si) = 16 \<and> si_rtspSessionUrl si \<noteq> []
             \<and> \<not> ses_running (cw_session w) \<and> ses_worker (cw_session w) = NoThread
             \<and> net \<in> set (cw_nets w) \<and> tls_connect net ccert ckey = Some (Some p, ch)
             \<and> pem_cert (ce_ssl env) (pinnedServerCert cl) = Some pinned \<and> x509_same (ce_ssl env) p pinned
             \<and> r = obj [(''started'', JBool True)]
         else r = JNull \<and> cw_session w' = cw_session w \<and> code \<in> {''internal'', ''engine_busy''}
              \<and> (code = ''engine_busy'' \<longrightarrow> ses_running (cw_session w))"
proof -
  obtain key w1 four w2 where k: "cw_random 16 w = (key, w1)" "cw_random 4 w1 = (four, w2)" by force
  have fr: "cw_session w2 = cw_session w" "cw_nets w2 = cw_nets w"
    using cw_random_frame [OF k(1)] cw_random_frame [OF k(2)] by simp_all
  let ?net = "case cw_nets w2 of [] \<Rightarrow> dead_net | n # _ \<Rightarrow> n"
  let ?lc = "start_launch_config env settings appId (xml_text info ''GfeVersion'') key (make_ri_key_id four)"
  let ?cg = "atoi (xml_text info ''currentgame'')"
  note d = assms [unfolded launch_stream_def start_stream_def Let_def k prod.case]
  show ?thesis
  proof (cases "length key = 16")
    case False
    then show ?thesis using d fr by (auto simp: err_reply_def)
  next
    case True
    then obtain launched out where l: "launch_or_resume (ce_ssl env) cl ?lc ?cg ?net = Some (launched, out)"
      using d by (auto simp: bind_eq_Some_conv)
    show ?thesis
    proof (cases "lr_ok launched")
      case False
      then have "code = ''internal''" "r = JNull" "cw_session w' = cw_session w" using d True l fr by (auto simp: err_reply_def)
      then show ?thesis by simp
    next
      case ok: True
      let ?si = "\<lparr>si_host = host, serverAppVersion = xml_text info ''appversion'', si_gfeVersion = xml_text info ''GfeVersion'',
          si_rtspSessionUrl = rtspSessionUrl launched, serverCodecModeSupport = atoi (xml_text info ''ServerCodecModeSupport''),
          si_settings = settings, si_riKey = key, si_riKeyId = make_ri_key_id four, embedWindow = get_bool ''embedWindow'' False params\<rparr>"
      obtain e ses where s: "session_start ?si (cw_session w) = (e, ses)" by force
      obtain p ch pinned ccert ckey where tls: "tls_connect ?net ccert ckey = Some (Some p, ch)" "rtspSessionUrl launched \<noteq> []"
        "pem_cert (ce_ssl env) (pinnedServerCert cl) = Some pinned" "x509_same (ce_ssl env) p pinned"
        using launch_ok_pinned [OF l ok] by metis
      have net: "?net \<in> set (cw_nets w)"
        using tls(1) fr(2) by (auto simp: dead_net_def split: list.splits)
      show ?thesis
      proof (cases e)
        case (Some err)
        then have "code = ''engine_busy''" "r = JNull" "cw_session w' = ses"
          using d True l ok s fr by (auto simp: err_reply_def)
        moreover have "ses = cw_session w \<and> ses_running (cw_session w)"
          using session_start_busy [OF s [unfolded Some]] True tls(2) by simp
        ultimately show ?thesis by simp
      next
        case None
        then have r: "\<not> crashed ses" "code = []" "r = obj [(''started'', JBool True)]" "cw_session w' = ses"
          using d True l ok s fr by (auto simp: ok_reply_def split: if_splits)
        with session_start_ok [OF s [unfolded None]]
        have "ses_worker (cw_session w') = Setup ?si" "\<not> ses_running (cw_session w)" "ses_worker (cw_session w) = NoThread" by auto
        moreover have "si_host ?si = host" "si_settings ?si = settings" "length (si_riKey ?si) = 16" "si_rtspSessionUrl ?si \<noteq> []"
          using True tls(2) by simp_all
        ultimately show ?thesis using r(2,3) net tls by (simp only: if_True refl) blast
      qed
    qed
  qed
qed

section \<open>Properties\<close>

lemma client_start_cases:
  assumes "client_start env params w = Some ((r, code, m), w')"
  obtains
    (refused) "code = ''bad_params''" "r = JNull" "w' = w"
  | (unreachable) "code \<in> {''not_paired'', ''internal'', ''host_unreachable'', ''app_not_found''}" "r = JNull"
      "cw_session w' = cw_session w" "code = ''not_paired'' \<longrightarrow> w' = w"
  | (launched) settings cl w1 w2 w3 info appId where
      "validate_stream_settings (case jfind ''settings'' params of Some sv \<Rightarrow> sv | None \<Rightarrow> JNull) = Inr settings"
      "connect_paired_host env (get_str ''host'' [] params) w = Some (Inr cl, w1)"
      "cw_get env True cl ''serverinfo'' w1 = Some (info, w2)"
      "start_app_id env cl (get_str ''host'' [] params) (get_str ''app'' [] params) w2 = Some (Inr appId, w3)"
      "start_launch env params settings (get_str ''host'' [] params) cl appId info w3 = Some ((r, code, m), w')"
proof -
  let ?sv = "case jfind ''settings'' params of Some sv \<Rightarrow> sv | None \<Rightarrow> JNull"
  let ?host = "get_str ''host'' [] params" and ?app = "get_str ''app'' [] params"
  note d = assms [unfolded client_start_def client_start_with_def]
  show thesis
  proof (cases "validate_stream_settings ?sv")
    case (Inl e)
    then have "code = fst e \<and> r = JNull \<and> w' = w" using d by (cases e) (simp add: err_reply_def)
    then show thesis using refused validate_error [OF Inl] by simp
  next
    case v: (Inr settings)
    show thesis
    proof (cases "?host = [] \<or> ?app = []")
      case True
      then have "code = ''bad_params'' \<and> r = JNull \<and> w' = w" using d v by (auto simp: err_reply_def Let_def split: if_splits)
      then show thesis using refused by simp
    next
      case False
      then obtain c w1 where c: "connect_paired_host env ?host w = Some (c, w1)"
        using d v by (auto simp: Let_def bind_eq_Some_conv)
      show thesis
      proof (cases c)
        case (Inl e)
        then have "code = fst e \<and> r = JNull \<and> w' = w1" using d v False c by (cases e) (auto simp: err_reply_def Let_def)
        then show thesis using unreachable connect_paired_Inl [of env ?host w "fst e" "snd e" w1] c Inl by auto
      next
        case cl: (Inr cl)
        then obtain info w2 where i: "cw_get env True cl ''serverinfo'' w1 = Some (info, w2)"
          using d v False c by (auto simp: Let_def bind_eq_Some_conv)
        have s2: "cw_session w2 = cw_session w"
          using cw_get_frame(1) [OF i] connect_paired_Inr [OF c [unfolded cl]] by metis
        show thesis
        proof (cases "info = [] \<or> xml_attr info ''root'' ''status_code'' \<noteq> ''200''")
          case True
          then have "code = ''host_unreachable'' \<and> r = JNull \<and> w' = w2" using d v False c cl i by (auto simp: err_reply_def Let_def)
          then show thesis using unreachable s2 by simp
        next
          case ok: False
          then obtain a w3 where a: "start_app_id env cl ?host ?app w2 = Some (a, w3)"
            using d v False c cl i by (auto simp: Let_def bind_eq_Some_conv)
          note fr = start_app_id_frame [OF a]
          show thesis
          proof (cases a)
            case (Inl e)
            then have "code = fst e \<and> r = JNull \<and> w' = w3" using d v False c cl i ok a by (cases e) (auto simp: err_reply_def Let_def)
            then show thesis using unreachable fr s2 Inl by (cases e) auto
          next
            case (Inr appId)
            then have "start_launch env params settings ?host cl appId info w3 = Some ((r, code, m), w')"
              using d v False c cl i ok a by (auto simp: Let_def)
            then show thesis using launched [OF v c [unfolded cl] i a [unfolded Inr]] by simp
          qed
        qed
      qed
    qed
  qed
qed

text \<open>
  C2. A stream starts only at a host that was paired or trusted, with sane settings and on a free
  session: whenever \<^verbatim>\<open>client.start\<close> reports success, the host is in the registry, a TLS peer presented
  the certificate registered for it, the settings were validated and are in bounds, no stream was
  running and no worker was left over, and the worker now set up has exactly those settings, a
  16-byte input key and a session URL.
\<close>

theorem client_start_sound:
  assumes "client_start env params w = Some ((r, [], m), w')"
  shows "\<exists>paired settings si net p ch ccert ckey pinned.
           find_host (ce_dir env) (get_str ''host'' [] params) (cw_fs w) = Some paired
         \<and> validate_stream_settings (case jfind ''settings'' params of Some sv \<Rightarrow> sv | None \<Rightarrow> JNull) = Inr settings
         \<and> in_bounds settings
         \<and> net \<in> set (cw_nets w) \<and> tls_connect net ccert ckey = Some (Some p, ch)
         \<and> pem_cert (ce_ssl env) (serverCertPem paired) = Some pinned \<and> x509_same (ce_ssl env) p pinned
         \<and> \<not> ses_running (cw_session w) \<and> ses_worker (cw_session w) = NoThread
         \<and> ses_worker (cw_session w') = Setup si \<and> si_host si = get_str ''host'' [] params \<and> si_settings si = settings
         \<and> length (si_riKey si) = 16 \<and> si_rtspSessionUrl si \<noteq> []
         \<and> r = obj [(''started'', JBool True)]"
  using assms
proof (cases rule: client_start_cases)
  case (launched settings cl w1 w2 w3 info appId)
  obtain paired where p: "find_host (ce_dir env) (get_str ''host'' [] params) (cw_fs w) = Some paired"
    "pinnedServerCert cl = serverCertPem paired" "cw_session w1 = cw_session w" "set (cw_nets w1) \<subseteq> set (cw_nets w)"
    by (rule connect_paired_Inr [OF launched(2)])
  have w3: "cw_session w3 = cw_session w" "set (cw_nets w3) \<subseteq> set (cw_nets w)"
    using start_app_id_frame [OF launched(4)] cw_get_frame [OF launched(3)] p(3,4) by auto
  from start_launch_cases [OF launched(5)] w3 p(1,2) launched(1) validate_ok [OF launched(1)]
  show ?thesis by (simp only: if_True refl) blast
qed simp_all

text \<open>
  A failing \<^verbatim>\<open>client.start\<close> leaves the stream alone: every error answer has one of the documented
  codes and no result, the session is unchanged, a refused request or an unpaired host touches
  neither the network nor the files, and \<^verbatim>\<open>engine_busy\<close> is only reported while a stream is running.
\<close>

theorem client_start_errors:
  assumes "client_start env params w = Some ((r, code, m), w')" "code \<noteq> []"
  shows "r = JNull \<and> cw_session w' = cw_session w
         \<and> code \<in> {''bad_params'', ''not_paired'', ''internal'', ''host_unreachable'', ''app_not_found'', ''engine_busy''}
         \<and> (code \<in> {''bad_params'', ''not_paired''} \<longrightarrow> w' = w)
         \<and> (code = ''engine_busy'' \<longrightarrow> ses_running (cw_session w))"
  using assms(1)
proof (cases rule: client_start_cases)
  case refused
  then show ?thesis by simp
next
  case unreachable
  then show ?thesis by auto
next
  case (launched settings cl w1 w2 w3 info appId)
  have "cw_session w1 = cw_session w" by (rule connect_paired_Inr [OF launched(2)])
  then have "cw_session w3 = cw_session w"
    using start_app_id_frame [OF launched(4)] cw_get_frame [OF launched(3)] by simp
  then show ?thesis using start_launch_cases [OF launched(5)] assms(2) by auto
qed

lemma make_ri_key_id_range: "0 \<le> make_ri_key_id four \<and> make_ri_key_id four < 2 ^ 31"
proof -
  have "uint (w AND 0x7fffffff) < 2 ^ 31" for w :: "32 word"
  proof -
    have "w AND 0x7fffffff = take_bit 31 w" by (simp add: take_bit_eq_mask mask_numeral)
    then show ?thesis by (simp only: unsigned_take_bit_eq) (simp add: take_bit_eq_mod)
  qed
  then show ?thesis by (simp add: make_ri_key_id_def Let_def)
qed

lemma ri_iv_word:
  assumes "0 \<le> i" "i < 2 ^ 31" shows "uint (header_word (rev (take 4 (ri_iv i)))) = i"
proof -
  have "rev (take 4 (ri_iv i)) = frame_header (of_int i)"
    by (simp add: ri_iv_def frame_header_def Let_def)
  then have "uint (header_word (rev (take 4 (ri_iv i)))) = uint (of_int i :: 32 word)" by simp
  also have "\<dots> = i" using assms by (simp add: uint_word_of_int)
  finally show ?thesis .
qed

lemma to_hex_no_amp: "CHR ''&'' \<notin> set (to_hex bs)"
proof -
  have "hex_digit (CHR ''&'') = None" by (simp add: hex_digit_def byte_of_def)
  then have "hex_char d \<noteq> CHR ''&''" if "d < 16" for d using hex_digit_hex_char [OF that] by auto
  moreover have "byte_of c div 16 < 16" for c by (rule less_mult_imp_div_less) (use byte_of_less_256 [of c] in simp)
  ultimately show ?thesis by (induction bs) (auto dest: sym)
qed

text \<open>A request over TLS that brought a body was sent whole, its arguments included.\<close>

lemma https_sends:
  assumes "get_https ssl cl command args net = Some (body, out)" "body \<noteq> []"
  shows "\<exists>before after. out = before @ args @ after"
proof -
  let ?target = "build_request_target command (cl_uniqueId cl) (random_uuid_hex (rand16 net)) args"
  define req where "req = ''GET '' @ ?target @ '' HTTP/1.1'' @ crlf @ ''Host: '' @ cl_host cl @ '':'' @ to_string (httpsPort cl)
                  @ crlf @ ''Connection: close'' @ crlf @ crlf"
  have nil: "parse_http_response [] = Some no_response" by (simp add: parse_http_response_def)
  obtain ch raw resp where x: "exchange ch req = (out, raw)" "parse_http_response raw = Some resp" "rsp_body resp = body"
    using assms unfolding req_def
    by (auto simp: get_https_def request_def Let_def nil no_response_def split: option.splits if_splits prod.splits)
  have "raw \<noteq> []" using x assms(2) nil by (auto simp: no_response_def)
  obtain c' ok where c: "pipe_write ch req = (c', ok)" by force
  have "ok" "out = sent c'" using x(1) c \<open>raw \<noteq> []\<close> by (auto simp: exchange_def send_all_def split: if_splits)
  then obtain k where "out = sent ch @ take k req" "length req \<le> k" using pipe_write_spec [OF c] by blast
  then have out: "out = sent ch @ req" by simp
  obtain t u where "?target = t @ args @ u"
    unfolding build_request_target_def Let_def by (cases "args = []") (metis append_Nil append_Nil2, metis append.assoc append_Nil2)
  then have "\<exists>before after. req = before @ args @ after" unfolding req_def by (metis append.assoc)
  then show ?thesis unfolding out by (metis append.assoc)
qed

text \<open>The key and its id stand in front of whatever else a query carries, so nothing can hide them.\<close>

lemma ri_in_query:
  assumes "CHR ''&'' \<notin> set (riKeyHex cfg)" "args = build_launch_args cfg \<or> args = build_resume_args cfg"
  shows "query_params args ''rikey'' = Some (riKeyHex cfg)" "query_params args ''rikeyid'' = Some (to_string (riKeyId cfg))"
proof -
  define key where "key q = ''rikey'' @ CHR ''='' # riKeyHex cfg @ CHR ''&'' # ''rikeyid'' @ CHR ''='' # to_string (riKeyId cfg) @ CHR ''&'' # q" for q
  have key: "query_params (key q) = (query_params q)(''rikeyid'' \<mapsto> to_string (riKeyId cfg), ''rikey'' \<mapsto> riKeyHex cfg)" for q
    using query_params_Cons [of "''rikey''" "riKeyHex cfg" "''rikeyid'' @ CHR ''='' # to_string (riKeyId cfg) @ CHR ''&'' # q"]
      query_params_Cons [of "''rikeyid''" "to_string (riKeyId cfg)" q] assms(1) by (simp add: key_def to_string_plain)
  have "\<exists>q. build_resume_args cfg = key q"
    by (simp add: build_resume_args_def key_def)
  moreover have "\<exists>q. build_launch_args cfg = ''appid'' @ CHR ''='' # to_string (lc_appId cfg) @ CHR ''&'' # ''mode'' @ CHR ''='' # mode_of cfg
      @ CHR ''&'' # ''additionalStates'' @ CHR ''='' # ''1'' @ CHR ''&'' # ''sops'' @ CHR ''='' # flag (lc_sops cfg) @ CHR ''&'' # key q"
    by (simp add: build_launch_args_def key_def mode_of_def kHdrQuery_def)
  moreover have "query_params (''appid'' @ CHR ''='' # to_string (lc_appId cfg) @ CHR ''&'' # ''mode'' @ CHR ''='' # mode_of cfg
      @ CHR ''&'' # ''additionalStates'' @ CHR ''='' # ''1'' @ CHR ''&'' # ''sops'' @ CHR ''='' # flag (lc_sops cfg) @ CHR ''&'' # q)
    = (query_params q)(''sops'' \<mapsto> flag (lc_sops cfg), ''additionalStates'' \<mapsto> ''1'', ''mode'' \<mapsto> mode_of cfg, ''appid'' \<mapsto> to_string (lc_appId cfg))" for q
    using query_params_Cons [of "''appid''" "to_string (lc_appId cfg)" "''mode'' @ CHR ''='' # mode_of cfg
      @ CHR ''&'' # ''additionalStates'' @ CHR ''='' # ''1'' @ CHR ''&'' # ''sops'' @ CHR ''='' # flag (lc_sops cfg) @ CHR ''&'' # q"]
      query_params_Cons [of "''mode''" "mode_of cfg" "''additionalStates'' @ CHR ''='' # ''1'' @ CHR ''&'' # ''sops'' @ CHR ''='' # flag (lc_sops cfg) @ CHR ''&'' # q"]
      query_params_Cons [of "''additionalStates''" "''1''" "''sops'' @ CHR ''='' # flag (lc_sops cfg) @ CHR ''&'' # q"]
      query_params_Cons [of "''sops''" "flag (lc_sops cfg)" q]
    by (simp add: to_string_plain mode_plain flag_plain)
  ultimately show "query_params args ''rikey'' = Some (riKeyHex cfg)" "query_params args ''rikeyid'' = Some (to_string (riKeyId cfg))"
    using assms(2) key by auto
qed

text \<open>What stands behind a successful launch: the session handed over, and the exchange with the host.\<close>

lemma launch_exchange:
  assumes "start_launch env params settings host cl appId info w = Some ((r, [], m), w')"
  obtains si net verb args body out lc four where
    "ses_worker (cw_session w') = Setup si" "net \<in> set (cw_nets w)" "verb \<in> {''launch'', ''resume''}"
    "get_https (ce_ssl env) cl verb args net = Some (body, out)" "body \<noteq> []" "si_rtspSessionUrl si = xml_text body ''sessionUrl0''"
    "args = build_launch_args lc \<or> args = build_resume_args lc" "riKeyHex lc = to_hex (si_riKey si)" "riKeyId lc = si_riKeyId si"
    "length (si_riKey si) = 16" "si_riKeyId si = make_ri_key_id four"
proof -
  obtain key w1 four w2 where k: "cw_random 16 w = (key, w1)" "cw_random 4 w1 = (four, w2)" by force
  have fr: "cw_nets w2 = cw_nets w" using cw_random_frame [OF k(1)] cw_random_frame [OF k(2)] by simp
  define net where "net = (case cw_nets w2 of [] \<Rightarrow> dead_net | n # _ \<Rightarrow> n)"
  define lc where "lc = start_launch_config env settings appId (xml_text info ''GfeVersion'') key (make_ri_key_id four)"
  define cg where "cg = atoi (xml_text info ''currentgame'')"
  note d = assms [unfolded launch_stream_def start_stream_def Let_def k prod.case, folded net_def lc_def cg_def]
  have len: "length key = 16" using d by (auto simp: err_reply_def split: if_splits)
  then obtain l out where l: "launch_or_resume (ce_ssl env) cl lc cg net = Some (l, out)" using d by (auto simp: bind_eq_Some_conv)
  have ok: "lr_ok l" using d len l by (auto simp: err_reply_def split: if_splits)
  define si where "si = \<lparr>si_host = host, serverAppVersion = xml_text info ''appversion'', si_gfeVersion = xml_text info ''GfeVersion'',
      si_rtspSessionUrl = rtspSessionUrl l, serverCodecModeSupport = atoi (xml_text info ''ServerCodecModeSupport''),
      si_settings = settings, si_riKey = key, si_riKeyId = make_ri_key_id four, embedWindow = get_bool ''embedWindow'' False params\<rparr>"
  obtain ses where s: "session_start si (cw_session w2) = (None, ses)" "\<not> crashed ses" "cw_session w' = ses"
    using d len l ok unfolding si_def by (auto simp: err_reply_def ok_reply_def split: if_splits prod.splits option.splits)
  have new: "ses_worker (cw_session w') = Setup si" using session_start_ok [OF s(1,2)] s(3) by simp
  let ?verb = "if cg \<noteq> 0 then ''resume'' else ''launch''" and ?args = "if cg \<noteq> 0 then build_resume_args lc else build_launch_args lc"
  obtain body where g: "get_https (ce_ssl env) cl ?verb ?args net = Some (body, out)" "xml_attr body ''root'' ''status_code'' = ''200''"
    "rtspSessionUrl l = xml_text body ''sessionUrl0''" "rtspSessionUrl l \<noteq> []" and "\<exists>p ch ccert ckey. tls_connect net ccert ckey = Some (Some p, ch)"
    using launch_ok_pinned [OF l ok] by metis
  then have "net \<in> set (cw_nets w)" using fr by (auto simp: net_def dead_net_def split: list.splits)
  moreover have "xml_text [] ''sessionUrl0'' = []" by code_simp
  then have "body \<noteq> []" using g(3,4) by auto
  ultimately show thesis
    using that [of si net ?verb ?args body out lc four] new g len
    by (simp add: si_def lc_def start_launch_config_def)
qed

text \<open>
  C22. The input key agrees on both channels of every stream that starts.  Whenever \<^verbatim>\<open>client.start\<close> succeeds, the
  launch or resume query that was sent to the host and answered with the session URL carries a \<^verbatim>\<open>rikey\<close> that decodes to the
  very key with which the worker now set up will configure the stream, and a \<^verbatim>\<open>rikeyid\<close> that is the
  big-endian number in the first four bytes of the initialization vector it will configure; key and vector have 16
  bytes, the id is never negative, and no other parameter of the query can hide the two.
\<close>

theorem ri_key_agreement:
  assumes "client_start env params w = Some ((r, [], m), w')"
  shows "\<exists>si cl net verb args body out before after.
           ses_worker (cw_session w') = Setup si
         \<and> net \<in> set (cw_nets w) \<and> verb \<in> {''launch'', ''resume''}
         \<and> get_https (ce_ssl env) cl verb args net = Some (body, out) \<and> out = before @ args @ after
         \<and> si_rtspSessionUrl si = xml_text body ''sessionUrl0''
         \<and> (let q = query_params args; cfg = stream_config si
            in map_option from_hex (q ''rikey'') = Some (remoteInputAesKey cfg)
               \<and> map_option atoi (q ''rikeyid'') = Some (uint (header_word (rev (take 4 (remoteInputAesIv cfg)))))
               \<and> map_option atoi (q ''rikeyid'') = Some (si_riKeyId si)
               \<and> length (remoteInputAesKey cfg) = 16 \<and> length (remoteInputAesIv cfg) = 16 \<and> 0 \<le> si_riKeyId si)"
  using assms
proof (cases rule: client_start_cases)
  case (launched settings cl w1 w2 w3 info appId)
  have nets: "set (cw_nets w3) \<subseteq> set (cw_nets w)"
    using start_app_id_frame [OF launched(4)] cw_get_frame [OF launched(3)] connect_paired_Inr [OF launched(2)] by (metis subset_trans)
  obtain si net verb args body out lc four where l: "ses_worker (cw_session w') = Setup si" "net \<in> set (cw_nets w3)" "verb \<in> {''launch'', ''resume''}"
    "get_https (ce_ssl env) cl verb args net = Some (body, out)" "body \<noteq> []" "si_rtspSessionUrl si = xml_text body ''sessionUrl0''"
    "args = build_launch_args lc \<or> args = build_resume_args lc" "riKeyHex lc = to_hex (si_riKey si)" "riKeyId lc = si_riKeyId si"
    "length (si_riKey si) = 16" "si_riKeyId si = make_ri_key_id four"
    by (rule launch_exchange [OF launched(5)])
  have "CHR ''&'' \<notin> set (riKeyHex lc)" by (simp add: l(8) to_hex_no_amp)
  note q = ri_in_query [OF this l(7), unfolded l(8,9)]
  have id: "0 \<le> si_riKeyId si" "si_riKeyId si < 2 ^ 31" using make_ri_key_id_range l(11) by simp_all
  then have "atoi (to_string (si_riKeyId si)) = si_riKeyId si" by (simp add: atoi_to_string)
  moreover have "uint (header_word (rev (take 4 (ri_iv (si_riKeyId si))))) = si_riKeyId si" using id by (rule ri_iv_word)
  moreover have "length (ri_iv (si_riKeyId si)) = 16" by (simp add: ri_iv_def Let_def)
  ultimately have agree: "let q = query_params args; cfg = stream_config si
            in map_option from_hex (q ''rikey'') = Some (remoteInputAesKey cfg)
               \<and> map_option atoi (q ''rikeyid'') = Some (uint (header_word (rev (take 4 (remoteInputAesIv cfg)))))
               \<and> map_option atoi (q ''rikeyid'') = Some (si_riKeyId si)
               \<and> length (remoteInputAesKey cfg) = 16 \<and> length (remoteInputAesIv cfg) = 16 \<and> 0 \<le> si_riKeyId si"
    using l(10) id(1) unfolding Let_def q stream_config_def by (simp add: from_hex_to_hex)
  obtain before after where "out = before @ args @ after" using https_sends [OF l(4,5)] by blast
  then show ?thesis using l(1-4,6) nets agree by blast
qed simp_all

text \<open>
  Trusting a host makes it known with exactly that certificate: after a successful
  \<^verbatim>\<open>client.trustHost\<close> a connection to the host is never refused as not paired, the client it is given
  is pinned to the certificate of the request, and the pins of all other hosts are unchanged.
\<close>

theorem trust_host_pins:
  assumes "client_trust_host env params w = Some ((r, [], m), w')" "prompt_errors (cw_fs w)"
  shows "(\<forall>res w2. connect_paired_host env (get_str ''host'' [] params) w' = Some (res, w2) \<longrightarrow>
            (case res of Inl (code, msg) \<Rightarrow> code \<noteq> ''not_paired''
             | Inr cl \<Rightarrow> pinnedServerCert cl = get_str ''serverCertPem'' [] params))
         \<and> (\<forall>a. a \<noteq> get_str ''host'' [] params \<longrightarrow> find_host (ce_dir env) a (cw_fs w') = find_host (ce_dir env) a (cw_fs w))"
proof -
  let ?host = "get_str ''host'' [] params"
  let ?h = "\<lparr>address = ?host, host_name = get_str ''name'' [] params, serverCertPem = get_str ''serverCertPem'' [] params\<rparr>"
  have u: "upsert_host (ce_dir env) ?h (cw_fs w) = (cw_fs w', True)"
    using assms(1) by (auto simp: client_trust_host_def err_reply_def ok_reply_def Let_def split: if_splits prod.splits bool.splits)
  have f: "find_host (ce_dir env) a (cw_fs w') = (if a = ?host then Some ?h else find_host (ce_dir env) a (cw_fs w))" for a
    using store.lookup_upsert [OF u assms(2)] by simp
  have "case res of Inl (code, msg) \<Rightarrow> code \<noteq> ''not_paired'' | Inr cl \<Rightarrow> pinnedServerCert cl = get_str ''serverCertPem'' [] params"
    if c: "connect_paired_host env ?host w' = Some (res, w2)" for res w2
  proof (cases res)
    case (Inr cl)
    obtain paired where "find_host (ce_dir env) ?host (cw_fs w') = Some paired" "pinnedServerCert cl = serverCertPem paired"
      by (rule connect_paired_Inr [OF c [unfolded Inr]])
    then show ?thesis using Inr f by auto
  next
    case (Inl e)
    then show ?thesis
      using c f [of ?host] by (auto simp: connect_paired_host_def Let_def bind_eq_Some_conv split: prod.splits option.splits if_splits)
  qed
  then show ?thesis using f by simp
qed

section \<open>A run\<close>

text \<open>A store with one paired host, and a host that answers.\<close>

definition demo_env :: "(string, string) client_env" where
  "demo_env = \<lparr>ce_dir = ''/s'', ce_made = None, ce_uid = None, ce_ssl = toy_ssl, ce_crypto = toy_crypto, ce_extra = []\<rparr>"

definition demo_store :: fsys where
  "demo_store = blank_fs\<lparr>files := [''/s/client.crt'' \<mapsto> ''C'', ''/s/client.key'' \<mapsto> ''K'', ''/s/uniqueid'' \<mapsto> ''u'',
     ''/s/hosts.json'' \<mapsto> dump (JArr [host_json \<lparr>address = ''h'', host_name = ''n'', serverCertPem = ''CERT''\<rparr>])]\<rparr>"

definition demo_xml :: "string \<Rightarrow> string" where
  "demo_xml x = ''<root status_code='' @ [CHR 0x22] @ ''200'' @ [CHR 0x22] @ ''>'' @ x @ ''</root>''"

definition demo_client_world :: "(string, string) client_world" where
  "demo_client_world = \<lparr>cw_fs = demo_store,
     cw_nets = map (toy_net \<circ> demo_xml) [[], [], ''<sessionUrl0>r</sessionUrl0>''],
     cw_rands = [Some (\<lambda>_. CHR ''a''), Some (\<lambda>_. CHR ''b'')], cw_session = new_session\<rparr>"

lemma demo_xml_facts:
  "xml_attr (demo_xml []) ''root'' ''status_code'' = ''200''" "demo_xml [] \<noteq> []" "xml_text (demo_xml []) ''HttpsPort'' = []"
  "xml_attr (demo_xml ''<sessionUrl0>r</sessionUrl0>'') ''root'' ''status_code'' = ''200''"
  "xml_text (demo_xml ''<sessionUrl0>r</sessionUrl0>'') ''sessionUrl0'' = ''r''"
  "xml_text (demo_xml []) ''GfeVersion'' = []" "xml_text (demo_xml []) ''currentgame'' = []"
  "length (demo_xml []) \<le> 4000" "length (demo_xml ''<sessionUrl0>r</sessionUrl0>'') \<le> 4000"
  "demo_xml ''<sessionUrl0>r</sessionUrl0>'' \<noteq> []" "atoi [] = 0" "atoi ''7'' = 7"
  by code_simp+

lemma demo_find: "find_host ''/s'' ''h'' demo_store = Some \<lparr>address = ''h'', host_name = ''n'', serverCertPem = ''CERT''\<rparr>"
proof -
  let ?h = "\<lparr>address = ''h'', host_name = ''n'', serverCertPem = ''CERT''\<rparr>"
  have "parse (dump (JArr [host_json ?h])) = Some (JArr [host_json ?h])"
    by (rule parse_dump) (auto simp: host_json_def)
  moreover have "files demo_store (path_join ''/s'' kHostsFile) = Some (dump (JArr [host_json ?h]))"
    by (simp add: demo_store_def path_join_def kHostsFile_def)
  moreover have "is_object (host_json ?h)" by (simp add: host_json_def)
  ultimately show ?thesis by (simp add: find_host_def read_hosts_def read_file_def)
qed

lemma demo_identity: "load_or_create_identity ''/s'' a b demo_store = (demo_store, Some (\<lparr>certPem = ''C'', keyPem = ''K''\<rparr>, ''u''))"
  by (rule load_persisted)
     (simp add: persisted_def read_file_def demo_store_def path_join_def kCertFile_def kKeyFile_def kUniqueIdFile_def)

lemma demo_get:
  assumes "cw_nets w = toy_net x # ns" "length x \<le> 4000" "https \<Longrightarrow> pinnedServerCert cl = ''CERT''"
  shows "cw_get demo_env https cl cmd w = Some (x, w\<lparr>cw_nets := ns\<rparr>)"
  using toy_net_get [of "with_client cl w" x ns https cmd "[]"] assms
  by (simp add: cw_get_def demo_env_def with_client_def back_from_def)

lemma demo_starts:
  "\<exists>w'. client_start demo_env (obj [(''host'', JStr ''h''), (''app'', JStr ''7'')]) demo_client_world = Some ((obj [(''started'', JBool True)], [], []), w')"
proof -
  let ?p = "obj [(''host'', JStr ''h''), (''app'', JStr ''7'')]"
  let ?i = "demo_xml []" and ?l = "demo_xml ''<sessionUrl0>r</sessionUrl0>''"
  define cl where "cl = set_pinned_server_cert ''CERT'' (new_client ''h'' kDefaultHttpPort kDefaultHttpsPort \<lparr>certPem = ''C'', keyPem = ''K''\<rparr> ''u'')"
  have pin: "pinnedServerCert cl = ''CERT''" by (simp add: cl_def set_pinned_server_cert_def)
  define w1 where "w1 = demo_client_world\<lparr>cw_nets := [toy_net ?i, toy_net ?l]\<rparr>"
  define w2 where "w2 = demo_client_world\<lparr>cw_nets := [toy_net ?l]\<rparr>"
  have dir: "ce_dir demo_env = ''/s''" "cw_fs demo_client_world = demo_store" by (simp_all add: demo_env_def demo_client_world_def)
  have "store_identity demo_env demo_client_world = (Some (\<lparr>certPem = ''C'', keyPem = ''K''\<rparr>, ''u''), demo_client_world)"
    by (simp add: store_identity_def dir demo_identity)
  moreover have "cw_get demo_env False cl ''serverinfo'' demo_client_world = Some (?i, w1)"
    unfolding w1_def by (rule demo_get) (simp_all add: demo_client_world_def demo_xml_facts)
  ultimately have c: "connect_paired_host demo_env ''h'' demo_client_world = Some (Inr cl, w1)"
    by (simp add: connect_paired_host_def dir demo_find cl_def [symmetric] demo_xml_facts)
  have i: "cw_get demo_env True cl ''serverinfo'' w1 = Some (?i, w2)"
    using demo_get [of w1 ?i "[toy_net ?l]" True cl "''serverinfo''"] pin demo_xml_facts by (simp add: w1_def w2_def)
  have a: "start_app_id demo_env cl ''h'' ''7'' w2 = Some (Inr 7, w2)" by (simp add: start_app_id_def demo_xml_facts)
  define key where "key = replicate 16 (CHR ''a'')"
  define w3 where "w3 = w2\<lparr>cw_rands := []\<rparr>"
  have k: "cw_random 16 w2 = (key, w2\<lparr>cw_rands := [Some (\<lambda>_. CHR ''b'')]\<rparr>)"
    by (simp add: cw_random_def w2_def demo_client_world_def random_bytes_def key_def map_replicate_const)
  have k2: "cw_random 4 (w2\<lparr>cw_rands := [Some (\<lambda>_. CHR ''b'')]\<rparr>) = (replicate 4 (CHR ''b''), w3)"
    by (simp add: cw_random_def w3_def random_bytes_def map_replicate_const)
  have net: "cw_nets w3 = [toy_net ?l]" by (simp add: w3_def w2_def)
  have get: "\<exists>out. get_https toy_ssl cl cmd args (toy_net ?l) = Some (?l, out)" for cmd args
    using toy_net_get [of "\<lparr>live_client = cl, nets = [toy_net ?l], rands = []\<rparr>" ?l "[]" True cmd args] pin demo_xml_facts
    by (auto simp: live_get_def split: option.splits prod.splits)
  have "\<exists>out. launch_or_resume toy_ssl cl lc 0 (toy_net ?l) = Some (\<lparr>lr_ok = True, rtspSessionUrl = ''r'', lr_error = []\<rparr>, out)" for lc
  proof -
    obtain out where "get_https toy_ssl cl ''launch'' (build_launch_args lc) (toy_net ?l) = Some (?l, out)" using get by blast
    then show ?thesis unfolding launch_or_resume_def run_launch_def Let_def by (simp add: demo_xml_facts)
  qed
  then obtain out where launch: "launch_or_resume toy_ssl cl (start_launch_config demo_env default_settings 7 [] key (make_ri_key_id (replicate 4 (CHR ''b'')))) 0 (toy_net ?l)
      = Some (\<lparr>lr_ok = True, rtspSessionUrl = ''r'', lr_error = []\<rparr>, out)" by blast
  have free: "cw_session w3 = new_session" by (simp add: w3_def w2_def demo_client_world_def)
  have "length key = 16" by (simp add: key_def)
  then have go: "session_start si new_session = (None, new_session\<lparr>g_sink := True, ses_running := True, stop_requested := False, ses_worker := Setup si\<rparr>)"
    if "si_riKey si = key" "si_rtspSessionUrl si = ''r''" for si
    using that by (simp add: session_start_def new_session_def Let_def)
  have ssl: "ce_ssl demo_env = toy_ssl" by (simp add: demo_env_def)
  have "\<exists>w'. start_launch demo_env ?p default_settings ''h'' cl 7 ?i w2 = Some ((obj [(''started'', JBool True)], [], []), w')"
    unfolding launch_stream_def start_stream_def demo_xml_facts k prod.case Let_def k2 ssl
    by (simp add: net launch demo_xml_facts \<open>length key = 16\<close> free go ok_reply_def) (simp add: new_session_def)
  moreover have "validate_stream_settings JNull = Inr default_settings" by (simp add: validate_stream_settings_def)
  moreover have "get_str ''host'' [] ?p = ''h''" "get_str ''app'' [] ?p = ''7''" "jfind ''settings'' ?p = None" by code_simp+
  ultimately show ?thesis by (simp add: client_start_def client_start_with_def Let_def c i a demo_xml_facts)
qed

section \<open>Witnesses\<close>

theorem client_start_sound_witness:
  "\<exists>w' si. client_start demo_env (obj [(''host'', JStr ''h''), (''app'', JStr ''7'')]) demo_client_world = Some ((obj [(''started'', JBool True)], [], []), w')
     \<and> ses_worker (cw_session w') = Setup si \<and> si_host si = ''h'' \<and> length (si_riKey si) = 16"
proof -
  obtain w' where s: "client_start demo_env (obj [(''host'', JStr ''h''), (''app'', JStr ''7'')]) demo_client_world = Some ((obj [(''started'', JBool True)], [], []), w')"
    using demo_starts by blast
  have "get_str ''host'' [] (obj [(''host'', JStr ''h''), (''app'', JStr ''7'')]) = ''h''" by code_simp
  then show ?thesis using client_start_sound [OF s] s by (simp only:) blast
qed

theorem client_start_errors_witness:
  "let w = demo_client_world\<lparr>cw_fs := blank_fs\<rparr>
   in \<exists>m. client_start demo_env (obj [(''host'', JStr ''h''), (''app'', JStr ''7'')]) w = Some ((JNull, ''not_paired'', m), w)"
proof -
  define w where "w = demo_client_world\<lparr>cw_fs := blank_fs\<rparr>"
  let ?p = "obj [(''host'', JStr ''h''), (''app'', JStr ''7'')]"
  have "validate_stream_settings JNull = Inr default_settings" by (simp add: validate_stream_settings_def)
  moreover have "get_str ''host'' [] ?p = ''h''" "get_str ''app'' [] ?p = ''7''" "jfind ''settings'' ?p = None" by code_simp+
  moreover have "find_host (ce_dir demo_env) ''h'' (cw_fs w) = None"
    by (simp add: w_def find_host_def read_hosts_def read_file_def blank_fs_def)
  ultimately obtain r m w' where s: "client_start demo_env ?p w = Some ((r, ''not_paired'', m), w')"
    by (simp add: client_start_def client_start_with_def connect_paired_host_def err_reply_def Let_def)
  from client_start_errors [OF s] have "r = JNull \<and> w' = w" by simp
  with s show ?thesis unfolding w_def Let_def by blast
qed

theorem ri_key_agreement_witness:
  "\<exists>w' si args. client_start demo_env (obj [(''host'', JStr ''h''), (''app'', JStr ''7'')]) demo_client_world = Some ((obj [(''started'', JBool True)], [], []), w')
     \<and> ses_worker (cw_session w') = Setup si \<and> map_option from_hex (query_params args ''rikey'') = Some (remoteInputAesKey (stream_config si))"
proof -
  obtain w' where s: "client_start demo_env (obj [(''host'', JStr ''h''), (''app'', JStr ''7'')]) demo_client_world = Some ((obj [(''started'', JBool True)], [], []), w')"
    using demo_starts by blast
  then show ?thesis using ri_key_agreement [OF s] unfolding Let_def by blast
qed

theorem trust_host_pins_witness:
  "\<exists>w'. client_trust_host demo_env (obj [(''host'', JStr ''h''), (''serverCertPem'', JStr ''CERT'')]) (demo_client_world\<lparr>cw_fs := blank_fs\<rparr>)
          = Some ((obj [(''trusted'', JBool True)], [], []), w')
     \<and> (\<forall>cl w2. connect_paired_host demo_env ''h'' w' = Some (Inr cl, w2) \<longrightarrow> pinnedServerCert cl = ''CERT'')"
proof -
  define w where "w = demo_client_world\<lparr>cw_fs := blank_fs\<rparr>"
  let ?p = "obj [(''host'', JStr ''h''), (''serverCertPem'', JStr ''CERT'')]"
  let ?h = "\<lparr>address = ''h'', host_name = [], serverCertPem = ''CERT''\<rparr>"
  have g: "get_str ''host'' [] ?p = ''h''" "get_str ''serverCertPem'' [] ?p = ''CERT''" "get_str ''name'' [] ?p = []" by code_simp+
  obtain fs1 where "upsert_host (ce_dir demo_env) ?h blank_fs = (fs1, True)"
    using write_file_healthy [OF blank_fs_healthy(1)] by (simp add: upsert_host_def write_hosts_def Let_def) blast
  then have s: "client_trust_host demo_env ?p w = Some ((obj [(''trusted'', JBool True)], [], []), w\<lparr>cw_fs := fs1\<rparr>)"
    by (simp add: client_trust_host_def g w_def ok_reply_def)
  have "prompt_errors (cw_fs w)" by (simp add: w_def blank_fs_healthy)
  from trust_host_pins [OF s this]
  have "connect_paired_host demo_env ''h'' (w\<lparr>cw_fs := fs1\<rparr>) = Some (Inr cl, w2) \<longrightarrow> pinnedServerCert cl = ''CERT''" for cl w2
    unfolding g by (auto split: sum.splits)
  then show ?thesis using s unfolding w_def by blast
qed

end
