(* ===== verification/EngineMain.thy ===== *)
theory EngineMain
  imports StreamRun HostMain StreamMain
begin

text \<open>
  The engine's two modes as processes: the events of a stream, the registration of the \<^verbatim>\<open>client.*\<close>
  methods and \<^verbatim>\<open>stream_main\<close> (\<^verbatim>\<open>src/src/client/stream_main.cpp\<close>), and the command line dispatch of
  \<^verbatim>\<open>src/src/main.cpp\<close>.  The stream's worker runs beside the request loop: between two requests the
  session moves by steps of its own, which a schedule provides.
\<close>

section \<open>Events\<close>

definition state_event_json :: "state_event \<Rightarrow> jvalue" where
  "state_event_json e =
     obj ([(''phase'', JStr (ev_phase e)), (''reason'', JStr (ev_reason e))]
          @ (if nativeWindow e = [] then [] else [(''nativeWindow'', JStr (nativeWindow e))]))"

definition stats_json :: "stream_stats \<Rightarrow> jvalue" where
  "stats_json st =
     obj [(''framesDecoded'', JNum (double_of_int (uint (st_framesDecoded st)))),
          (''framesPresented'', JNum (double_of_int (uint (st_framesPresented st)))),
          (''decodeErrors'', JNum (double_of_int (uint (st_decodeErrors st)))),
          (''hardware'', JBool (st_hardware st)),
          (''width'', JNum (double_of_int (st_width st))), (''height'', JNum (double_of_int (st_height st))),
          (''rttMs'', JNum (double_of_int (uint (rttMs st)))), (''rttVarMs'', JNum (double_of_int (uint (rttVarMs st))))]"

definition on_state :: "'t itransport \<Rightarrow> 't \<Rightarrow> state_event \<Rightarrow> 't" where
  "on_state ops t e = emit ops t ''stream.state'' (state_event_json e)"

definition on_stats :: "'t itransport \<Rightarrow> 't \<Rightarrow> stream_stats \<Rightarrow> 't" where
  "on_stats ops t st = emit ops t ''stream.stats'' (stats_json st)"

section \<open>Client mode\<close>

text \<open>What the worker and the library do on their own, between the requests and until a join returns.\<close>

record schedule =
  meanwhile :: "nat \<Rightarrow> session \<Rightarrow> session"
  finish :: "session \<Rightarrow> session"

text \<open>The state of the request loop: how many requests were handled, and the world; \<^term>\<open>None\<close> when a
  handler did not return.\<close>

type_synonym ('c, 'k) client_state = "(nat \<times> ('c, 'k) client_world) option"

definition serving :: "schedule \<Rightarrow> ('c, 'k) client_world ohandler \<Rightarrow> ('c, 'k) client_state handler" where
  "serving sch h params st =
     (case st of
        None \<Rightarrow> ((JNull, [], []), None)
      | Some (n, w) \<Rightarrow>
          (case h params (w\<lparr>cw_session := meanwhile sch n (cw_session w)\<rparr>) of
             None \<Rightarrow> ((JNull, [], []), None)
           | Some (r, w') \<Rightarrow> (r, Some (Suc n, w'))))"

definition register_client_methods ::
  "('c, 'k) client_env \<Rightarrow> schedule \<Rightarrow> ('c, 'k) client_state handlers \<Rightarrow> ('c, 'k) client_state handlers" where
  "register_client_methods env sch hs =
     on ''client.stop'' (serving sch (client_stop (finish sch)))
       (on ''client.start'' (serving sch (client_start env))
         (on ''client.trustHost'' (serving sch (client_trust_host env))
           (on ''client.identity'' (serving sch (client_identity_method env))
             (on ''client.pair'' (serving sch (client_pair env))
               (on ''client.apps'' (serving sch (client_apps env))
                 (on ''client.hosts'' (serving sch (client_hosts env)) hs))))))"

text \<open>The exit code, what the request loop sent, and the world; \<^term>\<open>None\<close> when the process keeps serving,
  a handler does not return or the process is aborted.\<close>

definition stream_main ::
  "string \<Rightarrow> posix_env \<Rightarrow> ('c, 'k) client_env \<Rightarrow> schedule \<Rightarrow> string list \<Rightarrow> ('c, 'k) client_world
     \<Rightarrow> (int \<times> bytes \<times> ('c, 'k) client_world) option" where
  "stream_main version sys env sch argv w =
     (let token = ipc_token_from_args argv
      in if token = [] then Some (64, [], w)
         else case connect_local sys token of
                (Inl e, _) \<Rightarrow> Some (69, [], w)
              | (Inr t, _) \<Rightarrow>
                  (case handshake version socket_transport t of
                     (t1, Some e) \<Rightarrow> Some (70, sent t1, w)
                   | (t1, None) \<Rightarrow>
                       (case run socket_transport (register_client_methods env sch []) t1 (Some (0, w)) of
                          Some (t2, Some (n, w2), e) \<Rightarrow>
                            Some (if e = None then 0 else 70, sent t2, w2\<lparr>cw_session := meanwhile sch n (cw_session w2)\<rparr>)
                        | _ \<Rightarrow> None)))"

section \<open>The command line\<close>

text \<open>\<^verbatim>\<open>main\<close>: the exit code, what was printed on the standard output and sent to the launcher, and the
  process table and the world afterwards.  The session is a static object: after \<^verbatim>\<open>main\<close> returns, its
  destructor stops it.\<close>

definition main ::
  "string \<Rightarrow> posix_env \<Rightarrow> host_boot \<Rightarrow> (string \<Rightarrow> 64 word) \<Rightarrow> ('c, 'k) client_env \<Rightarrow> schedule \<Rightarrow> string list
     \<Rightarrow> os \<Rightarrow> ('c, 'k) client_world \<Rightarrow> (int \<times> string \<times> bytes \<times> os \<times> ('c, 'k) client_world) option" where
  "main version sys boot hash env sch argv s w =
     (case argv of
        prog # cmd # rest \<Rightarrow>
          if cmd = ''--version'' \<or> cmd = ''version'' then Some (0, version @ [CHR 0x0A], [], s, w)
          else if cmd = ''--help'' \<or> cmd = ''-h'' \<or> cmd = ''help'' then Some (0, [], [], s, w)
          else if cmd = ''host''
          then map_option (\<lambda>(code, out, s', fs'). (code, [], out, s', w\<lparr>cw_fs := fs'\<rparr>))
                 (host_main version sys boot hash (cmd # rest) s (cw_fs w))
          else if cmd = ''stream''
          then map_option (\<lambda>(code, out, w'). (code, [], out, s, w'\<lparr>cw_session := stop_session (finish sch) (cw_session w')\<rparr>))
                 (stream_main version sys env sch (cmd # rest) w)
          else Some (2, [], [], s, w)
      | _ \<Rightarrow> Some (2, [], [], s, w))"

section \<open>What the worker keeps\<close>

text \<open>A step of the worker or of the library.\<close>

definition background :: "int \<Rightarrow> session \<Rightarrow> session \<Rightarrow> bool" where
  "background graceful s s' \<longleftrightarrow> worker_step s s' \<or> (listening s \<and> (\<exists>e. s' = listener graceful e s))"

text \<open>A schedule only takes such steps, and a join returns when the worker has.\<close>

definition admissible :: "int \<Rightarrow> schedule \<Rightarrow> bool" where
  "admissible graceful sch \<longleftrightarrow>
     (\<forall>n s. (background graceful)\<^sup>*\<^sup>* s (meanwhile sch n s))
     \<and> (\<forall>s. stop_requested s \<and> ses_worker s \<noteq> NoThread \<longrightarrow>
          (background graceful)\<^sup>*\<^sup>* s (finish sch s) \<and> ses_worker (finish sch s) = Finished)"

definition session_ok :: "session \<Rightarrow> bool" where
  "session_ok s \<longleftrightarrow> session_inv s \<and> \<not> crashed s \<and> \<not> joining s"

lemma listener_joining: "joining (listener graceful e s) = joining s"
  by (cases e) (simp_all add: emit_event_frame)

lemma worker_joining: "worker_step s s' \<Longrightarrow> joining s' = joining s"
  by (induction rule: worker_step.induct) (auto simp: worker_ops emit_event_frame split: option.splits)

lemma background_keeps:
  assumes "(background graceful)\<^sup>*\<^sup>* s s'"
  shows "joining s' = joining s" "session_inv s \<Longrightarrow> session_inv s' \<and> crashed s' = crashed s"
proof -
  have "joining s' = joining s \<and> (session_inv s \<longrightarrow> session_inv s' \<and> crashed s' = crashed s)"
    using assms
  proof (induction rule: rtranclp_induct)
    case (step t u)
    then show ?case
      using session_inv_worker [of t u] worker_joining [of t u] by (auto simp: background_def session_inv_listener listener_joining)
  qed simp
  then show "joining s' = joining s" "session_inv s \<Longrightarrow> session_inv s' \<and> crashed s' = crashed s" by blast+
qed

lemma meanwhile_ok: "admissible graceful sch \<Longrightarrow> session_ok s \<Longrightarrow> session_ok (meanwhile sch n s)"
  using background_keeps [of graceful s "meanwhile sch n s"] by (simp add: admissible_def session_ok_def)

lemma stop_session_ok:
  assumes "admissible graceful sch" "session_ok s"
  shows "session_ok (stop_session (finish sch) s) \<and> ses_worker (stop_session (finish sch) s) = NoThread"
proof -
  let ?s = "stop_begin s"
  have inv: "session_inv ?s" "crashed ?s = crashed s"
    using assms(2) session_inv_stop [of s] by (simp_all add: session_ok_def stop_begin_def stop_end_def Let_def)
  show ?thesis
  proof (cases "joining ?s")
    case True
    then have req: "stop_requested ?s" "ses_worker ?s \<noteq> NoThread"
      using assms(2) by (auto simp: session_ok_def stop_begin_def stop_end_def Let_def split: if_splits)
    then have "(background graceful)\<^sup>*\<^sup>* ?s (finish sch ?s)" "ses_worker (finish sch ?s) = Finished"
      using assms(1) by (simp_all add: admissible_def)
    then have "session_inv (stop_end (finish sch ?s))" "\<not> crashed (finish sch ?s)"
      using background_keeps [of graceful ?s "finish sch ?s"] inv assms(2) session_inv_stop_end by (simp_all add: session_ok_def)
    then show ?thesis using True by (simp add: stop_session_def session_ok_def stop_end_def)
  next
    case False
    then show ?thesis
      using inv assms(2) by (auto simp: stop_session_def session_ok_def stop_begin_def stop_end_def Let_def split: if_splits)
  qed
qed

section \<open>What the handlers keep\<close>

lemma start_launch_session:
  assumes "start_launch env params settings host cl appId info w = Some (x, w')"
  shows "cw_session w' = cw_session w
         \<or> (\<exists>si. cw_session w' = snd (session_start si (cw_session w)) \<and> (fst (session_start si (cw_session w)) = None \<longrightarrow> \<not> crashed (cw_session w')))"
proof -
  obtain k w1 where k: "cw_random 16 w = (k, w1)" by force
  obtain f w2 where f: "cw_random 4 w1 = (f, w2)" by force
  have s: "cw_session w2 = cw_session w" using cw_random_frame [OF k] cw_random_frame [OF f] by simp
  show ?thesis
  proof (cases "length k = 16")
    case False
    then show ?thesis using assms s by (auto simp add: launch_stream_def start_stream_def k f err_reply_def Let_def)
  next
    case True
    let ?net = "case cw_nets w2 of [] \<Rightarrow> dead_net | n # _ \<Rightarrow> n"
    let ?lc = "start_launch_config env settings appId (xml_text info ''GfeVersion'') k (make_ri_key_id f)"
    obtain l out where l: "launch_or_resume (ce_ssl env) cl ?lc (atoi (xml_text info ''currentgame'')) ?net = Some (l, out)"
      using assms True by (auto simp: launch_stream_def start_stream_def k f Let_def bind_eq_Some_conv)
    note d = assms [unfolded launch_stream_def start_stream_def k f Let_def prod.case l bind.bind_lunit]
    show ?thesis
    proof (cases "lr_ok l")
      case False
      then show ?thesis using d True s by (auto simp: err_reply_def)
    next
      case ok: True
      let ?si = "\<lparr>si_host = host, serverAppVersion = xml_text info ''appversion'', si_gfeVersion = xml_text info ''GfeVersion'',
        si_rtspSessionUrl = rtspSessionUrl l, serverCodecModeSupport = atoi (xml_text info ''ServerCodecModeSupport''), si_settings = settings,
        si_riKey = k, si_riKeyId = make_ri_key_id f, embedWindow = get_bool ''embedWindow'' False params\<rparr>"
      obtain e ses where ss: "session_start ?si (cw_session w) = (e, ses)" by force
      have "cw_session w' = ses \<and> (e = None \<longrightarrow> \<not> crashed ses)"
        using d True ok s ss by (cases e) (auto simp: err_reply_def ok_reply_def split: if_splits)
      then show ?thesis using ss by (metis fst_conv snd_conv)
    qed
  qed
qed

lemma session_ok_start:
  "session_ok s \<Longrightarrow> fst (session_start si s) = None \<longrightarrow> \<not> crashed (snd (session_start si s)) \<Longrightarrow> session_ok (snd (session_start si s))"
  using session_inv_start [of s si] by (auto simp: session_ok_def session_start_def Let_def split: if_splits)

lemma client_start_ok:
  assumes "client_start env params w = Some (x, w')" "session_ok (cw_session w)"
  shows "session_ok (cw_session w')"
proof -
  obtain r code m where "x = (r, code, m)" by (rule prod_cases3)
  with assms(1) have "client_start env params w = Some ((r, code, m), w')" by simp
  then show ?thesis
  proof (cases rule: client_start_cases)
    case (launched settings cl w1 w2 w3 info appId)
    have "cw_session w1 = cw_session w" by (rule connect_paired_Inr [OF launched(2)])
    then have "cw_session w3 = cw_session w"
      using start_app_id_frame [OF launched(4)] cw_get_frame [OF launched(3)] by simp
    then show ?thesis using start_launch_session [OF launched(5)] assms(2) session_ok_start [of "cw_session w"] by auto
  qed (use assms(2) in simp_all)
qed

lemma connect_paired_frame: "connect_paired_host env host w = Some (x, w') \<Longrightarrow> cw_session w' = cw_session w"
  by (cases x) (auto elim: connect_paired_Inr dest: connect_paired_Inl)

lemma client_frames:
  "client_hosts env p w = Some (r, w') \<Longrightarrow> cw_session w' = cw_session w"
  "client_apps env p w = Some (r, w') \<Longrightarrow> cw_session w' = cw_session w"
  "client_pair env p w = Some (r, w') \<Longrightarrow> cw_session w' = cw_session w"
  "client_identity_method env p w = Some (r, w') \<Longrightarrow> cw_session w' = cw_session w"
  "client_trust_host env p w = Some (r, w') \<Longrightarrow> cw_session w' = cw_session w"
proof -
  show "client_hosts env p w = Some (r, w') \<Longrightarrow> cw_session w' = cw_session w"
    by (simp add: client_hosts_def ok_reply_def)
  show "cw_session w' = cw_session w" if a: "client_apps env p w = Some (r, w')"
  proof (cases "get_str ''host'' [] p = []")
    case True
    then show ?thesis using a by (simp add: client_apps_def err_reply_def Let_def)
  next
    case False
    then obtain c w1 where c: "connect_paired_host env (get_str ''host'' [] p) w = Some (c, w1)"
      using a by (auto simp: client_apps_def Let_def bind_eq_Some_conv)
    show ?thesis
    proof (cases c)
      case (Inl e)
      then show ?thesis using a False c connect_paired_frame [OF c] by (auto simp: client_apps_def err_reply_def Let_def split: prod.splits)
    next
      case (Inr cl)
      then obtain apps err w2 where f: "fetch_apps env cl w1 = Some ((apps, err), w2)"
        using a False c by (auto simp: client_apps_def Let_def bind_eq_Some_conv)
      have "w' = w2" using a False c Inr f by (auto simp: client_apps_def ok_reply_def err_reply_def Let_def split: if_splits)
      then show ?thesis using connect_paired_frame [OF c] fetch_apps_frame [OF f] by simp
    qed
  qed
  show "client_identity_method env p w = Some (r, w') \<Longrightarrow> cw_session w' = cw_session w"
    by (auto simp: client_identity_method_def ok_reply_def err_reply_def split: prod.splits option.splits dest!: store_identity_frame)
  show "client_trust_host env p w = Some (r, w') \<Longrightarrow> cw_session w' = cw_session w"
    by (auto simp: client_trust_host_def ok_reply_def err_reply_def Let_def split: prod.splits if_splits bool.splits)
  show "cw_session w' = cw_session w" if a: "client_pair env p w = Some (r, w')"
  proof (cases "get_str ''host'' [] p = [] \<or> get_str ''pin'' [] p = []")
    case True
    then show ?thesis using a by (auto simp: client_pair_def err_reply_def Let_def)
  next
    case False
    obtain i w1 where i: "store_identity env w = (i, w1)" by force
    show ?thesis
    proof (cases i)
      case None
      then show ?thesis using a False i store_identity_frame [OF i] by (auto simp: client_pair_def err_reply_def Let_def)
    next
      case (Some iu)
      obtain ident uid where iu: "iu = (ident, uid)" by force
      let ?cl = "new_client (get_str ''host'' [] p) kDefaultHttpPort kDefaultHttpsPort ident uid"
      obtain body w2 where g: "cw_get env False ?cl ''serverinfo'' w1 = Some (body, w2)"
        using a False i Some iu by (auto simp: client_pair_def Let_def bind_eq_Some_conv)
      have w2: "cw_session w2 = cw_session w" using cw_get_frame(1) [OF g] store_identity_frame [OF i] by simp
      show ?thesis
      proof (cases "body = [] \<or> xml_attr body ''root'' ''status_code'' \<noteq> ''200''")
        case True
        then show ?thesis using a False i Some iu g w2 by (auto simp: client_pair_def err_reply_def Let_def)
      next
        case ok: False
        let ?port = "atoi (xml_text body ''HttpsPort'')"
        obtain state cert l where
          "pair_with_client (ce_ssl env) (ce_crypto env) ident (get_str ''pin'' [] p) (major_version (xml_text body ''appversion''))
             (with_client (if 0 < ?port then set_https_port ?port ?cl else ?cl) w2) = Some ((state, cert), l)"
          using a False i Some iu g ok by (simp add: client_pair_def Let_def bind_eq_Some_conv) blast
        then show ?thesis
          using a False i Some iu g ok w2
          by (cases state) (simp_all add: client_pair_def err_reply_def ok_reply_def Let_def back_from_def split: prod.splits, auto)
      qed
    qed
  qed
qed

definition client_inv :: "('c, 'k) client_state \<Rightarrow> bool" where
  "client_inv st \<longleftrightarrow> (case st of None \<Rightarrow> True | Some (n, w) \<Rightarrow> session_ok (cw_session w))"

lemma client_inv_serving:
  assumes "admissible graceful sch" "client_inv st"
    and "\<And>w x w'. h p w = Some (x, w') \<Longrightarrow> session_ok (cw_session w) \<Longrightarrow> session_ok (cw_session w')"
  shows "client_inv (snd (serving sch h p st))"
  using assms(2) meanwhile_ok [OF assms(1)]
  by (auto simp: client_inv_def serving_def dest!: assms(3) split: option.splits prod.splits)

lemma client_inv_method:
  assumes "map_of (register_client_methods env sch []) m = Some h" "client_inv st" "admissible graceful sch"
  shows "client_inv (snd (h p st))"
proof -
  have h: "h \<in> serving sch ` {client_stop (finish sch), client_start env, client_trust_host env, client_identity_method env,
      client_pair env, client_apps env, client_hosts env}"
    using assms(1) unfolding register_client_methods_def on_def map_of_map_put fun_upd_apply
    by (auto split: if_split_asm)
  have "session_ok (cw_session w')" if f: "f p w = Some (x, w')" and ok: "session_ok (cw_session w)" and memb:
      "f \<in> {client_stop (finish sch), client_start env, client_trust_host env, client_identity_method env, client_pair env, client_apps env, client_hosts env}"
    for f w x w'
  proof -
    consider "f = client_stop (finish sch)" | "f = client_start env" | "cw_session w' = cw_session w"
      using memb f client_frames [of env p w x w'] by blast
    then show ?thesis
    proof cases
      case 1
      then show ?thesis using f stop_session_ok [OF assms(3) ok] by (auto simp: client_stop_def ok_reply_def)
    next
      case 2
      then show ?thesis using f client_start_ok ok by blast
    qed (use ok in simp)
  qed
  then have "client_inv (snd (serving sch f p st))"
    if "f \<in> {client_stop (finish sch), client_start env, client_trust_host env, client_identity_method env, client_pair env, client_apps env, client_hosts env}" for f
    using that by (intro client_inv_serving [OF assms(3,2)]) blast
  with h show ?thesis by blast
qed

lemma stream_main_result:
  assumes "stream_main version sys env sch argv w = Some (code, out, w')" "admissible graceful sch" "session_ok (cw_session w)"
  shows "session_ok (cw_session w') \<and> code \<in> {0, 64, 69, 70}
         \<and> (code = 64 \<longleftrightarrow> ipc_token_from_args argv = [])
         \<and> (code = 69 \<longleftrightarrow> ipc_token_from_args argv \<noteq> [] \<and> isl (fst (connect_local sys (ipc_token_from_args argv))))
         \<and> (code \<in> {64, 69} \<longrightarrow> out = [] \<and> w' = w)"
proof -
  have served: "session_ok (meanwhile sch n (cw_session w2))"
    if "run socket_transport (register_client_methods env sch []) t (Some (0, w)) = Some (t', Some (n, w2), e)" for t t' n w2 e
  proof -
    have "client_inv (Some (0, w))" using assms(3) by (simp add: client_inv_def)
    then have "client_inv (Some (n, w2))" by (rule run_preserves [OF that]) (rule client_inv_method [OF _ _ assms(2)])
    then show ?thesis using meanwhile_ok [OF assms(2)] by (simp add: client_inv_def)
  qed
  show ?thesis
    using assms(1,3) served
    by (auto simp: stream_main_def Let_def split: if_splits sum.splits option.splits prod.splits)
qed

section \<open>A schedule\<close>

text \<open>A worker whose window cannot be made and whose connection succeeds, driven to its end.\<close>

definition worker_next :: "session \<Rightarrow> session" where
  "worker_next s =
     (case ses_worker s of
        Setup i \<Rightarrow> no_window i s
      | Connecting i v \<Rightarrow> connection_up i v s
      | Looping i v \<Rightarrow> leave_loop False s
      | Leaving c \<Rightarrow> connection_stopped c s
      | Stopped c \<Rightarrow> torn_down c s
      | Emitting e \<Rightarrow> emit_last e s
      | Returning \<Rightarrow> returned s
      | _ \<Rightarrow> s)"

definition idle_schedule :: schedule where
  "idle_schedule = \<lparr>meanwhile = (\<lambda>n s. s), finish = worker_next ^^ 7\<rparr>"

lemma worker_next_step:
  assumes "stop_requested s" shows "worker_step s (worker_next s) \<or> (work_left (ses_worker s) = 0 \<and> worker_next s = s)"
  by (cases "ses_worker s") (use assms in \<open>auto simp: worker_next_def work_left_def intro: worker_step.intros\<close>)

lemma worker_next_iter:
  assumes "stop_requested s" "ses_worker s \<noteq> NoThread"
  shows "worker_step\<^sup>*\<^sup>* s ((worker_next ^^ n) s) \<and> stop_requested ((worker_next ^^ n) s) \<and> ses_worker ((worker_next ^^ n) s) \<noteq> NoThread
         \<and> work_left (ses_worker ((worker_next ^^ n) s)) \<le> work_left (ses_worker s) - n"
proof (induction n)
  case (Suc n)
  let ?t = "(worker_next ^^ n) s"
  show ?case
  proof (cases "worker_step ?t (worker_next ?t)")
    case True
    then show ?thesis using Suc worker_progress [OF True] worker_thread_stays [OF True] by (auto intro: rtranclp.rtrancl_into_rtrancl)
  next
    case False
    then show ?thesis using Suc worker_next_step [of ?t] by auto
  qed
qed (use assms in simp)

lemma idle_admissible: "admissible graceful idle_schedule"
proof -
  have "(background graceful)\<^sup>*\<^sup>* s t" if "worker_step\<^sup>*\<^sup>* s t" for s t
    using that by (rule mono_rtranclp [rule_format, rotated]) (simp add: background_def)
  moreover have "ses_worker ((worker_next ^^ 7) s) = Finished" if "stop_requested s" "ses_worker s \<noteq> NoThread" for s
  proof -
    have "work_left (ses_worker s) \<le> 7" by (simp add: work_left_def split: worker.splits)
    then have "work_left (ses_worker ((worker_next ^^ 7) s)) = 0" using worker_next_iter [OF that, of 7] by simp
    then show ?thesis using worker_next_iter [OF that, of 7] work_left_zero by blast
  qed
  ultimately show ?thesis using worker_next_iter unfolding admissible_def idle_schedule_def by auto
qed

section \<open>A stream that outlives its connection\<close>

definition demo_request :: jvalue where
  "demo_request = obj [(''kind'', JStr ''req''), (''method'', JStr ''client.start''), (''params'', obj [(''host'', JStr ''h''), (''app'', JStr ''7'')])]"

definition demo_sys :: posix_env where
  "demo_sys = \<lparr>env_var = (\<lambda>_. None), open_socket = Inr 3,
     connect_to = (\<lambda>_. Inr ([Data (frame_bytes (dump (hello_msg ''1'')) @ frame_bytes (dump demo_request))], []))\<rparr>"

lemma demo_response_frame: "frame_ok (dump (response 0 (obj [(''started'', JBool True)]) [] []))"
proof -
  have zero: "dump_num (double_of_int 0) = ''0''" using dump_num_int [of 0] to_string_digit(1) by simp
  have "dump (response 0 (obj [(''started'', JBool True)]) [] []) = ''{'' @ escape_to ''id'' @ '':0,'' @ escape_to ''kind'' @ '':''
      @ escape_to ''res'' @ '','' @ escape_to ''ok'' @ '':true,'' @ escape_to ''result'' @ '':{'' @ escape_to ''started'' @ '':true}}''"
    using zero by (simp add: dump_def response_def obj_def less_char_def)
  moreover have "length (escape_to ''id'') + length (escape_to ''kind'') + length (escape_to ''res'') + length (escape_to ''ok'')
      + length (escape_to ''result'') + length (escape_to ''started'') \<le> 1000"
    using length_escape_to [of "''id''"] length_escape_to [of "''kind''"] length_escape_to [of "''res''"] length_escape_to [of "''ok''"]
      length_escape_to [of "''result''"] length_escape_to [of "''started''"] by simp
  ultimately show ?thesis by (simp add: frame_ok_def kMaxFrame_def)
qed

lemma demo_request_frame: "frame_ok (dump demo_request)"
proof -
  have "dump demo_request = ''{'' @ escape_to ''kind'' @ '':'' @ escape_to ''req'' @ '','' @ escape_to ''method'' @ '':'' @ escape_to ''client.start'' @ '','' @ escape_to ''params'' @ '':{''
      @ escape_to ''app'' @ '':'' @ escape_to ''7'' @ '','' @ escape_to ''host'' @ '':'' @ escape_to ''h'' @ ''}}''"
    by (simp add: dump_def demo_request_def obj_def less_char_def)
  then show ?thesis
    using length_escape_to [of "''kind''"] length_escape_to [of "''req''"] length_escape_to [of "''method''"] length_escape_to [of "''client.start''"]
      length_escape_to [of "''params''"] length_escape_to [of "''app''"] length_escape_to [of "''7''"] length_escape_to [of "''host''"]
      length_escape_to [of "''h''"]
    by (simp add: frame_ok_def kMaxFrame_def)
qed

lemma demo_dispatch:
  "\<exists>w'. dispatch (register_client_methods demo_env idle_schedule []) (dump demo_request) (Some (0, demo_client_world))
      = (Some (response 0 (obj [(''started'', JBool True)]) [] []), Some (1, w')) \<and> ses_running (cw_session w')"
proof -
  let ?p = "obj [(''host'', JStr ''h''), (''app'', JStr ''7'')]"
  obtain w' where s: "client_start demo_env ?p demo_client_world = Some ((obj [(''started'', JBool True)], [], []), w')"
    using demo_starts by blast
  have fresh: "session_ok (cw_session demo_client_world)"
    by (simp add: demo_client_world_def new_session_def session_ok_def session_inv_def busy_def listening_def)
  have "\<exists>si. ses_worker (cw_session w') = Setup si"
    using s
  proof (cases rule: client_start_cases)
    case launched
    from start_launch_cases [OF launched(5)] show ?thesis by auto
  qed simp_all
  then have run: "ses_running (cw_session w')"
    using client_start_ok [OF s fresh] by (auto simp: session_ok_def session_inv_def busy_def listening_def)
  have p: "parse (dump demo_request) = Some demo_request" by (rule parse_dump) (auto simp: demo_request_def intro!: wf_obj)
  have f: "is_object demo_request" "get_str ''kind'' [] demo_request = ''req''" "get_str ''method'' [] demo_request = ''client.start''"
    "jfind ''params'' demo_request = Some ?p" "jfind ''id'' demo_request = None"
    unfolding demo_request_def by code_simp+
  have m: "map_of (register_client_methods demo_env idle_schedule []) ''client.start'' = Some (serving idle_schedule (client_start demo_env))"
    unfolding register_client_methods_def on_def map_of_map_put by simp
  have "serving idle_schedule (client_start demo_env) ?p (Some (0, demo_client_world)) = ((obj [(''started'', JBool True)], [], []), Some (1, w'))"
    using s by (simp add: serving_def idle_schedule_def)
  moreover have "cast_u64 (double_of_int 0) = 0" using cast_u64_of_nat [of 0] by (simp add: double_of_int_small)
  ultimately show ?thesis using run by (simp add: dispatch_def p f m get_num_def Let_def)
qed

lemma demo_stream_main:
  "\<exists>out w'. stream_main ''1'' demo_sys demo_env idle_schedule [''stream'', ''--ipc'', ''tok''] demo_client_world = Some (0, out, w')
     \<and> ses_running (cw_session w')"
proof -
  let ?h = "dump (hello_msg ''1'')" and ?r = "dump demo_request" and ?res = "response 0 (obj [(''started'', JBool True)]) [] []"
  let ?hs = "register_client_methods demo_env idle_schedule []"
  let ?t = "\<lparr>handle = 3, rxq = [Data (frame_bytes ?h @ frame_bytes ?r)], txq = [], sent = []\<rparr>"
  have conn: "connect_local demo_sys ''tok'' = (Inr ?t, [])" by (simp add: demo_sys_def connect_local_def socket_path_def sun_path_size_def)
  have h: "frame_ok ?h" by (rule hello_frame_ok) simp
  have "sock_healthy ?t" "conn_rx ?t = frame_bytes ?h @ frame_bytes ?r"
    by (simp_all add: sock_healthy_def conn_rx_def frame_bytes_def frame_header_def)
  then obtain t1 where t1: "write_frame socket_transport ?t ?h = (t1, None)" "conn_rx t1 = frame_bytes ?h @ frame_bytes ?r" "sock_healthy t1"
    using sock.write_frame_ok [OF _ h] by metis
  obtain t2 where t2: "read_frame socket_transport t1 = (t2, Frame ?h)" "conn_rx t2 = frame_bytes ?r" "sock_healthy t2"
    using sock.read_frame_bytes [OF t1(3,2) h] by metis
  have hs: "handshake ''1'' socket_transport ?t = (t2, None)"
    by (simp add: handshake_def t1 t2 handshake_accepts_hello)
  obtain w' where d: "dispatch ?hs ?r (Some (0, demo_client_world)) = (Some ?res, Some (1, w'))" "ses_running (cw_session w')"
    using demo_dispatch by blast
  have serve: "serve ?hs [?r] (Some (0, demo_client_world)) = ([?res], Some (1, w'))" by (simp add: d)
  obtain t3 where "run socket_transport ?hs t2 (Some (0, demo_client_world)) = Some (t3, Some (1, w'), None)"
    using sock.run_serves [OF t2(3), of "[?r]" "[]" ?hs "Some (0, demo_client_world)"] t2(2) demo_request_frame demo_response_frame
    unfolding serve by (auto simp: frames_bytes_def split_frame_def stream_error_def)
  then show ?thesis
    using d(2) by (simp add: stream_main_def conn hs Let_def idle_schedule_def)
qed

text \<open>
  C37. Client mode can return while a stream is still running: a launcher that starts a stream and
  closes its end makes \<^verbatim>\<open>stream_main\<close> return with exit code 0 and the session's worker alive; the server
  it reports its events to is a local object of \<^verbatim>\<open>stream_main\<close>, so that every later event of the worker
  goes to an object that no longer exists.
\<close>

theorem session_outlives_server:
  "\<exists>out w'. stream_main ''1'' demo_sys demo_env idle_schedule [''stream'', ''--ipc'', ''tok''] demo_client_world = Some (0, out, w')
     \<and> ses_running (cw_session w')"
  by (rule demo_stream_main)

end
