(* ===== verification/ClientBuilds.thy ===== *)
theory ClientBuilds
  imports EngineMain
begin

text \<open>
  The \<^verbatim>\<open>client.*\<close> methods of the reduced builds (the other branches of the preprocessor conditions in
  \<^verbatim>\<open>src/src/client/stream_main.cpp\<close>): without OpenSSL there is no identity, registry or channel to a host, and every
  method that needs one answers with an error; with OpenSSL but without the streaming library a
  session is launched at the host but cannot be received.
\<close>

section \<open>Without OpenSSL\<close>

definition bare_hosts :: "'w ohandler" where
  "bare_hosts params w = ok_reply (obj [(''hosts'', JArr [])]) w"

definition bare_apps :: "'w ohandler" where
  "bare_apps params w = ok_reply (obj [(''apps'', JArr [])]) w"

definition bare_pair :: "'w ohandler" where
  "bare_pair params w =
     err_reply ''pairing_failed'' ''engine built without OpenSSL (ASE_WITH_OPENSSL=OFF); pairing unavailable'' w"

definition bare_identity :: "'w ohandler" where
  "bare_identity params w =
     err_reply ''internal'' ''engine built without OpenSSL (ASE_WITH_OPENSSL=OFF); client identity unavailable'' w"

definition bare_trust_host :: "'w ohandler" where
  "bare_trust_host params w =
     err_reply ''internal'' ''engine built without OpenSSL (ASE_WITH_OPENSSL=OFF); host pinning unavailable'' w"

definition bare_start :: "'w ohandler" where
  "bare_start params w =
     (case validate_stream_settings (case jfind ''settings'' params of Some sv \<Rightarrow> sv | None \<Rightarrow> JNull) of
        Inl (code, msg) \<Rightarrow> err_reply code msg w
      | Inr settings \<Rightarrow> err_reply ''not_paired'' ''engine built without OpenSSL; client pairing/streaming unavailable'' w)"

text \<open>Without the streaming library there is no session to stop.\<close>

definition bare_stop :: "'w ohandler" where
  "bare_stop params w = ok_reply (obj [(''stopped'', JBool True)]) w"

section \<open>Without the streaming library\<close>

definition no_stream :: "start_info \<Rightarrow> 'w \<Rightarrow> ((jvalue \<times> string \<times> string) \<times> 'w) option" where
  "no_stream si w =
     err_reply ''internal'' ''engine built without the moonlight client (ASE_LINK_MOONLIGHT=OFF); streaming unavailable'' w"

definition unlinked_start :: "('c, 'k) client_env \<Rightarrow> ('c, 'k) client_world ohandler" where
  "unlinked_start env = client_start_with no_stream (env\<lparr>ce_extra := []\<rparr>)"

section \<open>Registration\<close>

definition register_bare_methods :: "schedule \<Rightarrow> ('c, 'k) client_state handlers \<Rightarrow> ('c, 'k) client_state handlers" where
  "register_bare_methods sch hs =
     on ''client.stop'' (serving sch bare_stop)
       (on ''client.start'' (serving sch bare_start)
         (on ''client.trustHost'' (serving sch bare_trust_host)
           (on ''client.identity'' (serving sch bare_identity)
             (on ''client.pair'' (serving sch bare_pair)
               (on ''client.apps'' (serving sch bare_apps)
                 (on ''client.hosts'' (serving sch bare_hosts) hs))))))"

definition register_unlinked_methods ::
  "('c, 'k) client_env \<Rightarrow> schedule \<Rightarrow> ('c, 'k) client_state handlers \<Rightarrow> ('c, 'k) client_state handlers" where
  "register_unlinked_methods env sch hs =
     on ''client.stop'' (serving sch bare_stop)
       (on ''client.start'' (serving sch (unlinked_start env))
         (on ''client.trustHost'' (serving sch (client_trust_host env))
           (on ''client.identity'' (serving sch (client_identity_method env))
             (on ''client.pair'' (serving sch (client_pair env))
               (on ''client.apps'' (serving sch (client_apps env))
                 (on ''client.hosts'' (serving sch (client_hosts env)) hs))))))"

section \<open>What depends on the build\<close>

text \<open>Nothing before the launch looks at the library's launch parameters.\<close>

lemma extra_irrelevant [simp]:
  "store_identity (env\<lparr>ce_extra := x\<rparr>) = store_identity env" "cw_get (env\<lparr>ce_extra := x\<rparr>) = cw_get env"
  "connect_paired_host (env\<lparr>ce_extra := x\<rparr>) = connect_paired_host env"
  "fetch_apps (env\<lparr>ce_extra := x\<rparr>) = fetch_apps env" "start_app_id (env\<lparr>ce_extra := x\<rparr>) = start_app_id env"
proof -
  show i: "store_identity (env\<lparr>ce_extra := x\<rparr>) = store_identity env" by (simp add: fun_eq_iff store_identity_def)
  show g: "cw_get (env\<lparr>ce_extra := x\<rparr>) = cw_get env" by (simp add: fun_eq_iff cw_get_def)
  show "connect_paired_host (env\<lparr>ce_extra := x\<rparr>) = connect_paired_host env" by (intro ext) (simp only: connect_paired_host_def i g, simp)
  show f: "fetch_apps (env\<lparr>ce_extra := x\<rparr>) = fetch_apps env" by (intro ext) (simp only: fetch_apps_def g)
  show "start_app_id (env\<lparr>ce_extra := x\<rparr>) = start_app_id env" by (intro ext) (simp only: start_app_id_def f)
qed

lemma extra_query: "start_launch_config (env\<lparr>ce_extra := x\<rparr>) s a g k i = (start_launch_config env s a g k i)\<lparr>extraQuery := x\<rparr>"
  by (simp add: start_launch_config_def)

text \<open>The launch and what follows it: the host is asked, and a session it granted is handed on.\<close>

definition ask_host ::
  "(start_info \<Rightarrow> ('c, 'k) client_world \<Rightarrow> ((jvalue \<times> string \<times> string) \<times> ('c, 'k) client_world) option) \<Rightarrow> ('c, 'k) openssl \<Rightarrow> nv_client
     \<Rightarrow> launch_config \<Rightarrow> int \<Rightarrow> ('c, 'k) attempt \<Rightarrow> start_info \<Rightarrow> ('c, 'k) client_world \<Rightarrow> ((jvalue \<times> string \<times> string) \<times> ('c, 'k) client_world) option" where
  "ask_host go ssl cl lc currentGame net si w =
     (case launch_or_resume ssl cl lc currentGame net of
        None \<Rightarrow> None
      | Some (l, _) \<Rightarrow>
          if lr_ok l then go (si\<lparr>si_rtspSessionUrl := rtspSessionUrl l\<rparr>) w else err_reply ''internal'' (lr_error l) w)"

text \<open>Up to the launch the handler does not look at the build: it either ends, with an error
  or without an answer, or asks the host for the same session, but for the extras of the query.\<close>

definition handed ::
  "((start_info \<Rightarrow> ('c, 'k) client_world \<Rightarrow> ((jvalue \<times> string \<times> string) \<times> ('c, 'k) client_world) option) \<Rightarrow> string
       \<Rightarrow> ((jvalue \<times> string \<times> string) \<times> ('c, 'k) client_world) option) \<Rightarrow> ('c, 'k) openssl \<Rightarrow> ('c, 'k) client_world \<Rightarrow> bool" where
  "handed f ssl w \<longleftrightarrow>
     (\<forall>go x. f go x = None)
     \<or> (\<exists>code msg w1. cw_session w1 = cw_session w \<and> code \<notin> {[], ''engine_busy''} \<and> (\<forall>go x. f go x = err_reply code msg w1))
     \<or> (\<exists>cl lc cg net si w1. cw_session w1 = cw_session w \<and> length (si_riKey si) = 16
          \<and> (\<forall>go x. f go x = ask_host go ssl cl (lc\<lparr>extraQuery := x\<rparr>) cg net si w1))"

lemma handed_error:
  "cw_session w1 = cw_session w \<Longrightarrow> code \<notin> {[], ''engine_busy''} \<Longrightarrow> (\<And>go x. f go x = err_reply code msg w1) \<Longrightarrow> handed f ssl w"
  unfolding handed_def by blast

lemma handed_none: "(\<And>go x. f go x = None) \<Longrightarrow> handed f ssl w"
  by (simp add: handed_def)

lemma handed_on:
  "cw_session w1 = cw_session w \<Longrightarrow> length (si_riKey si) = 16 \<Longrightarrow> (\<And>go x. f go x = ask_host go ssl cl (lc\<lparr>extraQuery := x\<rparr>) cg net si w1)
     \<Longrightarrow> handed f ssl w"
  unfolding handed_def by (intro disjI2 exI [of _ cl] exI [of _ lc] exI [of _ cg] exI [of _ net] exI [of _ si] exI [of _ w1]) simp

lemma handed_frame: "handed f ssl w \<Longrightarrow> cw_session w = cw_session v \<Longrightarrow> handed f ssl v"
  by (simp add: handed_def)

lemma handed_launch:
  "handed (\<lambda>hand x. launch_stream hand (env\<lparr>ce_extra := x\<rparr>) params settings host cl appId info w) (ce_ssl env) w"
proof -
  obtain k w1 where k: "cw_random 16 w = (k, w1)" by force
  obtain f w2 where f: "cw_random 4 w1 = (f, w2)" by force
  have s: "cw_session w2 = cw_session w" using cw_random_frame [OF k] cw_random_frame [OF f] by simp
  note d = launch_stream_def k f Let_def prod.case extra_query
  show ?thesis
  proof (cases "length k = 16")
    case False
    show ?thesis by (rule handed_error [OF s, of "''internal''"]) (use False in \<open>simp_all add: d\<close>)
  next
    case True
    let ?net = "case cw_nets w2 of [] \<Rightarrow> dead_net | n # _ \<Rightarrow> n"
    let ?si = "\<lparr>si_host = host, serverAppVersion = xml_text info ''appversion'',
        si_gfeVersion = xml_text info ''GfeVersion'', si_rtspSessionUrl = [],
        serverCodecModeSupport = atoi (xml_text info ''ServerCodecModeSupport''), si_settings = settings,
        si_riKey = k, si_riKeyId = make_ri_key_id f, embedWindow = get_bool ''embedWindow'' False params\<rparr>"
    show ?thesis
    proof (rule handed_on [of "w2\<lparr>cw_nets := tl (cw_nets w2)\<rparr>" w ?si])
      fix go x
      show "launch_stream go (env\<lparr>ce_extra := x\<rparr>) params settings host cl appId info w
          = ask_host go (ce_ssl env) cl ((start_launch_config env settings appId (xml_text info ''GfeVersion'') k (make_ri_key_id f))\<lparr>extraQuery := x\<rparr>)
              (atoi (xml_text info ''currentgame'')) ?net ?si (w2\<lparr>cw_nets := tl (cw_nets w2)\<rparr>)"
        unfolding d ask_host_def
        by (cases "launch_or_resume (ce_ssl env) cl ((start_launch_config env settings appId (xml_text info ''GfeVersion'') k (make_ri_key_id f))\<lparr>extraQuery := x\<rparr>)
              (atoi (xml_text info ''currentgame'')) ?net") (use True in \<open>auto simp del: launch_config.simps\<close>)
    qed (use s True in simp_all)
  qed
qed

lemma handed_start: "handed (\<lambda>hand x. client_start_with hand (env\<lparr>ce_extra := x\<rparr>) params w) (ce_ssl env) w"
proof -
  let ?sv = "case jfind ''settings'' params of Some sv \<Rightarrow> sv | None \<Rightarrow> JNull"
  let ?host = "get_str ''host'' [] params" and ?app = "get_str ''app'' [] params"
  note d = client_start_with_def Let_def
  show ?thesis
  proof (cases "validate_stream_settings ?sv")
    case (Inl e)
    then show ?thesis using validate_error [OF Inl]
      by (cases e) (rule handed_error [of w _ "fst e" _ "snd e"], simp_all add: d)
  next
    case v: (Inr settings)
    consider "?host = [] \<or> ?app = []" | "?host \<noteq> []" "?app \<noteq> []" "connect_paired_host env ?host w = None"
      | e w1 where "?host \<noteq> []" "?app \<noteq> []" "connect_paired_host env ?host w = Some (Inl e, w1)"
      | cl w1 where "?host \<noteq> []" "?app \<noteq> []" "connect_paired_host env ?host w = Some (Inr cl, w1)"
      by (metis option.exhaust prod.exhaust sum.exhaust)
    then show ?thesis
    proof cases
      case 1
      then consider "?host = []" | "?host \<noteq> []" "?app = []" by blast
      then show ?thesis by cases (rule handed_error [of w _ "''bad_params''"]; simp add: d v)+
    next
      case 2
      then show ?thesis by (intro handed_none) (simp add: d v)
    next
      case 3
      then show ?thesis using connect_paired_Inl [of env ?host w "fst e" "snd e" w1]
        by (intro handed_error [of w1 _ "fst e" _ "snd e"]) (auto simp: d v split: prod.splits)
    next
      case 4
      have s1: "cw_session w1 = cw_session w" by (rule connect_paired_frame [OF 4(3)])
      show ?thesis
      proof (cases "cw_get env True cl ''serverinfo'' w1")
        case None
        then show ?thesis using 4 by (intro handed_none) (simp add: d v)
      next
        case (Some iw)
        obtain info w2 where i: "cw_get env True cl ''serverinfo'' w1 = Some (info, w2)" using Some by (cases iw) simp
        have s2: "cw_session w2 = cw_session w" using cw_get_frame(1) [OF i] s1 by simp
        show ?thesis
        proof (cases "info = [] \<or> xml_attr info ''root'' ''status_code'' \<noteq> ''200''")
          case True
          show ?thesis by (rule handed_error [OF s2, of "''host_unreachable''"]) (use True 4 i in \<open>simp_all add: d v\<close>)
        next
          case ok: False
          note start = d v 4 i ok
          consider "start_app_id env cl ?host ?app w2 = None" | e w3 where "start_app_id env cl ?host ?app w2 = Some (Inl e, w3)"
            | appId w3 where "start_app_id env cl ?host ?app w2 = Some (Inr appId, w3)"
            by (metis option.exhaust prod.exhaust sum.exhaust)
          then show ?thesis
          proof cases
            case 1
            then show ?thesis by (intro handed_none) (use ok in \<open>simp add: start\<close>)
          next
            case (2 e w3)
            then have "cw_session w3 = cw_session w" "fst e \<notin> {[], ''engine_busy''}"
              using start_app_id_frame [OF 2] s2 by (auto split: prod.splits)
            then show ?thesis by (rule handed_error [of _ _ _ _ "snd e"]) (use ok 2 in \<open>simp add: start split: prod.splits\<close>)
          next
            case (3 appId w3)
            then have s3: "cw_session w3 = cw_session w" using start_app_id_frame [OF 3] s2 by simp
            show ?thesis
              using handed_frame [OF handed_launch s3, of env params settings ?host cl appId info] ok 3 by (simp add: start)
          qed
        qed
      qed
    qed
  qed
qed

section \<open>The contract of the last part\<close>

text \<open>Every build's last part reports an error only without a result and with the session untouched; so
  does then the whole handler.\<close>

locale hand_off =
  fixes hand :: "start_info \<Rightarrow> ('c, 'k) client_world \<Rightarrow> ((jvalue \<times> string \<times> string) \<times> ('c, 'k) client_world) option"
  assumes keeps: "hand si w = Some ((r, code, msg), w') \<Longrightarrow> code \<noteq> [] \<Longrightarrow> r = JNull \<and> cw_session w' = cw_session w"
begin

lemma errors_keep:
  assumes "client_start_with hand env params w = Some ((r, code, msg), w')" "code \<noteq> []"
  shows "r = JNull \<and> cw_session w' = cw_session w"
  using handed_start [of env params w] unfolding handed_def
proof (elim disjE exE conjE)
  assume a: "\<forall>go x. client_start_with go (env\<lparr>ce_extra := x\<rparr>) params w = None"
  show ?thesis using a [rule_format, of hand "ce_extra env"] assms by simp
next
  fix c msg w1
  assume a: "\<forall>go x. client_start_with go (env\<lparr>ce_extra := x\<rparr>) params w = err_reply c msg w1" and s: "cw_session w1 = cw_session w"
  show ?thesis using a [rule_format, of hand "ce_extra env"] assms s by (simp add: err_reply_def)
next
  fix cl lc cg net si w1
  assume a: "\<forall>go x. client_start_with go (env\<lparr>ce_extra := x\<rparr>) params w = ask_host go (ce_ssl env) cl (lc\<lparr>extraQuery := x\<rparr>) cg net si w1"
    and s: "cw_session w1 = cw_session w"
  have "ask_host hand (ce_ssl env) cl (lc\<lparr>extraQuery := ce_extra env\<rparr>) cg net si w1 = Some ((r, code, msg), w')"
    using a [rule_format, of hand "ce_extra env"] assms(1) by simp
  then show ?thesis using keeps [OF _ assms(2)] s by (fastforce simp: ask_host_def err_reply_def split: option.splits if_splits)
qed

end

interpretation linked: hand_off start_stream
  by unfold_locales (auto simp: start_stream_def session_start_def err_reply_def ok_reply_def Let_def split: if_splits)

interpretation unlinked: hand_off no_stream
  by unfold_locales (simp add: no_stream_def err_reply_def)

lemma registered_names:
  "fst ` set (register_bare_methods sch []) = fst ` set (register_client_methods env sch [])"
  "fst ` set (register_unlinked_methods env sch []) = fst ` set (register_client_methods env sch [])"
  by (simp_all add: register_bare_methods_def register_unlinked_methods_def register_client_methods_def on_def fst_set_map_put)

section \<open>Properties\<close>

text \<open>
  C24. The two builds with OpenSSL agree on \<^verbatim>\<open>client.start\<close> up to the launch, whatever the streaming library's
  launch parameters are.  Either both end before it, with the same answer in the same state (an error, the session
  untouched) or both without an answer; or both ask the same host over the same connection for the same
  session, with queries that differ only in the library's parameters at the end of the full build's, both pass on a
  refusal as \<^verbatim>\<open>internal\<close>, and where the full build starts the granted session the other answers \<^verbatim>\<open>internal\<close>
  and leaves its session untouched.  The build without OpenSSL shares only the check of the settings: it
  repeats the answer to malformed ones and answers anything else \<^verbatim>\<open>not_paired\<close>, in an unchanged world.  All three register the same
  methods.
\<close>

theorem builds_agree:
  "(unlinked_start env params w = client_start env params w
       \<and> (case client_start env params w of None \<Rightarrow> True
          | Some ((r, code, m), w') \<Rightarrow> r = JNull \<and> code \<notin> {[], ''engine_busy''} \<and> cw_session w' = cw_session w)
    \<or> (\<exists>cl lc cg net si w1. cw_session w1 = cw_session w \<and> length (si_riKey si) = 16
          \<and> client_start env params w = ask_host start_stream (ce_ssl env) cl (lc\<lparr>extraQuery := ce_extra env\<rparr>) cg net si w1
          \<and> unlinked_start env params w = ask_host no_stream (ce_ssl env) cl (lc\<lparr>extraQuery := []\<rparr>) cg net si w1
          \<and> build_launch_args (lc\<lparr>extraQuery := ce_extra env\<rparr>) = build_launch_args (lc\<lparr>extraQuery := []\<rparr>) @ ce_extra env
          \<and> build_resume_args (lc\<lparr>extraQuery := ce_extra env\<rparr>) = build_resume_args (lc\<lparr>extraQuery := []\<rparr>) @ ce_extra env))
   \<and> (if isl (validate_stream_settings (case jfind ''settings'' params of Some sv \<Rightarrow> sv | None \<Rightarrow> JNull))
      then bare_start params w = client_start env params w
      else \<exists>msg. bare_start params w = Some ((JNull, ''not_paired'', msg), w))
   \<and> fst ` set (register_bare_methods sch []) = fst ` set (register_client_methods env sch [])
   \<and> fst ` set (register_unlinked_methods env sch []) = fst ` set (register_client_methods env sch [])"
proof (intro conjI registered_names)
  show "if isl (validate_stream_settings (case jfind ''settings'' params of Some sv \<Rightarrow> sv | None \<Rightarrow> JNull))
    then bare_start params w = client_start env params w else \<exists>msg. bare_start params w = Some ((JNull, ''not_paired'', msg), w)"
    by (auto simp: bare_start_def client_start_def client_start_with_def err_reply_def split: sum.splits)
  let ?f = "\<lambda>hand x. client_start_with hand (env\<lparr>ce_extra := x\<rparr>) params w"
  have full: "client_start env params w = ?f start_stream (ce_extra env)" by (simp add: client_start_def)
  have cut: "unlinked_start env params w = ?f no_stream []" by (simp add: unlinked_start_def)
  have args: "build_launch_args (lc\<lparr>extraQuery := x\<rparr>) = build_launch_args (lc\<lparr>extraQuery := []\<rparr>) @ x"
    "build_resume_args (lc\<lparr>extraQuery := x\<rparr>) = build_resume_args (lc\<lparr>extraQuery := []\<rparr>) @ x" for lc x
    by (simp_all add: build_launch_args_def build_resume_args_def Let_def)
  show "unlinked_start env params w = client_start env params w
       \<and> (case client_start env params w of None \<Rightarrow> True
          | Some ((r, code, m), w') \<Rightarrow> r = JNull \<and> code \<notin> {[], ''engine_busy''} \<and> cw_session w' = cw_session w)
    \<or> (\<exists>cl lc cg net si w1. cw_session w1 = cw_session w \<and> length (si_riKey si) = 16
          \<and> client_start env params w = ask_host start_stream (ce_ssl env) cl (lc\<lparr>extraQuery := ce_extra env\<rparr>) cg net si w1
          \<and> unlinked_start env params w = ask_host no_stream (ce_ssl env) cl (lc\<lparr>extraQuery := []\<rparr>) cg net si w1
          \<and> build_launch_args (lc\<lparr>extraQuery := ce_extra env\<rparr>) = build_launch_args (lc\<lparr>extraQuery := []\<rparr>) @ ce_extra env
          \<and> build_resume_args (lc\<lparr>extraQuery := ce_extra env\<rparr>) = build_resume_args (lc\<lparr>extraQuery := []\<rparr>) @ ce_extra env)"
    using handed_start [of env params w] unfolding handed_def
  proof (elim disjE)
    assume a: "\<forall>go x. ?f go x = None"
    show ?thesis using a [rule_format, of start_stream "ce_extra env", folded full] a [rule_format, of no_stream "[]", folded cut] by simp
  next
    assume "\<exists>code msg w1. cw_session w1 = cw_session w \<and> code \<notin> {[], ''engine_busy''} \<and> (\<forall>go x. ?f go x = err_reply code msg w1)"
    then obtain code msg w1 where s: "cw_session w1 = cw_session w" "code \<notin> {[], ''engine_busy''}" and a: "\<forall>go x. ?f go x = err_reply code msg w1"
      by blast
    show ?thesis
      using a [rule_format, of start_stream "ce_extra env", folded full] a [rule_format, of no_stream "[]", folded cut] s by (simp add: err_reply_def)
  next
    assume "\<exists>cl lc cg net si w1. cw_session w1 = cw_session w \<and> length (si_riKey si) = 16
          \<and> (\<forall>go x. ?f go x = ask_host go (ce_ssl env) cl (lc\<lparr>extraQuery := x\<rparr>) cg net si w1)"
    then show ?thesis unfolding full cut using args by (intro disjI2) blast
  qed
qed

theorem builds_agree_witness:
  "\<exists>w' msg w1. client_start demo_env (obj [(''host'', JStr ''h''), (''app'', JStr ''7'')]) demo_client_world = Some ((obj [(''started'', JBool True)], [], []), w')
     \<and> unlinked_start demo_env (obj [(''host'', JStr ''h''), (''app'', JStr ''7'')]) demo_client_world = Some ((JNull, ''internal'', msg), w1)
     \<and> ses_worker (cw_session w1) = NoThread"
proof -
  let ?p = "obj [(''host'', JStr ''h''), (''app'', JStr ''7'')]"
  obtain w' where s: "client_start demo_env ?p demo_client_world = Some ((obj [(''started'', JBool True)], [], []), w')"
    using demo_starts by blast
  have "\<not> (case client_start demo_env ?p demo_client_world of None \<Rightarrow> True
      | Some ((r, code, m), w') \<Rightarrow> r = JNull \<and> code \<notin> {[], ''engine_busy''} \<and> cw_session w' = cw_session demo_client_world)"
    unfolding s by simp
  then obtain cl lc cg net si w1 where a: "cw_session w1 = cw_session demo_client_world"
    "client_start demo_env ?p demo_client_world = ask_host start_stream (ce_ssl demo_env) cl (lc\<lparr>extraQuery := ce_extra demo_env\<rparr>) cg net si w1"
    "unlinked_start demo_env ?p demo_client_world = ask_host no_stream (ce_ssl demo_env) cl (lc\<lparr>extraQuery := []\<rparr>) cg net si w1"
    using builds_agree [of demo_env ?p demo_client_world idle_schedule] by (elim conjE disjE exE) blast+
  have extra: "ce_extra demo_env = []" by (simp add: demo_env_def)
  have "ses_worker (cw_session w1) = NoThread" using a(1) by (simp add: demo_client_world_def new_session_def)
  moreover have "\<exists>msg. unlinked_start demo_env ?p demo_client_world = Some ((JNull, ''internal'', msg), w1)"
    using a(2) unfolding a(3) s extra ask_host_def
    by (auto simp: no_stream_def err_reply_def split: option.splits if_splits)
  ultimately show ?thesis using s by blast
qed

end
