(* ===== verification/HeadlessSession.thy ===== *)
theory HeadlessSession
  imports StreamSession
begin

text \<open>
  The session in the build without a renderer (the other branches of
  \<^verbatim>\<open>src/src/client/stream_session.cpp\<close>): the worker only establishes the connection, with callbacks that
  discard what they are given, and returns; the library keeps the stream alive on its own threads
  until \<^verbatim>\<open>stop\<close>, which then also stops the connection.  Starting, the listener and the request to stop
  are those of \<open>StreamSession\<close>.
\<close>

section \<open>The worker\<close>

text \<open>\<^verbatim>\<open>run\<close> has no window to make: it goes straight to the connection attempt.  When that succeeds the
  worker returns with the session still running.\<close>

definition headless_up :: "session \<Rightarrow> session" where
  "headless_up s = s\<lparr>ses_worker := Finished, connected := True\<rparr>"

definition headless_failed :: "int \<Rightarrow> session \<Rightarrow> session" where
  "headless_failed rc s =
     s\<lparr>ses_running := False,
       ses_worker := Emitting (Some \<lparr>ev_phase = ''error'',
         ev_reason = ''LiStartConnection failed (code '' @ to_string rc @ '')'', nativeWindow = []\<rparr>)\<rparr>"

text \<open>Beside the session stands how often \<^verbatim>\<open>LiStartConnection\<close> succeeded and how often
  \<^verbatim>\<open>LiStopConnection\<close> was called.\<close>

record headless =
  hl_session :: session
  ups :: nat
  stops :: nat

inductive headless_worker :: "headless \<Rightarrow> headless \<Rightarrow> bool" where
  HeadlessOpen: "ses_worker (hl_session h) = Setup i \<Longrightarrow> headless_worker h (h\<lparr>hl_session := no_window i (hl_session h)\<rparr>)"
| HeadlessUp: "ses_worker (hl_session h) = Connecting i v \<Longrightarrow>
    headless_worker h (h\<lparr>hl_session := headless_up (hl_session h), ups := Suc (ups h)\<rparr>)"
| HeadlessFailed: "ses_worker (hl_session h) = Connecting i v \<Longrightarrow> rc \<noteq> 0 \<Longrightarrow>
    headless_worker h (h\<lparr>hl_session := headless_failed rc (hl_session h)\<rparr>)"
| HeadlessEmit: "ses_worker (hl_session h) = Emitting e \<Longrightarrow> headless_worker h (h\<lparr>hl_session := emit_last e (hl_session h)\<rparr>)"
| HeadlessReturned: "ses_worker (hl_session h) = Returning \<Longrightarrow> headless_worker h (h\<lparr>hl_session := returned (hl_session h)\<rparr>)"

section \<open>Stopping\<close>

text \<open>\<^verbatim>\<open>stop\<close> from the join on: a session that still runs stops its connection here.\<close>

definition headless_stop_end :: "headless \<Rightarrow> headless" where
  "headless_stop_end h =
     (let s = stop_end (hl_session h)
      in if ses_running (hl_session h) then h\<lparr>hl_session := s\<lparr>connected := False\<rparr>, stops := Suc (stops h)\<rparr>
         else h\<lparr>hl_session := s\<rparr>)"

definition headless_stop_begin :: "headless \<Rightarrow> headless" where
  "headless_stop_begin h =
     (let s = (hl_session h)\<lparr>stop_requested := True\<rparr>
      in if ses_worker s = NoThread then headless_stop_end (h\<lparr>hl_session := s\<rparr>) else h\<lparr>hl_session := s\<lparr>joining := True\<rparr>\<rparr>)"

text \<open>The library calls back while it connects and as long as the connection is up.\<close>

definition headless_listening :: "session \<Rightarrow> bool" where
  "headless_listening s \<longleftrightarrow> connected s \<or> (case ses_worker s of Connecting _ _ \<Rightarrow> True | _ \<Rightarrow> False)"

inductive headless_step :: "int \<Rightarrow> headless \<Rightarrow> headless \<Rightarrow> bool" for graceful :: int where
  HStart: "\<not> crashed (hl_session h) \<Longrightarrow> \<not> joining (hl_session h) \<Longrightarrow>
    headless_step graceful h (h\<lparr>hl_session := snd (session_start info (hl_session h))\<rparr>)"
| HStopBegin: "\<not> crashed (hl_session h) \<Longrightarrow> \<not> joining (hl_session h) \<Longrightarrow> headless_step graceful h (headless_stop_begin h)"
| HStopEnd: "\<not> crashed (hl_session h) \<Longrightarrow> joining (hl_session h) \<Longrightarrow> ses_worker (hl_session h) = Finished \<Longrightarrow>
    headless_step graceful h (headless_stop_end h)"
| HWorker: "\<not> crashed (hl_session h) \<Longrightarrow> headless_worker h h' \<Longrightarrow> headless_step graceful h h'"
| HCallback: "\<not> crashed (hl_session h) \<Longrightarrow> headless_listening (hl_session h) \<Longrightarrow>
    headless_step graceful h (h\<lparr>hl_session := listener graceful e (hl_session h)\<rparr>)"

definition new_headless :: headless where
  "new_headless = \<lparr>hl_session = new_session, ups = 0, stops = 0\<rparr>"

section \<open>The invariant\<close>

text \<open>The session runs from the start until it failed or was stopped, so also with its worker returned
  and the connection up; every connection that came up is still up or was stopped once.\<close>

definition attempting :: "worker \<Rightarrow> bool" where
  "attempting w \<longleftrightarrow> (case w of Setup _ \<Rightarrow> True | Connecting _ _ \<Rightarrow> True | _ \<Rightarrow> False)"

definition headless_places :: "worker \<Rightarrow> bool" where
  "headless_places w \<longleftrightarrow> (case w of Looping _ _ \<Rightarrow> False | Leaving _ \<Rightarrow> False | Stopped _ \<Rightarrow> False | _ \<Rightarrow> True)"

definition headless_session_inv :: "session \<Rightarrow> bool" where
  "headless_session_inv s \<longleftrightarrow>
     headless_places (ses_worker s)
     \<and> (ses_running s \<longleftrightarrow> attempting (ses_worker s) \<or> connected s)
     \<and> (connected s \<longrightarrow> ses_worker s = Finished)
     \<and> (g_sink s \<longleftrightarrow> ses_worker s \<noteq> NoThread)
     \<and> (joining s \<longrightarrow> stop_requested s \<and> ses_worker s \<noteq> NoThread)
     \<and> \<not> g_video s \<and> \<not> window_up s"

definition headless_inv :: "headless \<Rightarrow> bool" where
  "headless_inv h \<longleftrightarrow> headless_session_inv (hl_session h) \<and> ups h = stops h + of_bool (connected (hl_session h))"

lemmas headless_invs = headless_inv_def headless_session_inv_def attempting_def headless_places_def

lemma headless_inv_worker: "headless_worker h h' \<Longrightarrow> headless_inv h \<Longrightarrow> headless_inv h'"
  by (induction rule: headless_worker.induct)
    (auto simp: headless_invs headless_up_def headless_failed_def no_window_def emit_last_def returned_def emit_event_frame
      split: option.splits)

lemma headless_inv_start:
  "headless_inv h \<Longrightarrow> \<not> crashed (snd (session_start info (hl_session h))) \<Longrightarrow> \<not> joining (hl_session h) \<Longrightarrow>
   headless_inv (h\<lparr>hl_session := snd (session_start info (hl_session h))\<rparr>)"
  by (auto simp: session_start_def headless_invs Let_def split: if_splits)

lemma headless_inv_stop_end: "headless_inv h \<Longrightarrow> ses_worker (hl_session h) = Finished \<Longrightarrow> headless_inv (headless_stop_end h)"
  by (auto simp: headless_stop_end_def stop_end_def headless_invs Let_def)

lemma headless_inv_stop: "headless_inv h \<Longrightarrow> \<not> joining (hl_session h) \<Longrightarrow> headless_inv (headless_stop_begin h)"
  by (auto simp: headless_stop_begin_def headless_stop_end_def stop_end_def headless_invs Let_def)

lemma headless_inv_listener:
  "headless_inv (h\<lparr>hl_session := listener graceful e (hl_session h)\<rparr>) = headless_inv h"
  by (cases e) (simp_all add: headless_inv_def headless_session_inv_def emit_event_frame)

lemma headless_inv_step:
  assumes "headless_step graceful h h'" "headless_inv h" "\<not> crashed (hl_session h')" shows "headless_inv h'"
  using assms
  by (cases rule: headless_step.cases)
    (simp_all add: headless_inv_start headless_inv_stop headless_inv_stop_end headless_inv_listener headless_inv_worker)

lemma headless_crash_is_final: "headless_step graceful h h' \<Longrightarrow> \<not> crashed (hl_session h)"
  by (cases rule: headless_step.cases)

interpretation hl: stream_driver "headless_step graceful" "\<lambda>h. crashed (hl_session h) \<or> headless_inv h" hl_session for graceful
proof unfold_locales
  show "crashed (hl_session h') \<or> headless_inv h'" if "headless_step graceful h h'" "crashed (hl_session h) \<or> headless_inv h" for h h'
    using that headless_crash_is_final headless_inv_step by blast
  show "holds_nothing (hl_session h)"
    if "crashed (hl_session h) \<or> headless_inv h" "\<not> crashed (hl_session h)" "ses_worker (hl_session h) = NoThread" for h
    using that by (auto simp: holds_nothing_def headless_invs)
qed

lemma new_headless_inv: "headless_inv new_headless"
  by (simp add: new_headless_def new_session_def headless_invs)

section \<open>Properties\<close>

text \<open>
  C23. The build without a renderer keeps its connection in step with the library: as long as the engine was
  not terminated, every connection that came up is either the one still up or was stopped exactly
  once; a connection that is up keeps the session running with its worker returned, so that no second
  stream can start over it; and once a stop has completed no connection, sink or thread is left and a
  following valid start spawns exactly one worker.
\<close>

theorem headless_resources:
  assumes "(headless_step graceful)\<^sup>*\<^sup>* new_headless h" "\<not> crashed (hl_session h)"
  shows "ups h = stops h + of_bool (connected (hl_session h))
         \<and> (connected (hl_session h) \<longrightarrow> ses_worker (hl_session h) = Finished
              \<and> session_start info (hl_session h) = (Some ''a stream is already running'', hl_session h)
              \<and> stops (headless_stop_end h) = Suc (stops h) \<and> ses_worker (hl_session (headless_stop_end h)) = NoThread)
         \<and> (ses_worker (hl_session h) = NoThread \<longrightarrow> holds_nothing (hl_session h) \<and> ups h = stops h
              \<and> (valid_start info \<longrightarrow> fst (session_start info (hl_session h)) = None
                   \<and> ses_worker (snd (session_start info (hl_session h))) = Setup info))"
proof -
  have inv: "headless_inv h" using hl.steps [OF assms(1)] new_headless_inv assms(2) by blast
  have new: "crashed (hl_session new_headless) \<or> headless_inv new_headless" using new_headless_inv by blast
  have "holds_nothing (hl_session h)" if "ses_worker (hl_session h) = NoThread" using hl.idle [of h] inv assms(2) that by blast
  moreover have "ses_running (hl_session h)" "ses_worker (hl_session h) = Finished" if "connected (hl_session h)"
    using inv that by (simp_all add: headless_inv_def headless_session_inv_def)
  ultimately show ?thesis
    using inv hl.spawns [OF assms(1) new assms(2), of info]
    by (auto simp: headless_inv_def holds_nothing_def session_start_def headless_stop_end_def stop_end_def Let_def)
qed

theorem headless_resources_witness:
  "\<exists>h. (headless_step 0)\<^sup>*\<^sup>* new_headless h \<and> connected (hl_session h) \<and> ups h = 1 \<and> stops h = 0 \<and> stops (headless_stop_end h) = 1"
proof -
  define i where "i = \<lparr>si_host = ''h'', serverAppVersion = [], si_gfeVersion = [], si_rtspSessionUrl = ''rtsp://h'', serverCodecModeSupport = 0,
    si_settings = default_settings, si_riKey = replicate 16 (CHR ''k''), si_riKeyId = 1, embedWindow = False\<rparr>"
  define h1 where "h1 = new_headless\<lparr>hl_session := snd (session_start i (hl_session new_headless))\<rparr>"
  define h2 where "h2 = h1\<lparr>hl_session := no_window i (hl_session h1)\<rparr>"
  define h3 where "h3 = h2\<lparr>hl_session := headless_up (hl_session h2), ups := Suc (ups h2)\<rparr>"
  note defs = h1_def new_headless_def new_session_def session_start_def i_def no_window_def
  have 1: "headless_step 0 new_headless h1"
    unfolding h1_def by (rule HStart) (simp_all add: new_headless_def new_session_def)
  have w1: "ses_worker (hl_session h1) = Setup i" "\<not> crashed (hl_session h1)" by (simp_all add: defs)
  have 2: "headless_step 0 h1 h2"
    unfolding h2_def by (rule HWorker [OF w1(2)], rule HeadlessOpen [OF w1(1)])
  have w2: "ses_worker (hl_session h2) = Connecting i False" "\<not> crashed (hl_session h2)" using w1 by (simp_all add: h2_def no_window_def)
  have 3: "headless_step 0 h2 h3"
    unfolding h3_def by (rule HWorker [OF w2(2)], rule HeadlessUp [OF w2(1)])
  have run: "(headless_step 0)\<^sup>*\<^sup>* new_headless h3" using 1 2 3 by (meson rtranclp.rtrancl_into_rtrancl rtranclp.rtrancl_refl)
  have c: "connected (hl_session h3)" "\<not> crashed (hl_session h3)" "ups h3 = 1" "stops h3 = 0"
    using w2 by (simp_all add: h3_def headless_up_def h2_def defs)
  show ?thesis using headless_resources [OF run c(2), of i] c run by auto
qed

end
