(* ===== verification/WindowsHost.thy ===== *)
theory WindowsHost
  imports SunshineBackend
begin

text \<open>
  The Windows branches of the host (\<^verbatim>\<open>src/src/host/sunshine_backend.cpp\<close>, \<^verbatim>\<open>src/src/host/host_apps.cpp\<close>) and
  of the store's directory (\<^verbatim>\<open>src/src/net/identity_store.cpp\<close>): paths with drives and two separators, the
  command line handed to \<^verbatim>\<open>CreateProcessA\<close>, and the child behind a process handle.  How a program
  splits its command line into arguments is not this code's: the splitter is a parameter with the
  documented rules it follows, stated as a locale.
\<close>

section \<open>Paths\<close>

definition is_slash :: "char \<Rightarrow> bool" where
  "is_slash c \<longleftrightarrow> c = CHR ''/'' \<or> c = CHR 0x5C"

text \<open>The root name of a \<^verbatim>\<open>std::filesystem::path\<close> on Windows: a drive, or the server of a network path.\<close>

definition root_name_len :: "string \<Rightarrow> nat" where
  "root_name_len p =
     (case p of
        a # b # rest \<Rightarrow>
          if b = CHR '':'' \<and> (a \<in> {CHR ''a''..CHR ''z''} \<or> a \<in> {CHR ''A''..CHR ''Z''}) then 2
          else if is_slash a \<and> is_slash b \<and> rest \<noteq> [] \<and> \<not> is_slash (hd rest)
          then 2 + length (takeWhile (\<lambda>c. \<not> is_slash c) rest)
          else 0
      | _ \<Rightarrow> 0)"

text \<open>\<^verbatim>\<open>parent_path\<close>: past the root name and its separators, the filename goes and the separators before it.\<close>

definition win_parent_path :: "string \<Rightarrow> string" where
  "win_parent_path p =
     (let n = root_name_len p;
          root = take n p @ takeWhile is_slash (drop n p);
          rel = drop (length root) p;
          dir = dropWhile is_slash (dropWhile (\<lambda>c. \<not> is_slash c) (rev rel))
      in root @ rev dir)"

definition win_path_join :: "string \<Rightarrow> string \<Rightarrow> string" where
  "win_path_join p name =
     (if p = [] then name
      else if is_slash (last p) then p @ name
      else if length p = 2 \<and> root_name_len p = 2 then p @ name
      else p @ [CHR 0x5C] @ name)"

definition win_data_dir :: "(string \<Rightarrow> string option) \<Rightarrow> string" where
  "win_data_dir getenv =
     (case getenv ''APPDATA'' of
        Some appdata \<Rightarrow> appdata @ [CHR 0x5C] @ ''ArcadeLauncher'' @ [CHR 0x5C] @ ''StreamEngine''
      | None \<Rightarrow> ''.'')"

definition win_default_apps_path :: "(string \<Rightarrow> string option) \<Rightarrow> string" where
  "win_default_apps_path getenv = win_data_dir getenv @ [CHR 0x5C] @ ''sunshine_apps.json''"

definition win_default_store_dir :: "(string \<Rightarrow> string option) \<Rightarrow> string" where
  "win_default_store_dir getenv =
     (let appdata = (case getenv ''APPDATA'' of Some v \<Rightarrow> v | None \<Rightarrow> [])
      in if appdata \<noteq> [] then win_path_join (win_path_join appdata ''ArcadeLauncher'') ''StreamEngine''
         else win_path_join ''.'' ''arcade-stream-engine'')"

definition win_host_launch_command :: "string \<Rightarrow> string" where
  "win_host_launch_command cmd =
     (if cmd = [] \<or> \<not> is_uri_target cmd then cmd
      else ''cmd /C start '' @ [CHR 0x22, CHR 0x22] @ '' '' @ [CHR 0x22] @ cmd @ [CHR 0x22])"

definition win_resolve_sunshine_binary :: "string \<Rightarrow> string \<Rightarrow> (string \<Rightarrow> bool) \<Rightarrow> string" where
  "win_resolve_sunshine_binary engineDir envOverride exists =
     (if envOverride \<noteq> [] \<and> exists envOverride then envOverride
      else if engineDir \<noteq> [] then
        let candidate = (if last engineDir \<noteq> CHR 0x5C then engineDir @ [CHR 0x5C] else engineDir) @ ''sunshine.exe''
        in if exists candidate then candidate else []
      else [])"

text \<open>\<^verbatim>\<open>GetModuleFileNameA\<close> fails, or fills at most \<^verbatim>\<open>MAX_PATH\<close> bytes, truncating a longer name.\<close>

definition win_current_exe_dir :: "string option \<Rightarrow> string" where
  "win_current_exe_dir self =
     (case self of
        None \<Rightarrow> []
      | Some p \<Rightarrow> if p = [] \<or> 260 \<le> length p then [] else rev (drop 1 (dropWhile (\<lambda>c. \<not> is_slash c) (rev p))))"

definition win_build_launch_args :: "string \<Rightarrow> string list" where
  "win_build_launch_args appsPath =
     (if appsPath \<noteq> [] then
        let beside = (\<lambda>name. win_path_join (win_parent_path appsPath) name)
        in [''file_apps='' @ appsPath, ''log_path='' @ beside ''sunshine.log'', ''min_log_level=1'',
            ''file_state='' @ beside ''sunshine_state.json'', ''cert='' @ beside ''cert.pem'', ''pkey='' @ beside ''pkey.pem'']
      else [])"

definition win_work_dir :: "string \<Rightarrow> string" where
  "win_work_dir binary = (if binary = [] then [] else win_parent_path binary)"

section \<open>The command line\<close>

definition win_command_line :: "string \<Rightarrow> string list \<Rightarrow> string" where
  "win_command_line binary args = [CHR 0x22] @ binary @ [CHR 0x22] @ concat (map (\<lambda>a. '' '' @ a) args)"

definition is_blank :: "char \<Rightarrow> bool" where
  "is_blank c \<longleftrightarrow> c = CHR '' '' \<or> c = CHR 0x09"

definition plain_word :: "string \<Rightarrow> bool" where
  "plain_word w \<longleftrightarrow> w \<noteq> [] \<and> (\<forall>c \<in> set w. \<not> is_blank c \<and> c \<noteq> CHR 0x22)"

definition at_end :: "string \<Rightarrow> bool" where
  "at_end rest \<longleftrightarrow> rest = [] \<or> is_blank (hd rest)"

text \<open>The documented rules for splitting a command line, as far as it has no quotation mark after the program's
  name: a program name in quotation marks ends at the next one, blanks separate the arguments, and a
  run of other characters is an argument.\<close>

locale command_line_rules =
  fixes argv :: "string \<Rightarrow> string list" and args :: "string \<Rightarrow> string list"
  assumes program_name: "CHR 0x22 \<notin> set name \<Longrightarrow> at_end rest \<Longrightarrow> argv ([CHR 0x22] @ name @ [CHR 0x22] @ rest) = name # args rest"
    and no_more: "args [] = []"
    and skip_blank: "is_blank c \<Longrightarrow> args (c # rest) = args rest"
    and one_word: "plain_word w \<Longrightarrow> at_end rest \<Longrightarrow> args (w @ rest) = w # args rest"
begin

lemma words_split: "list_all plain_word us \<Longrightarrow> at_end rest \<Longrightarrow> args (concat (map (\<lambda>a. '' '' @ a) us) @ rest) = us @ args rest"
proof (induction us)
  case (Cons w us)
  have "at_end (concat (map (\<lambda>a. '' '' @ a) us) @ rest)" using Cons.prems by (cases us) (simp_all add: at_end_def is_blank_def)
  then have "args (w @ concat (map (\<lambda>a. '' '' @ a) us) @ rest) = w # args (concat (map (\<lambda>a. '' '' @ a) us) @ rest)"
    using Cons.prems by (intro one_word) simp_all
  then show ?case using Cons skip_blank [of "CHR '' ''"] by (simp add: is_blank_def)
qed simp

lemma intact:
  assumes "CHR 0x22 \<notin> set binary" "list_all plain_word us" shows "argv (win_command_line binary us) = binary # us"
proof -
  have "at_end (concat (map (\<lambda>a. '' '' @ a) us))" by (cases us) (simp_all add: at_end_def is_blank_def)
  then show ?thesis
    using program_name [OF assms(1)] words_split [OF assms(2), of "[]"] no_more by (simp add: win_command_line_def at_end_def)
qed

lemma cut:
  assumes "CHR 0x22 \<notin> set binary" "plain_word w" "is_blank c"
  shows "argv (win_command_line binary ((w @ c # tail) # us)) = binary # w # args (tail @ concat (map (\<lambda>a. '' '' @ a) us))"
proof -
  let ?rest = "c # tail @ concat (map (\<lambda>a. '' '' @ a) us)"
  have "argv (win_command_line binary ((w @ c # tail) # us)) = binary # args (CHR '' '' # w @ ?rest)"
    using program_name [OF assms(1), of "CHR '' '' # w @ ?rest"] by (simp add: win_command_line_def at_end_def is_blank_def)
  also have "args (CHR '' '' # w @ ?rest) = w # args ?rest"
    using skip_blank [of "CHR '' ''" "w @ ?rest"] one_word [OF assms(2), of ?rest] assms(3) by (simp add: is_blank_def at_end_def)
  also have "args ?rest = args (tail @ concat (map (\<lambda>a. '' '' @ a) us))" by (rule skip_blank [OF assms(3)])
  finally show ?thesis .
qed

end

text \<open>A splitter that follows the rules: in it a quotation mark is an ordinary character of an argument.\<close>

function plain_args :: "string \<Rightarrow> string list" where
  "plain_args [] = []"
| "plain_args (c # cs) =
     (if is_blank c then plain_args cs
      else (c # takeWhile (\<lambda>d. \<not> is_blank d) cs) # plain_args (dropWhile (\<lambda>d. \<not> is_blank d) cs))"
  by pat_completeness auto
termination
  by (relation "measure length") (auto simp: le_imp_less_Suc length_dropWhile_le)

definition plain_argv :: "string \<Rightarrow> string list" where
  "plain_argv line =
     (case line of
        [] \<Rightarrow> []
      | c # cs \<Rightarrow> takeWhile (\<lambda>d. d \<noteq> CHR 0x22) cs # plain_args (drop 1 (dropWhile (\<lambda>d. d \<noteq> CHR 0x22) cs)))"

interpretation plain: command_line_rules plain_argv plain_args
proof unfold_locales
  show "plain_argv ([CHR 0x22] @ name @ [CHR 0x22] @ rest) = name # plain_args rest" if "CHR 0x22 \<notin> set name" for name rest
    using that by (simp add: plain_argv_def takeWhile_append dropWhile_append)
  show "plain_args (w @ rest) = w # plain_args rest" if pw: "plain_word w" and ae: "at_end rest" for w rest
  proof -
    obtain c cs where w: "w = c # cs" using pw by (cases w) (auto simp: plain_word_def)
    then have c: "\<not> is_blank c" "\<forall>d \<in> set cs. \<not> is_blank d" using pw by (auto simp: plain_word_def)
    have "takeWhile (\<lambda>d. \<not> is_blank d) (cs @ rest) = cs" "dropWhile (\<lambda>d. \<not> is_blank d) (cs @ rest) = rest"
      using c(2) ae by (cases rest; simp add: at_end_def takeWhile_append2 dropWhile_append2)+
    then show ?thesis using w c(1) by simp
  qed
qed simp_all

section \<open>Processes\<close>

text \<open>
  The process handles the engine holds, each with whether its process lives; the count of thread
  handles it holds; the processes that live on behind a closed handle; what the next calls of
  \<^verbatim>\<open>CreateProcessA\<close> give (an error code or a handle); whether a process that is terminated is gone
  within the five seconds the code waits; and the command lines and directories used.
\<close>

record win_os =
  handles :: "int \<Rightarrow> bool option"
  thread_handles :: int
  survivors :: nat
  creates :: "(nat + int) list"
  dies_in_time :: "int \<Rightarrow> bool"
  win_launches :: "(string \<times> string option) list"

definition close_handle :: "int \<Rightarrow> win_os \<Rightarrow> win_os" where
  "close_handle h w = w\<lparr>handles := (handles w)(h := None), survivors := survivors w + (if handles w h = Some True then 1 else 0)\<rparr>"

definition create_process :: "string \<Rightarrow> string option \<Rightarrow> win_os \<Rightarrow> (nat + int) \<times> win_os" where
  "create_process cmd dir w =
     (case creates w of
        Inr h # cs \<Rightarrow>
          (Inr h, w\<lparr>handles := (handles w)(h \<mapsto> True), thread_handles := thread_handles w + 1, creates := cs,
                    win_launches := win_launches w @ [(cmd, dir)]\<rparr>)
      | Inl e # cs \<Rightarrow> (Inl e, w\<lparr>creates := cs\<rparr>)
      | [] \<Rightarrow> (Inl 8, w))"

record win_backend =
  wb_apps_path :: string
  wb_binary :: string
  procHandle :: int

definition new_win_backend :: "string \<Rightarrow> string option \<Rightarrow> string option \<Rightarrow> (string \<Rightarrow> bool) \<Rightarrow> win_backend" where
  "new_win_backend appsPath self env exists =
     \<lparr>wb_apps_path = appsPath,
      wb_binary = win_resolve_sunshine_binary (win_current_exe_dir self) (case env of Some e \<Rightarrow> e | None \<Rightarrow> []) exists,
      procHandle = 0\<rparr>"

text \<open>A wait of no time on a handle times out exactly while its process lives.\<close>

definition win_running :: "win_backend \<Rightarrow> win_os \<Rightarrow> bool \<times> win_backend \<times> win_os" where
  "win_running b w =
     (if procHandle b = 0 then (False, b, w)
      else if handles w (procHandle b) = Some True then (True, b, w)
      else (False, b\<lparr>procHandle := 0\<rparr>, close_handle (procHandle b) w))"

definition win_start :: "win_backend \<Rightarrow> win_os \<Rightarrow> string option \<times> win_backend \<times> win_os" where
  "win_start b w =
     (case win_running b w of
        (True, b1, w1) \<Rightarrow> (None, b1, w1)
      | (False, b1, w1) \<Rightarrow>
          if wb_binary b1 = [] then
            (Some (''no engine-managed Sunshine found (set ARCADE_SUNSHINE to the fetched sidecar, ''
                     @ ''or ship sunshine beside the engine)''), b1, w1)
          else
            let dir = win_work_dir (wb_binary b1)
            in case create_process (win_command_line (wb_binary b1) (win_build_launch_args (wb_apps_path b1)))
                      (if dir = [] then None else Some dir) w1 of
                 (Inl e, w2) \<Rightarrow> (Some (''CreateProcess failed (err '' @ to_string (int e) @ '')''), b1, w2)
               | (Inr h, w2) \<Rightarrow> (None, b1\<lparr>procHandle := h\<rparr>, w2\<lparr>thread_handles := thread_handles w2 - 1\<rparr>))"

text \<open>\<^verbatim>\<open>TerminateProcess\<close>, the wait and \<^verbatim>\<open>CloseHandle\<close>.\<close>

definition win_stop :: "win_backend \<Rightarrow> win_os \<Rightarrow> win_backend \<times> win_os" where
  "win_stop b w =
     (case win_running b w of
        (False, b1, w1) \<Rightarrow> (b1, w1)
      | (True, b1, w1) \<Rightarrow>
          let h = procHandle b1;
              w2 = w1\<lparr>handles := (handles w1)(h \<mapsto> \<not> dies_in_time w1 h)\<rparr>
          in (b1\<lparr>procHandle := 0\<rparr>, close_handle h w2))"

definition creates_ok :: "win_os \<Rightarrow> bool" where
  "creates_ok w \<longleftrightarrow> list_all (\<lambda>c. case c of Inr h \<Rightarrow> h \<noteq> 0 | Inl e \<Rightarrow> True) (creates w)"

inductive win_step :: "win_backend \<times> win_os \<Rightarrow> win_backend \<times> win_os \<Rightarrow> bool" where
  WinRunning: "win_running b w = (r, b', w') \<Longrightarrow> win_step (b, w) (b', w')"
| WinStart: "win_start b w = (e, b', w') \<Longrightarrow> creates_ok w \<Longrightarrow> win_step (b, w) (b', w')"
| WinStop: "win_stop b w = (b', w') \<Longrightarrow> win_step (b, w) (b', w')"
| WinExit: "handles w h = Some True \<Longrightarrow> win_step (b, w) (b, w\<lparr>handles := (handles w)(h \<mapsto> False)\<rparr>)"
| WinCreates: "win_step (b, w) (b, w\<lparr>creates := cs\<rparr>)"

text \<open>The only handle open is the one tracked.\<close>

definition win_tracked :: "win_backend \<Rightarrow> win_os \<Rightarrow> bool" where
  "win_tracked b w \<longleftrightarrow>
     (\<forall>h. h \<noteq> procHandle b \<or> h = 0 \<longrightarrow> handles w h = None)
     \<and> (procHandle b \<noteq> 0 \<longrightarrow> handles w (procHandle b) \<noteq> None) \<and> thread_handles w = 0
     \<and> ((\<forall>h. dies_in_time w h) \<longrightarrow> survivors w = 0)"

lemma win_running_cases:
  assumes "win_tracked b w" "win_running b w = (r, b', w')"
  shows "win_tracked b' w'" "r \<Longrightarrow> b' = b \<and> w' = w \<and> procHandle b \<noteq> 0 \<and> handles w (procHandle b) = Some True" "\<not> r \<Longrightarrow> procHandle b' = 0"
    "wb_apps_path b' = wb_apps_path b" "wb_binary b' = wb_binary b" "creates w' = creates w" "win_launches w' = win_launches w"
    "dies_in_time w' = dies_in_time w"
proof -
  consider "procHandle b = 0" "r = False" "b' = b" "w' = w"
    | "procHandle b \<noteq> 0" "handles w (procHandle b) = Some True" "r" "b' = b" "w' = w"
    | "handles w (procHandle b) \<noteq> Some True" "\<not> r" "b' = b\<lparr>procHandle := 0\<rparr>" "w' = close_handle (procHandle b) w"
  proof (cases "procHandle b = 0")
    case True
    then show thesis using that(1) assms(2) by (simp add: win_running_def)
  next
    case False
    then show thesis using that(2,3) assms(2)
      by (cases "handles w (procHandle b) = Some True") (simp_all add: win_running_def)
  qed
  note c = this
  have close: "win_tracked (b\<lparr>procHandle := 0\<rparr>) (close_handle (procHandle b) w)" if "handles w (procHandle b) \<noteq> Some True"
    using assms(1) that by (simp add: win_tracked_def close_handle_def)
  show "win_tracked b' w'" using c by cases (simp_all add: assms(1) close)
  show "r \<Longrightarrow> b' = b \<and> w' = w \<and> procHandle b \<noteq> 0 \<and> handles w (procHandle b) = Some True" using c by cases simp_all
  show "\<not> r \<Longrightarrow> procHandle b' = 0" using c by cases simp_all
  show "wb_apps_path b' = wb_apps_path b" "wb_binary b' = wb_binary b" "creates w' = creates w" "win_launches w' = win_launches w"
    "dies_in_time w' = dies_in_time w"
    using c by (cases; simp add: close_handle_def)+
qed

definition win_launch_of :: "win_backend \<Rightarrow> string \<times> string option" where
  "win_launch_of b =
     (win_command_line (wb_binary b) (win_build_launch_args (wb_apps_path b)),
      if win_work_dir (wb_binary b) = [] then None else Some (win_work_dir (wb_binary b)))"

lemma win_launch_of_same: "wb_apps_path b = wb_apps_path b0 \<Longrightarrow> wb_binary b = wb_binary b0 \<Longrightarrow> win_launch_of b = win_launch_of b0"
  by (simp add: win_launch_of_def)

lemma win_start_cases:
  assumes "win_tracked b w" "creates_ok w" "win_start b w = (e, b', w')"
  shows "win_tracked b' w' \<and> (fst (win_running b' w') \<longleftrightarrow> e = None) \<and> wb_apps_path b' = wb_apps_path b \<and> wb_binary b' = wb_binary b
         \<and> set (win_launches w') \<subseteq> set (win_launches w) \<union> {win_launch_of b}"
proof -
  obtain r b1 w1 where r: "win_running b w = (r, b1, w1)" by (cases "win_running b w") auto
  note run = win_running_cases [OF assms(1) r]
  show ?thesis
  proof (cases "r \<or> wb_binary b1 = []")
    case stays: True
    show ?thesis
    proof (cases r)
      case True
      then have "e = None" "b' = b" "w' = w" using assms(3) r run(2) by (simp_all add: win_start_def)
      then show ?thesis using assms(1) r True by auto
    next
      case False
      then have "e \<noteq> None" "b' = b1" "w' = w1" "procHandle b1 = 0"
        using assms(3) r run(3) stays by (simp_all add: win_start_def) (metis (no_types) Pair_inject option.distinct(1))+
      then show ?thesis using run(1,4,5,7) by (auto simp: win_running_def)
    qed
  next
    case False
    then have p: "procHandle b1 = 0" "wb_binary b1 \<noteq> []" "\<not> r" using run by auto
    let ?dir = "win_work_dir (wb_binary b1)"
    let ?cmd = "win_command_line (wb_binary b1) (win_build_launch_args (wb_apps_path b1))"
    obtain c w2 where c: "create_process ?cmd (if ?dir = [] then None else Some ?dir) w1 = (c, w2)" by force
    have ok: "creates_ok w1" using assms(2) run by (simp add: creates_ok_def)
    show ?thesis
    proof (cases c)
      case (Inl x)
      then have "handles w2 = handles w1" "thread_handles w2 = thread_handles w1" "survivors w2 = survivors w1" "dies_in_time w2 = dies_in_time w1"
        "win_launches w2 = win_launches w1"
        using c by (auto simp: create_process_def split: list.splits sum.splits)
      moreover have "e = Some (''CreateProcess failed (err '' @ to_string (int x) @ '')'')" "b' = b1" "w' = w2"
        using assms(3) r p c Inl by (simp_all add: win_start_def Let_def)
      ultimately show ?thesis using run p by (auto simp: win_tracked_def win_running_def)
    next
      case (Inr h)
      then have h: "handles w2 = (handles w1)(h \<mapsto> True)" "thread_handles w2 = thread_handles w1 + 1" "survivors w2 = survivors w1"
        "dies_in_time w2 = dies_in_time w1" "win_launches w2 = win_launches w1 @ [(?cmd, if ?dir = [] then None else Some ?dir)]" "h \<noteq> 0"
        using c ok by (auto simp: create_process_def creates_ok_def split: list.splits sum.splits)
      moreover have "e = None" "b' = b1\<lparr>procHandle := h\<rparr>" "w' = w2\<lparr>thread_handles := thread_handles w2 - 1\<rparr>"
        using assms(3) r p c Inr by (simp_all add: win_start_def Let_def)
      ultimately show ?thesis using run p by (auto simp: win_tracked_def win_running_def win_launch_of_def)
    qed
  qed
qed

lemma win_stop_cases:
  assumes "win_tracked b w" "win_stop b w = (b', w')"
  shows "win_tracked b' w' \<and> procHandle b' = 0 \<and> wb_apps_path b' = wb_apps_path b \<and> wb_binary b' = wb_binary b \<and> win_launches w' = win_launches w"
proof -
  obtain r b1 w1 where r: "win_running b w = (r, b1, w1)" by (cases "win_running b w") auto
  note run = win_running_cases [OF assms(1) r]
  show ?thesis
  proof (cases r)
    case True
    then have b: "b' = b\<lparr>procHandle := 0\<rparr>"
      "w' = close_handle (procHandle b) (w\<lparr>handles := (handles w)(procHandle b \<mapsto> \<not> dies_in_time w (procHandle b))\<rparr>)"
      using assms(2) r run(2) by (simp_all add: win_stop_def Let_def)
    then show ?thesis using assms(1) by (simp add: win_tracked_def close_handle_def)
  next
    case False
    then show ?thesis using assms r run by (simp add: win_stop_def)
  qed
qed

interpretation windows: child_driver win_running win_start win_stop win_tracked creates_ok
proof unfold_locales
  show "win_tracked b' w' \<and> (r \<longrightarrow> b' = b \<and> w' = w)" if "win_tracked b w" "win_running b w = (r, b', w')" for b w r b' w'
    using win_running_cases(1,2) [OF that] by blast
  show "win_tracked b' w' \<and> (fst (win_running b' w') \<longleftrightarrow> e = None)"
    if "win_tracked b w" "creates_ok w" "win_start b w = (e, b', w')" for b w e b' w'
    using win_start_cases [OF that] by blast
  show "win_start b w = (None, b, w)" if tr: "win_tracked b w" and up: "fst (win_running b w)" for b w
  proof -
    obtain b1 w1 where r: "win_running b w = (True, b1, w1)" using up by (cases "win_running b w") auto
    then show ?thesis using win_running_cases(2) [OF tr r] by (simp add: win_start_def)
  qed
  show "win_tracked b' w' \<and> \<not> fst (win_running b' w')" if "win_tracked b w" "win_stop b w = (b', w')" for b w b' w'
    using win_stop_cases [OF that] by (simp add: win_running_def)
qed

definition win_inv :: "win_backend \<Rightarrow> win_backend \<times> win_os \<Rightarrow> bool" where
  "win_inv b0 s \<longleftrightarrow> win_tracked (fst s) (snd s) \<and> wb_apps_path (fst s) = wb_apps_path b0 \<and> wb_binary (fst s) = wb_binary b0
     \<and> set (win_launches (snd s)) \<subseteq> {win_launch_of b0}"

lemma win_inv_step: "win_step s s' \<Longrightarrow> win_inv b0 s \<Longrightarrow> win_inv b0 s'"
proof (induction rule: win_step.induct)
  case (WinRunning b w r b' w')
  then show ?case using win_running_cases [of b w r b' w'] by (simp add: win_inv_def)
next
  case (WinStart b w e b' w')
  then have t: "win_tracked b w" "wb_apps_path b = wb_apps_path b0" "wb_binary b = wb_binary b0" "set (win_launches w) \<subseteq> {win_launch_of b0}"
    by (simp_all add: win_inv_def)
  note s = win_start_cases [OF t(1) WinStart(2,1), unfolded win_launch_of_same [OF t(2,3)]]
  then show ?case using t by (auto simp: win_inv_def)
next
  case (WinStop b w b' w')
  then show ?case using win_stop_cases [of b w b' w'] by (simp add: win_inv_def)
next
  case (WinExit w h b)
  then have "h = procHandle b" "h \<noteq> 0" by (metis fst_conv option.distinct(1) snd_conv win_inv_def win_tracked_def)+
  with WinExit show ?case by (simp add: win_inv_def win_tracked_def)
qed (simp add: win_inv_def win_tracked_def)

interpretation wbe: step_invariant win_step "win_inv b0" for b0
  by unfold_locales (rule win_inv_step)

section \<open>Where the paths stay\<close>

lemma parent_chars: "set (win_parent_path p) \<subseteq> set p"
proof -
  have "set (dropWhile is_slash (dropWhile (\<lambda>c. \<not> is_slash c) (rev (drop n p)))) \<subseteq> set p" for n
  proof -
    have "set (dropWhile is_slash (dropWhile (\<lambda>c. \<not> is_slash c) (rev (drop n p)))) \<subseteq> set (rev (drop n p))"
      by (blast dest: set_dropWhileD)
    also have "\<dots> \<subseteq> set p" using set_drop_subset [of n p] by simp
    finally show ?thesis .
  qed
  moreover have "set (takeWhile is_slash (drop n p)) \<subseteq> set p" for n
    using set_takeWhileD [of _ is_slash "drop n p"] set_drop_subset [of n p] by blast
  ultimately show ?thesis using set_take_subset [of "root_name_len p" p] by (simp add: win_parent_path_def Let_def)
qed

lemma join_chars: "set (win_path_join p f) \<subseteq> set p \<union> set f \<union> {CHR 0x5C}"
  by (auto simp: win_path_join_def)

definition word_char :: "char \<Rightarrow> bool" where
  "word_char c \<longleftrightarrow> \<not> is_blank c \<and> c \<noteq> CHR 0x22"

lemma plain_word_iff: "plain_word w \<longleftrightarrow> w \<noteq> [] \<and> (\<forall>c \<in> set w. word_char c)"
  by (simp add: plain_word_def word_char_def)

lemma beside_chars:
  assumes "\<forall>c \<in> set p. word_char c" "\<forall>c \<in> set f. word_char c" shows "\<forall>c \<in> set (win_path_join (win_parent_path p) f). word_char c"
proof -
  have "word_char (CHR 0x5C)" by (simp add: word_char_def is_blank_def)
  then show ?thesis using assms join_chars [of "win_parent_path p" f] parent_chars [of p] by blast
qed

lemma launch_args_plain:
  assumes "\<forall>c \<in> set p. word_char c" shows "list_all plain_word (win_build_launch_args p)"
proof -
  have f: "\<forall>c \<in> set ''sunshine.log''. word_char c" "\<forall>c \<in> set ''sunshine_state.json''. word_char c" "\<forall>c \<in> set ''cert.pem''. word_char c"
    "\<forall>c \<in> set ''pkey.pem''. word_char c" "\<forall>c \<in> set ''file_apps=''. word_char c" "\<forall>c \<in> set ''log_path=''. word_char c"
    "\<forall>c \<in> set ''min_log_level=1''. word_char c" "\<forall>c \<in> set ''file_state=''. word_char c" "\<forall>c \<in> set ''cert=''. word_char c"
    "\<forall>c \<in> set ''pkey=''. word_char c"
    by (simp_all add: word_char_def is_blank_def)
  show ?thesis
  proof (cases "p = []")
    case False
    note b = beside_chars [OF assms]
    show ?thesis
      unfolding win_build_launch_args_def Let_def list.pred_inject plain_word_iff
      using False assms f b [OF f(1)] b [OF f(2)] b [OF f(3)] b [OF f(4)]
      by (simp only: if_True not_False_eq_True list.pred_inject plain_word_iff set_append ball_Un append_is_Nil_conv list.distinct simp_thms)
  qed (simp add: win_build_launch_args_def)
qed


section \<open>Properties\<close>

text \<open>
  C40. Windows arguments survive only without blanks: for a command line split by the documented rules
  and a catalog path without quotation marks, Sunshine receives its program name and exactly the
  arguments the engine built if no blank occurs in that path; otherwise its first argument is the
  catalog path cut at the first blank, because the arguments are joined without quoting.
\<close>

theorem win_args_need_no_blank:
  assumes "command_line_rules argv args" "CHR 0x22 \<notin> set binary" "CHR 0x22 \<notin> set appsPath" "appsPath \<noteq> []"
  shows "(argv (win_command_line binary (win_build_launch_args appsPath)) = binary # win_build_launch_args appsPath
            \<longleftrightarrow> (\<forall>c \<in> set appsPath. \<not> is_blank c))
         \<and> argv (win_command_line binary (win_build_launch_args appsPath)) ! 1 = ''file_apps='' @ takeWhile (\<lambda>c. \<not> is_blank c) appsPath"
proof (cases "\<forall>c \<in> set appsPath. \<not> is_blank c")
  case True
  then have w: "\<forall>c \<in> set appsPath. word_char c" using assms(3) by (auto simp: word_char_def)
  have t: "takeWhile (\<lambda>c. \<not> is_blank c) appsPath = appsPath" using True by (simp add: takeWhile_eq_all_conv)
  obtain as where "win_build_launch_args appsPath = (''file_apps='' @ appsPath) # as"
    using assms(4) by (simp add: win_build_launch_args_def Let_def)
  then show ?thesis using command_line_rules.intact [OF assms(1,2) launch_args_plain [OF w]] True by (simp add: t)
next
  case False
  then obtain p c q where split: "appsPath = p @ c # q" "is_blank c" "\<forall>d \<in> set p. \<not> is_blank d"
    using split_list_first_prop [of appsPath is_blank] by blast
  have tw: "takeWhile (\<lambda>c. \<not> is_blank c) appsPath = p" using split by (simp add: takeWhile_append2)
  have w: "plain_word (''file_apps='' @ p)" using assms(3) split by (auto simp: plain_word_def is_blank_def)
  obtain as where as: "win_build_launch_args appsPath = ((''file_apps='' @ p) @ c # q) # as"
    using split(1) by (simp add: win_build_launch_args_def Let_def)
  have "argv (win_command_line binary (win_build_launch_args appsPath))
      = binary # (''file_apps='' @ p) # args (q @ concat (map (\<lambda>a. '' '' @ a) as))"
    unfolding as by (rule command_line_rules.cut [OF assms(1,2) w split(2)])
  then show ?thesis using as tw False by simp
qed

text \<open>
  C9. One handle on Windows: from a fresh backend, whatever sequence of \<^verbatim>\<open>running\<close>, \<^verbatim>\<open>start\<close> and
  \<^verbatim>\<open>stop\<close> calls, exits and failing or succeeding process creations happens, the only open process
  handle is the one tracked, no thread handle is left open, every process was created from the one
  command line and directory, and if terminated processes end within the wait no process lives on
  unobserved.
\<close>

theorem win_single_handle:
  assumes "win_step\<^sup>*\<^sup>* (new_win_backend appsPath self env exists,
             \<lparr>handles = Map.empty, thread_handles = 0, survivors = 0, creates = cs, dies_in_time = lag, win_launches = []\<rparr>) (b, w)"
  shows "(\<forall>h. handles w h \<noteq> None \<longrightarrow> h = procHandle b \<and> h \<noteq> 0) \<and> (procHandle b \<noteq> 0 \<longrightarrow> handles w (procHandle b) \<noteq> None)
         \<and> thread_handles w = 0 \<and> ((\<forall>h. dies_in_time w h) \<longrightarrow> survivors w = 0)
         \<and> (\<forall>l \<in> set (win_launches w). l = win_launch_of (new_win_backend appsPath self env exists))"
proof -
  let ?b0 = "new_win_backend appsPath self env exists"
  have "win_inv ?b0 (?b0, \<lparr>handles = Map.empty, thread_handles = 0, survivors = 0, creates = cs, dies_in_time = lag, win_launches = []\<rparr>)"
    by (simp add: win_inv_def win_tracked_def new_win_backend_def)
  from wbe.steps [OF assms this] show ?thesis by (auto simp: win_inv_def win_tracked_def)
qed

text \<open>
  The two systems drive the child alike: on either, from any state in which the child is tracked, a
  second enable after a successful one changes nothing, a child runs after an enable exactly when it
  succeeded, and a disable leaves none running.
\<close>

theorem drivers_agree:
  assumes "tracked b w" "forks_ok w" "start b w = (e, b1, w1)" "stop b1 w1 = (b2, w2)"
    "win_tracked c v" "creates_ok v" "win_start c v = (f, c1, v1)" "win_stop c1 v1 = (c2, v2)"
  shows "(fst (running b1 w1) \<longleftrightarrow> e = None) \<and> (e = None \<longrightarrow> start b1 w1 = (None, b1, w1)) \<and> \<not> fst (running b2 w2)
         \<and> (fst (win_running c1 v1) \<longleftrightarrow> f = None) \<and> (f = None \<longrightarrow> win_start c1 v1 = (None, c1, v1)) \<and> \<not> fst (win_running c2 v2)"
  using posix.enabled [OF assms(1-3)] posix.enable_twice [OF assms(1,2)] posix.enable_disable [OF assms(1-4)]
    windows.enabled [OF assms(5-7)] windows.enable_twice [OF assms(5,6)] windows.enable_disable [OF assms(5-8)] assms(3,7) by blast

section \<open>A run\<close>

definition demo_path :: string where
  "demo_path = ''C:'' @ [CHR 0x5C] @ ''Jo Doe'' @ [CHR 0x5C] @ ''a.json''"

theorem win_args_need_no_blank_witness:
  "plain_argv (win_command_line ''s.exe'' (win_build_launch_args demo_path)) \<noteq> ''s.exe'' # win_build_launch_args demo_path
   \<and> plain_argv (win_command_line ''s.exe'' (win_build_launch_args demo_path)) ! 1 = ''file_apps=C:'' @ [CHR 0x5C] @ ''Jo''"
proof -
  have d: "CHR 0x22 \<notin> set demo_path" "demo_path \<noteq> []" "CHR '' '' \<in> set demo_path" "CHR 0x22 \<notin> set ''s.exe''"
    "takeWhile (\<lambda>c. \<not> is_blank c) demo_path = ''C:'' @ [CHR 0x5C] @ ''Jo''"
    by (simp_all add: demo_path_def is_blank_def)
  have "is_blank (CHR '' '')" by (simp add: is_blank_def)
  with win_args_need_no_blank [OF plain.command_line_rules_axioms d(4,1,2)] d(3,5) show ?thesis by auto
qed

theorem win_single_handle_witness:
  "\<exists>b w. win_step\<^sup>*\<^sup>* (new_win_backend ''a'' None (Some ''s.exe'') (\<lambda>_. True),
        \<lparr>handles = Map.empty, thread_handles = 0, survivors = 0, creates = [Inr 7], dies_in_time = (\<lambda>_. True), win_launches = []\<rparr>) (b, w)
     \<and> procHandle b = 7 \<and> (\<forall>h. handles w h \<noteq> None \<longrightarrow> h = 7) \<and> thread_handles w = 0"
proof -
  let ?b = "new_win_backend ''a'' None (Some ''s.exe'') (\<lambda>_. True)"
  let ?w = "\<lparr>handles = Map.empty, thread_handles = 0, survivors = 0, creates = [Inr 7], dies_in_time = (\<lambda>_. True), win_launches = []\<rparr>"
  obtain e b w where s: "win_start ?b ?w = (e, b, w)" by (cases "win_start ?b ?w") auto
  have "win_step\<^sup>*\<^sup>* (?b, ?w) (b, w)" using WinStart [OF s] by (simp add: creates_ok_def r_into_rtranclp)
  moreover have "procHandle b = 7"
    using s by (auto simp: win_start_def win_running_def new_win_backend_def win_resolve_sunshine_binary_def create_process_def Let_def)
  ultimately show ?thesis using win_single_handle [of "''a''" None "Some ''s.exe''" "\<lambda>_. True" "[Inr 7]" "\<lambda>_. True" b w]
    by (intro exI [of _ b] exI [of _ w]) auto
qed

theorem drivers_agree_witness:
  "\<exists>b w b1 w1 b2 w2. tracked b w \<and> start b w = (None, b1, w1) \<and> stop b1 w1 = (b2, w2) \<and> fst (running b1 w1) \<and> \<not> fst (running b2 w2)"
proof -
  let ?c = "new_win_backend ''a'' None None (\<lambda>_. True)"
  let ?v = "\<lparr>handles = Map.empty, thread_handles = 0, survivors = 0, creates = [], dies_in_time = (\<lambda>_. True), win_launches = []\<rparr>"
  have t: "tracked demo_backend fresh_os" "forks_ok fresh_os" "win_tracked ?c ?v" "creates_ok ?v"
    by (simp_all add: tracked_def fresh_os_def forks_ok_def demo_backend_def new_backend_def win_tracked_def new_win_backend_def creates_ok_def)
  obtain b1 w1 where s: "start demo_backend fresh_os = (None, b1, w1)" using demo_start by blast
  obtain b2 w2 where x: "stop b1 w1 = (b2, w2)" by force
  obtain f c1 v1 where c: "win_start ?c ?v = (f, c1, v1)" by (cases "win_start ?c ?v") auto
  obtain c2 v2 where y: "win_stop c1 v1 = (c2, v2)" by force
  from drivers_agree [OF t(1,2) s x t(3,4) c y] t(1) s x show ?thesis by blast
qed

end
