(* ===== verification/Evaluation.thy ===== *)
theory Evaluation
  imports Server Http
begin

text \<open>
  Equations by which the number conversions are evaluated in the kernel on large arguments: digits
  are collected in integers, whose arithmetic is binary, and an integer below \<open>2 ^ 53\<close> is its own
  rounding.  They define nothing new.
\<close>

function int_digits :: "int \<Rightarrow> string" where
  "int_digits n = (if n < 10 then [digit_char (nat n)] else int_digits (n div 10) @ [digit_char (nat (n mod 10))])"
  by pat_completeness auto
termination
  by (relation "measure nat") auto

declare int_digits.simps [simp del]

lemma int_digits_nat: "0 \<le> n \<Longrightarrow> int_digits n = dec_digits (nat n)"
proof (induction n rule: int_digits.induct)
  case (1 n)
  then show ?case
    by (subst int_digits.simps, subst dec_digits.simps) (auto simp: nat_div_distrib nat_mod_distrib)
qed

lemma to_string_code [code]: "to_string n = (if n < 0 then CHR ''-'' # int_digits (- n) else int_digits n)"
  by (simp add: to_string_def int_digits_nat)

definition int_of_digits :: "string \<Rightarrow> int" where
  "int_of_digits ds = foldl (\<lambda>a c. a * 10 + int (digit_val c)) 0 ds"

lemma int_num_of: "int (num_of ds) = int_of_digits ds"
  by (induction ds rule: rev_induct) (simp_all add: int_of_digits_def)

lemma atoi_code [code]:
  "atoi s =
     (let (neg, s2) = sign_split (dropWhile is_space s); n = int_of_digits (takeWhile is_digit s2)
      in wrap32 (if neg then max (- (2 ^ 63)) (- n) else min (2 ^ 63 - 1) n))"
  by (simp add: atoi_def int_num_of)

definition slow_round :: "rat \<Rightarrow> double" where
  "slow_round x = round_double x"

lemma slow_round_code [code]:
  "slow_round x =
     (if x = 0 then Fin 0
      else let y = of_int (round_half_even (x / 2 powi ulp_exp x)) * 2 powi ulp_exp x
           in if \<bar>y\<bar> < 2 ^ 1024 then Fin y else if 0 < x then PInf else NInf)"
  by (simp add: slow_round_def round_double_def)

lemma round_double_code [code]:
  "round_double x =
     (let (n, d) = quotient_of x in if d = 1 \<and> \<bar>n\<bar> < 9007199254740992 then Fin x else slow_round x)"
proof -
  obtain n d where q: "quotient_of x = (n, d)" by force
  have "round_double x = Fin x" if "d = 1" "\<bar>n\<bar> < 9007199254740992"
    using quotient_of_div [OF q] that round_double_int [of n] by simp
  then show ?thesis by (simp add: q slow_round_def)
qed

lemma strtod_full_code [code]:
  "strtod_full tok =
     (let (neg, s1) = sign_split tok;
          ip = takeWhile is_digit s1;
          s2 = dropWhile is_digit s1;
          (fp, s3) = (case s2 of [] \<Rightarrow> ([], [])
                      | c # cs \<Rightarrow> if c = CHR ''.'' then (takeWhile is_digit cs, dropWhile is_digit cs) else ([], s2))
      in if ip = [] \<and> fp = [] then None
         else (case strtod_exp s3 of None \<Rightarrow> None
               | Some e \<Rightarrow>
                   let m = (if e = int (length fp) then of_int (int_of_digits (ip @ fp))
                            else of_int (int_of_digits (ip @ fp)) * 10 powi (e - int (length fp)))
                   in Some (round_double (if neg then - m else m))))"
proof -
  have n: "rat_of_nat (num_of ds) = of_int (int_of_digits ds)" for ds by (simp flip: int_num_of)
  have m: "(if e = l then of_int i else of_int i * (10 :: rat) powi (e - l)) = of_int i * 10 powi (e - l)" for i e l :: int by simp
  show ?thesis by (simp only: strtod_full_def n m)
qed

lemma prints_integral_code [code]:
  "prints_integral (Fin x) \<longleftrightarrow> \<bar>x\<bar> < 9000000000000000 \<and> x = of_int (trunc x)"
  "prints_integral PInf \<longleftrightarrow> False"
  "prints_integral NInf \<longleftrightarrow> False"
proof -
  have "Fin x = double_of_int (cast_i64 (Fin x)) \<longleftrightarrow> x = of_int (trunc x)" if "\<bar>x\<bar> < 9000000000000000"
  proof -
    have "\<bar>trunc x\<bar> < 9000000000000001" using that by (auto simp: trunc_def abs_if split: if_splits; linarith)
    then have "cast_i64 (Fin x) = trunc x" "double_of_int (trunc x) = Fin (of_int (trunc x))"
      using round_double_int [of "trunc x"] by (simp_all add: cast_i64.simps double_of_int_def abs_less_iff)
    then show ?thesis by simp
  qed
  then show "prints_integral (Fin x) \<longleftrightarrow> \<bar>x\<bar> < 9000000000000000 \<and> x = of_int (trunc x)" by auto
qed simp_all

section \<open>Frames and loops\<close>

text \<open>The size limit is compared as an integer, and the partial functions are unfolded.\<close>

lemma write_frame_code [code]:
  "write_frame ops t payload =
     (if 8388608 < int (length payload) then (t, Some ''frame exceeds 8 MiB cap'')
      else
        let n = of_nat (length payload) :: 32 word;
            (t1, ok) = write_all ops t (frame_header n)
        in if \<not> ok then (t1, Some ''write frame header failed'')
           else if n \<noteq> 0 then
             (let (t2, ok2) = write_all ops t1 payload
              in if \<not> ok2 then (t2, Some ''write frame body failed'') else (t2, None))
           else (t1, None))"
proof -
  have "kMaxFrame < length payload \<longleftrightarrow> 8388608 < int (length payload)" by (simp add: kMaxFrame_def)
  then show ?thesis by (simp only: write_frame_def)
qed

lemma read_frame_code [code]:
  "read_frame ops t =
     (case read_exact ops t 4 of
        (t1, None) \<Rightarrow> (t1, Eof)
      | (t1, Some hdr) \<Rightarrow>
          let n = header_word hdr
          in if 8388608 < n then (t1, Err ''incoming frame exceeds 8 MiB cap'')
             else if n \<noteq> 0 then
               (case read_exact ops t1 (unat n) of
                  (t2, None) \<Rightarrow> (t2, Err ''truncated frame body'')
                | (t2, Some out) \<Rightarrow> (t2, Frame out))
             else (t1, Frame []))"
proof -
  have "(of_nat kMaxFrame :: 32 word) = 8388608" by (simp add: kMaxFrame_def)
  then show ?thesis by (simp only: read_frame_def)
qed

declare run.simps [code] dechunk_loop.simps [code]

section \<open>Test programs\<close>

text \<open>A test program of the repository counts the checks that fail and exits with 0 when none did.\<close>

definition exit_status :: "bool list list \<Rightarrow> int" where
  "exit_status tests = (if list_all (list_all id) tests then 0 else 1)"

definition contains :: "string \<Rightarrow> string \<Rightarrow> bool" where
  "contains haystack needle \<longleftrightarrow> str_find haystack needle 0 \<noteq> None"

end
