(* ===== verification/NetTests.thy ===== *)
theory NetTests
  imports Evaluation AppList Launch StreamConfig
begin

text \<open>
  The repository's own unit tests of the pure network code and of the stream settings
  (\<^verbatim>\<open>src/tests/test_gamestream_xml.cpp\<close>, \<^verbatim>\<open>test_nv_applist.cpp\<close>, \<^verbatim>\<open>test_nv_launch.cpp\<close>, \<^verbatim>\<open>test_stream_config.cpp\<close> and
  the HTTP part of \<^verbatim>\<open>test_nv_pairing.cpp\<close>), run on the definitions of this development.  A test is the list of
  the outcomes of its \<^verbatim>\<open>CHECK\<close>s in order; what a test guards by an \<^verbatim>\<open>if\<close> is guarded here.
\<close>

section \<open>XML and hexadecimal digits\<close>

definition kResp :: string where
  \<open>kResp =
     ''<?xml version="1.0" encoding="UTF-8"?>''
     @ ''<root status_code="200" status_message="OK">''
     @ ''<paired>1</paired>''
     @ ''<plaincert>2d2d2d2d2d</plaincert>''
     @ ''<HttpsPort>47984</HttpsPort>''
     @ ''<empty></empty>''
     @ ''<selfclose/>''
     @ ''</root>''\<close>

definition test_text :: "bool list" where
  "test_text =
     [xml_text kResp ''paired'' = ''1'',
      xml_text kResp ''HttpsPort'' = ''47984'',
      xml_text kResp ''empty'' = [],
      xml_text kResp ''selfclose'' = [],
      xml_text kResp ''missing'' = []]"

definition test_no_false_prefix :: "bool list" where
  "test_no_false_prefix = [xml_text kResp ''Http'' = []]"

definition test_attr :: "bool list" where
  "test_attr =
     [xml_attr kResp ''root'' ''status_code'' = ''200'',
      xml_attr kResp ''root'' ''status_message'' = ''OK'',
      xml_attr kResp ''root'' ''missing'' = []]"

definition test_entities :: "bool list" where
  \<open>test_entities =
     (let xml = ''<root><msg>a &amp; b &lt;c&gt; &quot;d&quot;</msg></root>''
      in [xml_text xml ''msg'' = ''a & b <c> "d"''])\<close>

definition test_hex :: "bool list" where
  "test_hex =
     [to_hex (replicate 5 (CHR 0x2D)) = ''2d2d2d2d2d'',
      from_hex ''2d2d2d2d2d'' = ''-----'',
      from_hex ''ABCD'' = from_hex ''abcd'',
      from_hex ''xyz'' = [],
      from_hex ''abc'' = [],
      xml_text_hex kResp ''plaincert'' = ''-----'']"

definition main_gamestream_xml :: int where
  "main_gamestream_xml = exit_status [test_text, test_no_false_prefix, test_attr, test_entities, test_hex]"

section \<open>The app list\<close>

definition kApplist :: string where
  \<open>kApplist =
     ''<?xml version="1.0" encoding="utf-8"?>''
     @ ''<root status_code="200">''
     @ ''<App><IsHdrSupported>0</IsHdrSupported><AppTitle>Desktop</AppTitle><ID>1</ID></App>''
     @ ''<App><AppTitle>Steam Big Picture</AppTitle><ID>881448767</ID><IsHdrSupported>1</IsHdrSupported></App>''
     @ ''<App><AppTitle>Halo &amp; Friends</AppTitle><ID>42</ID></App>''
     @ ''</root>''\<close>

definition no_apps :: string where
  \<open>no_apps = ''<root status_code="200"></root>''\<close>

definition test_parse_basic :: "bool list" where
  "test_parse_basic =
     (let apps = parse_app_list kApplist
      in (length apps = 3)
         # (if length apps = 3
            then [app_title (apps ! 0) = ''Desktop'' \<and> app_id (apps ! 0) = 1,
                  \<not> hdrSupported (apps ! 0),
                  app_title (apps ! 1) = ''Steam Big Picture'' \<and> app_id (apps ! 1) = 881448767,
                  hdrSupported (apps ! 1),
                  app_title (apps ! 2) = ''Halo & Friends'' \<and> app_id (apps ! 2) = 42]
            else []))"

definition test_parse_skips_incomplete_and_empty :: "bool list" where
  \<open>test_parse_skips_incomplete_and_empty =
     (let xml = ''<root status_code="200">''
                @ ''<App><AppTitle>NoId</AppTitle></App>''
                @ ''<App><ID>7</ID></App>''
                @ ''<App><AppTitle>Good</AppTitle><ID>9</ID></App>''
                @ ''</root>'';
          apps = parse_app_list xml
      in [length apps = 1]
         @ (if apps \<noteq> [] then [app_id (apps ! 0) = 9 \<and> app_title (apps ! 0) = ''Good''] else [])
         @ [parse_app_list no_apps = []])\<close>

definition test_resolve_numeric_passthrough :: "bool list" where
  "test_resolve_numeric_passthrough =
     (let apps = parse_app_list kApplist
      in [resolve_app_id apps ''881448767'' = 881448767,
          resolve_app_id apps ''555'' = 555,
          resolve_app_id apps ''0'' = 0])"

definition test_resolve_by_name :: "bool list" where
  "test_resolve_by_name =
     (let apps = parse_app_list kApplist
      in [resolve_app_id apps ''Desktop'' = 1,
          resolve_app_id apps ''steam big picture'' = 881448767,
          resolve_app_id apps ''Halo & Friends'' = 42,
          resolve_app_id apps ''Minecraft'' = 0,
          resolve_app_id apps [] = 0])"

definition test_fetch_flow :: "bool list" where
  \<open>test_fetch_flow =
     (let (apps, err) = fetch_app_list kApplist;
          (e_apps, e_err) = fetch_app_list [];
          (b_apps, b_err) = fetch_app_list ''<root status_code="401"></root>'';
          (n_apps, n_err) = fetch_app_list no_apps
      in [err = [],
          length apps = 3,
          e_apps = [] \<and> e_err \<noteq> [],
          b_apps = [] \<and> b_err \<noteq> [],
          n_apps = [] \<and> n_err = []])\<close>

definition main_nv_applist :: int where
  "main_nv_applist =
     exit_status [test_parse_basic, test_parse_skips_incomplete_and_empty, test_resolve_numeric_passthrough,
       test_resolve_by_name, test_fetch_flow]"

section \<open>The launch handshake\<close>

definition sample_cfg :: launch_config where
  "sample_cfg =
     default_launch_config
       \<lparr>lc_appId := 881448767, lc_width := 1920, lc_height := 1080, lc_fps := 60, lc_sops := True, localAudio := False,
        lc_hdr := False, gamepadMask := 1, riKeyHex := ''00112233445566778899aabbccddeeff'', riKeyId := 123456,
        surroundAudioInfo := 0x30002, extraQuery := ''&corever=7''\<rparr>"

definition test_launch_args_shape :: "bool list" where
  "test_launch_args_shape =
     (let q = build_launch_args sample_cfg
      in [contains q ''appid=881448767'',
          contains q ''mode=1920x1080x60'',
          contains q ''sops=1'',
          contains q ''rikey=00112233445566778899aabbccddeeff'',
          contains q ''rikeyid=123456'',
          contains q ''surroundAudioInfo=196610'',
          contains q ''&corever=7'',
          \<not> contains q ''hdrMode=1''])"

definition test_gfe_high_fps_quirk :: "bool list" where
  "test_gfe_high_fps_quirk =
     (let c = sample_cfg\<lparr>lc_fps := 120, isGfe := True\<rparr>;
          c2 = c\<lparr>isGfe := False\<rparr>
      in [contains (build_launch_args c) ''mode=1920x1080x0'',
          contains (build_launch_args c2) ''mode=1920x1080x120''])"

definition test_hdr_block :: "bool list" where
  "test_hdr_block = (let c = sample_cfg\<lparr>lc_hdr := True\<rparr> in [contains (build_launch_args c) ''hdrMode=1''])"

definition test_resume_args_minimal :: "bool list" where
  "test_resume_args_minimal =
     (let q = build_resume_args sample_cfg
      in [contains q ''rikey=00112233445566778899aabbccddeeff'',
          contains q ''rikeyid=123456'',
          \<not> contains q ''appid='',
          \<not> contains q ''mode=''])"

text \<open>A transport of the tests answers every request with the same text.\<close>

definition fixed_answer :: "string \<Rightarrow> string \<Rightarrow> string \<Rightarrow> (string \<times> unit) option" where
  "fixed_answer body verb args = Some (body, ())"

definition launched_with :: "string \<Rightarrow> launch_result" where
  "launched_with body = fst (the (run_launch (fixed_answer body) ''launch'' sample_cfg))"

definition test_run_launch_success :: "bool list" where
  \<open>test_run_launch_success =
     (let r = launched_with ''<root status_code="200"><sessionUrl0>rtsp://10.0.0.7:48010</sessionUrl0></root>''
      in [lr_ok r, rtspSessionUrl r = ''rtsp://10.0.0.7:48010''])\<close>

definition test_run_launch_failures :: "bool list" where
  \<open>test_run_launch_failures =
     [\<not> lr_ok (launched_with []),
      \<not> lr_ok (launched_with ''<root status_code="401"></root>''),
      \<not> lr_ok (launched_with ''<root status_code="200"></root>'')]\<close>

definition main_nv_launch :: int where
  "main_nv_launch =
     exit_status [test_launch_args_shape, test_gfe_high_fps_quirk, test_hdr_block, test_resume_args_minimal,
       test_run_launch_success, test_run_launch_failures]"

section \<open>The stream settings\<close>

definition settings :: "int \<Rightarrow> int \<Rightarrow> int \<Rightarrow> int \<Rightarrow> string \<Rightarrow> bool \<Rightarrow> jvalue" where
  "settings w h fps kbps mode hdr =
     obj [(''width'', JNum (double_of_int w)), (''height'', JNum (double_of_int h)), (''fps'', JNum (double_of_int fps)),
          (''bitrateKbps'', JNum (double_of_int kbps)), (''displayMode'', JStr mode), (''hdr'', JBool hdr)]"

definition test_defaults_when_null :: "bool list" where
  "test_defaults_when_null =
     (case validate_stream_settings JNull of
        Inl e \<Rightarrow> [False]
      | Inr out \<Rightarrow>
          [True,
           ss_width out = 1920 \<and> ss_height out = 1080,
           ss_fps out = 60 \<and> bitrateKbps out = 20000,
           displayMode out = ''fullscreen'' \<and> \<not> ss_hdr out])"

definition test_valid_full :: "bool list" where
  "test_valid_full =
     (case validate_stream_settings (settings 2560 1440 120 50000 ''borderless'' True) of
        Inl e \<Rightarrow> [False]
      | Inr out \<Rightarrow>
          [True,
           ss_width out = 2560 \<and> ss_height out = 1440 \<and> ss_fps out = 120,
           displayMode out = ''borderless'' \<and> ss_hdr out])"

definition test_partial_object_uses_defaults :: "bool list" where
  "test_partial_object_uses_defaults =
     (case validate_stream_settings (obj [(''fps'', JNum (double_of_int 30))]) of
        Inl e \<Rightarrow> [False]
      | Inr out \<Rightarrow> [True, ss_fps out = 30, ss_width out = 1920])"

definition expect_bad :: "jvalue \<Rightarrow> bool list" where
  "expect_bad v =
     (case validate_stream_settings v of
        Inl (code, msg) \<Rightarrow> [True, code = ''bad_params'', msg \<noteq> []]
      | Inr out \<Rightarrow> [False, False, False])"

definition test_out_of_range_rejected :: "bool list" where
  "test_out_of_range_rejected =
     expect_bad (settings 100 1080 60 20000 ''fullscreen'' False)
     @ expect_bad (settings 1920 9000 60 20000 ''fullscreen'' False)
     @ expect_bad (settings 1920 1080 5 20000 ''fullscreen'' False)
     @ expect_bad (settings 1920 1080 300 20000 ''fullscreen'' False)
     @ expect_bad (settings 1920 1080 60 100 ''fullscreen'' False)
     @ expect_bad (settings 1920 1080 60 20000 ''picture-in-picture'' False)"

definition test_non_object_rejected :: "bool list" where
  "test_non_object_rejected = expect_bad (JStr ''1080p'') @ expect_bad (JNum (double_of_int 60))"

definition main_stream_config :: int where
  "main_stream_config =
     exit_status [test_defaults_when_null, test_valid_full, test_partial_object_uses_defaults, test_out_of_range_rejected,
       test_non_object_rejected]"

section \<open>HTTP\<close>

definition http_ok :: string where
  "http_ok = ''HTTP/1.1 200 OK'' @ crlf @ ''Content-Length: 5'' @ crlf @ ''Content-Type: text/xml'' @ crlf @ crlf @ ''hello''"

definition http_chunked :: string where
  "http_chunked =
     ''HTTP/1.1 200 OK'' @ crlf @ ''Transfer-Encoding: chunked'' @ crlf @ crlf
     @ ''5'' @ crlf @ ''hello'' @ crlf @ ''6'' @ crlf @ '' world'' @ crlf @ ''0'' @ crlf @ crlf"

definition test_http_helpers :: "bool list" where
  "test_http_helpers =
     [build_request_target ''pair'' ''abc'' ''deadbeef'' ''phrase=getservercert''
        = ''/pair?uniqueid=abc&uuid=deadbeef&phrase=getservercert'',
      build_request_target ''serverinfo'' ''abc'' ''deadbeef'' [] = ''/serverinfo?uniqueid=abc&uuid=deadbeef'',
      parse_http_response http_ok = Some \<lparr>rsp_ok = True, httpStatus = 200, rsp_body = ''hello''\<rparr>,
      (case parse_http_response http_chunked of None \<Rightarrow> False | Some r \<Rightarrow> rsp_ok r \<and> rsp_body r = ''hello world''),
      (case parse_http_response ''garbage not http'' of None \<Rightarrow> False | Some r \<Rightarrow> \<not> rsp_ok r)]"

section \<open>They pass\<close>

lemma gamestream_xml_passes: "main_gamestream_xml = 0"
  by code_simp

text \<open>The list is made of closed blocks, so it is read block by block.\<close>

lemma kApplist_blocks:
  \<open>kApplist =
     (''<?xml version="1.0" encoding="utf-8"?>'' @ ''<root status_code="200">'')
     @ concat (map app_block
         [''<IsHdrSupported>0</IsHdrSupported><AppTitle>Desktop</AppTitle><ID>1</ID>'',
          ''<AppTitle>Steam Big Picture</AppTitle><ID>881448767</ID><IsHdrSupported>1</IsHdrSupported>'',
          ''<AppTitle>Halo &amp; Friends</AppTitle><ID>42</ID>''])
     @ ''</root>''\<close>
  by (simp add: kApplist_def app_block_def)

lemma kApplist_apps:
  "parse_app_list kApplist =
     [\<lparr>app_id = 1, app_title = ''Desktop'', hdrSupported = False\<rparr>,
      \<lparr>app_id = 881448767, app_title = ''Steam Big Picture'', hdrSupported = True\<rparr>,
      \<lparr>app_id = 42, app_title = ''Halo & Friends'', hdrSupported = False\<rparr>]"
  unfolding kApplist_blocks by (subst parse_app_blocks) code_simp+

lemma applist_tests:
  "list_all id test_parse_basic" "list_all id test_parse_skips_incomplete_and_empty"
  "list_all id test_resolve_numeric_passthrough" "list_all id test_resolve_by_name" "list_all id test_fetch_flow"
proof -
  show "list_all id test_parse_basic" by (simp add: test_parse_basic_def kApplist_apps)
  show "list_all id test_parse_skips_incomplete_and_empty" by code_simp
  show "list_all id test_resolve_numeric_passthrough"
    by (simp add: test_resolve_numeric_passthrough_def kApplist_apps) code_simp
  show "list_all id test_resolve_by_name" by (simp add: test_resolve_by_name_def kApplist_apps) code_simp
  show "list_all id test_fetch_flow" by (simp add: test_fetch_flow_def fetch_app_list_def kApplist_apps) code_simp
qed

lemma nv_applist_passes: "main_nv_applist = 0"
  using applist_tests by (simp add: main_nv_applist_def exit_status_def)

lemma nv_launch_passes: "main_nv_launch = 0"
  by code_simp

lemma stream_config_passes: "main_stream_config = 0"
  by code_simp

lemma chunked_facts:
  "str_find http_chunked '' '' 0 = Some 8" "atoi (drop 9 http_chunked) = 200" "take 5 http_chunked = ''HTTP/''"
  "split_headers http_chunked = (43, 47)"
  "str_find (map to_lower (substr http_chunked 0 43)) ''transfer-encoding: chunked'' 0 \<noteq> None"
  "drop 47 http_chunked = encode_chunks [''hello'', '' world'']"
  by code_simp+

lemma chunked_response:
  "parse_http_response http_chunked = Some \<lparr>rsp_ok = True, httpStatus = 200, rsp_body = ''hello world''\<rparr>"
  using dechunk_roundtrip [of "[''hello'', '' world'']"] chunked_facts
  by (simp add: parse_http_response_def Let_def encode_chunks_def encode_chunk_def hex_digits.simps crlf_def)

lemma http_helpers_pass: "list_all id test_http_helpers"
proof -
  have "build_request_target ''pair'' ''abc'' ''deadbeef'' ''phrase=getservercert''
      = ''/pair?uniqueid=abc&uuid=deadbeef&phrase=getservercert''"
    "build_request_target ''serverinfo'' ''abc'' ''deadbeef'' [] = ''/serverinfo?uniqueid=abc&uuid=deadbeef''"
    "parse_http_response http_ok = Some \<lparr>rsp_ok = True, httpStatus = 200, rsp_body = ''hello''\<rparr>"
    "case parse_http_response ''garbage not http'' of None \<Rightarrow> False | Some r \<Rightarrow> \<not> rsp_ok r"
    by code_simp+
  then show ?thesis by (simp add: test_http_helpers_def chunked_response)
qed

end
