(* ===== verification/HostTests.thy ===== *)
theory HostTests
  imports Evaluation HostApps ClientTrust SunshineBackend IdentityStore
begin

text \<open>
  The repository's unit tests of the catalog, the Sunshine driver's helpers and the trusted clients
  (\<^verbatim>\<open>src/tests/test_host_apps.cpp\<close>, on POSIX) and of the store (\<^verbatim>\<open>src/tests/test_identity_store.cpp\<close>), run on the
  definitions of this development over an empty disk.  What OpenSSL generates is an argument.
\<close>

definition new_app :: "string \<Rightarrow> host_app" where
  "new_app name =
     \<lparr>ha_name = name, ha_cmd = [], imagePath = [], workingDir = [], ha_output = [], elevated = False, autoDetach = True,
      waitAll = True, exitTimeout = 5\<rparr>"

section \<open>The catalog\<close>

definition halo :: host_app where
  "halo =
     (new_app ''Halo & Friends'')
       \<lparr>ha_cmd := ''C:/Games/halo.exe'', imagePath := ''C:/art/halo.png'', workingDir := ''C:/Games'', elevated := True,
        autoDetach := False, waitAll := False, exitTimeout := 12\<rparr>"

definition test_serialize_parse_roundtrip :: "bool list" where
  \<open>test_serialize_parse_roundtrip =
     (let json = serialize_apps_json [new_app ''Desktop'', halo];
          back = parse_apps_json json
      in [contains json ''"apps"'', contains json ''"env"'', contains json ''"image-path"'']
         @ [length back = 2]
         @ (if length back = 2
            then [ha_name (back ! 0) = ''Desktop'' \<and> ha_cmd (back ! 0) = [],
                  ha_name (back ! 1) = ''Halo & Friends'',
                  ha_cmd (back ! 1) = ''C:/Games/halo.exe'',
                  imagePath (back ! 1) = ''C:/art/halo.png'',
                  elevated (back ! 1) \<and> \<not> autoDetach (back ! 1) \<and> \<not> waitAll (back ! 1),
                  exitTimeout (back ! 1) = 12]
            else []))\<close>

definition test_parse_tolerant :: "bool list" where
  \<open>test_parse_tolerant =
     (let xml = ''{"apps":[''
                @ ''{"name":"OnlyName"},''
                @ ''{"cmd":"x"},''
                @ ''{"name":"WithPrep","cmd":"y","prep-cmd":[{"do":"a","undo":"b"}]}''
                @ '']}'';
          apps = parse_apps_json xml
      in [length apps = 2]
         @ (if length apps = 2
            then [ha_name (apps ! 0) = ''OnlyName'' \<and> exitTimeout (apps ! 0) = 5,
                  autoDetach (apps ! 0) \<and> waitAll (apps ! 0),
                  ha_name (apps ! 1) = ''WithPrep'' \<and> ha_cmd (apps ! 1) = ''y'']
            else [])
         @ [parse_apps_json ''not json'' = [], parse_apps_json ''{"nope":1}'' = []])\<close>

definition test_read_write_file :: "bool list" where
  "test_read_write_file =
     (let dir = path_join ''/tmp'' ''ase_host_apps_test'';
          path = path_join (path_join dir ''nested'') ''sunshine_apps.json'';
          (fs, written) = write_apps path [(new_app ''Steam'')\<lparr>ha_cmd := ''steam''\<rparr>] blank_fs;
          back = read_apps path fs
      in [written,
          length back = 1 \<and> ha_name (back ! 0) = ''Steam'',
          read_apps (path_join dir ''missing.json'') fs = []])"

definition test_diff :: "bool list" where
  "test_diff =
     (let keep = (new_app ''Keep'')\<lparr>ha_cmd := ''k''\<rparr>;
          edit = (new_app ''Edit'')\<lparr>ha_cmd := ''old''\<rparr>;
          prev = [keep, new_app ''Drop'', edit];
          later = [keep, (new_app ''Edit'')\<lparr>ha_cmd := ''new''\<rparr>, new_app ''Add''];
          d = diff_apps prev later;
          same = diff_apps prev prev
      in [added d = 1, removed d = 1, updated d = 1,
          added same = 0 \<and> removed same = 0 \<and> updated same = 0])"

section \<open>The driver's helpers\<close>

definition only_bundled :: "string \<Rightarrow> bool" where
  "only_bundled p =
     (let n = ''sunshine'' in length n \<le> length p \<and> drop (length p - length n) p = n)"

definition test_resolve_binary :: "bool list" where
  "test_resolve_binary =
     (let always = (\<lambda>_. True);
          never = (\<lambda>_. False);
          fromDir = resolve_sunshine_binary ''/engine'' ''/missing'' only_bundled
      in [resolve_sunshine_binary ''/engine'' ''/custom/sun'' always = ''/custom/sun'',
          str_find fromDir ''/engine'' 0 = Some 0 \<and> contains fromDir ''sunshine'',
          resolve_sunshine_binary ''/engine'' [] never = [],
          resolve_sunshine_binary [] [] always = []])"

definition test_launch_args :: "bool list" where
  "test_launch_args =
     (let args = host_build_launch_args ''/data/sunshine_apps.json'';
          dir = ''/data''
      in [length args = 6]
         @ (if length args = 6
            then [args ! 0 = ''file_apps=/data/sunshine_apps.json'',
                  args ! 1 = ''log_path='' @ path_join dir ''sunshine.log'',
                  args ! 2 = ''min_log_level=1'',
                  args ! 3 = ''file_state='' @ path_join dir ''sunshine_state.json'',
                  args ! 4 = ''cert='' @ path_join dir ''cert.pem'',
                  args ! 5 = ''pkey='' @ path_join dir ''pkey.pem'']
            else [])
         @ [host_state_path ''/data/sunshine_apps.json'' = path_join ''/data'' ''sunshine_state.json'',
            host_cert_path ''/data/sunshine_apps.json'' = path_join ''/data'' ''cert.pem'',
            host_state_path [] = [] \<and> host_cert_path [] = [] \<and> host_pkey_path [] = [],
            host_build_launch_args [] = []])"

definition test_sunshine_work_dir :: "bool list" where
  "test_sunshine_work_dir =
     (let bin = path_join ''/opt/engine/host-engine/0.3.7'' ''sunshine''
      in [sunshine_work_dir bin = ''/opt/engine/host-engine/0.3.7'', sunshine_work_dir [] = []])"

definition test_host_launch_command :: "bool list" where
  \<open>test_host_launch_command =
     (let steam = host_launch_command ''steam://rungameid/220'';
          epic = host_launch_command ''com.epicgames.launcher://apps/x?action=launch''
      in [host_launch_command ''C:/Games/halo.exe'' = ''C:/Games/halo.exe'',
          host_launch_command [] = [],
          contains steam ''steam://rungameid/220'',
          contains epic ''com.epicgames.launcher://'',
          steam \<noteq> ''steam://rungameid/220'',
          take 10 steam = ''xdg-open "'',
          host_launch_command ''steam://rungameid/220'' = steam])\<close>

section \<open>Trusted clients\<close>

text \<open>The tests' own reader of the state document.\<close>

definition trusted_certs :: "string \<Rightarrow> string list" where
  "trusted_certs stateJson =
     (case parse stateJson of
        None \<Rightarrow> []
      | Some doc \<Rightarrow>
          (case jfind ''root'' doc of
             None \<Rightarrow> []
           | Some rt \<Rightarrow>
               (case jfind ''named_devices'' rt of
                  Some (JArr devices) \<Rightarrow> map (get_str ''cert'' []) devices
                | _ \<Rightarrow> [])))"

definition test_trust_client_from_empty :: "bool list" where
  "test_trust_client_from_empty =
     (let s = add_trusted_client [] ''PC-B'' ''CERT_B'' ''uuid-1'';
          certs = trusted_certs s
      in [length certs = 1 \<and> certs ! 0 = ''CERT_B'',
          has_trusted_client s ''CERT_B'',
          \<not> has_trusted_client s ''CERT_OTHER'',
          \<not> has_trusted_client [] ''CERT_B''])"

definition test_trust_client_idempotent :: "bool list" where
  "test_trust_client_idempotent =
     (let s = add_trusted_client [] ''PC-B'' ''CERT_B'' ''uuid-1'';
          s2 = add_trusted_client s ''PC-B'' ''CERT_B'' ''uuid-2''
      in [length (trusted_certs s2) = 1])"

definition test_trust_client_appends_and_preserves :: "bool list" where
  \<open>test_trust_client_appends_and_preserves =
     (let s = add_trusted_client ''{"root":{"uniqueid":"HOST-UID","named_devices":[]}}'' ''PC-B'' ''CERT_B'' ''uuid-1'';
          s2 = add_trusted_client s ''PC-C'' ''CERT_C'' ''uuid-2''
      in [length (trusted_certs s2) = 2,
          has_trusted_client s2 ''CERT_B'' \<and> has_trusted_client s2 ''CERT_C'',
          (case parse s2 of
             None \<Rightarrow> False
           | Some doc \<Rightarrow>
               (case jfind ''root'' doc of None \<Rightarrow> False | Some rt \<Rightarrow> get_str ''uniqueid'' [] rt = ''HOST-UID''))])\<close>

definition main_host_apps :: int where
  "main_host_apps =
     exit_status [test_serialize_parse_roundtrip, test_parse_tolerant, test_read_write_file, test_diff, test_resolve_binary,
       test_launch_args, test_sunshine_work_dir, test_host_launch_command, test_trust_client_from_empty,
       test_trust_client_idempotent, test_trust_client_appends_and_preserves]"

section \<open>The store\<close>

definition temp_store :: "string \<Rightarrow> string" where
  "temp_store tag = path_join ''/tmp'' (''ase_store_test_'' @ tag)"

text \<open>With what OpenSSL generates, when asked first and when asked again.\<close>

definition test_identity_is_generated_then_persisted ::
  "client_identity option \<Rightarrow> 64 word option \<Rightarrow> client_identity option \<Rightarrow> 64 word option \<Rightarrow> bool list" where
  "test_identity_is_generated_then_persisted made1 rnd1 made2 rnd2 =
     (let dir = temp_store ''identity''
      in case load_or_create_identity dir made1 rnd1 blank_fs of
           (fs, None) \<Rightarrow> [False]
         | (fs, Some (id1, uid1)) \<Rightarrow>
             [True,
              certPem id1 \<noteq> [] \<and> keyPem id1 \<noteq> [],
              uid1 \<noteq> [],
              contains (certPem id1) ''BEGIN CERTIFICATE'',
              files fs (path_join dir ''client.crt'') \<noteq> None,
              files fs (path_join dir ''client.key'') \<noteq> None,
              files fs (path_join dir ''uniqueid'') \<noteq> None]
             @ (case load_or_create_identity dir made2 rnd2 fs of
                  (fs2, None) \<Rightarrow> [False]
                | (fs2, Some (id2, uid2)) \<Rightarrow>
                    [True, certPem id2 = certPem id1, keyPem id2 = keyPem id1, uid2 = uid1]))"

definition living_room :: paired_host where
  "living_room = \<lparr>address = ''10.0.0.5'', host_name = ''Living Room'', serverCertPem = ''-----CERT-A-----''\<rparr>"

definition office :: paired_host where
  "office = \<lparr>address = ''10.0.0.9'', host_name = ''Office'', serverCertPem = ''-----CERT-B-----''\<rparr>"

definition den :: paired_host where
  "den = \<lparr>address = ''10.0.0.5'', host_name = ''Den'', serverCertPem = ''-----CERT-A2-----''\<rparr>"

definition test_host_registry_roundtrip :: "bool list" where
  "test_host_registry_roundtrip =
     (let dir = temp_store ''hosts'';
          (fs1, added_a) = upsert_host dir living_room blank_fs;
          (fs2, added_b) = upsert_host dir office fs1;
          (fs3, again) = upsert_host dir den fs2;
          (fs4, removed_a) = remove_host dir ''10.0.0.5'' fs3;
          (fs5, removed_again) = remove_host dir ''10.0.0.5'' fs4;
          (fs6, bad) = upsert_host dir \<lparr>address = [], host_name = ''bad'', serverCertPem = ''x''\<rparr> fs5
      in [list_hosts dir blank_fs = [],
          find_host dir ''10.0.0.5'' blank_fs = None,
          added_a, added_b,
          length (list_hosts dir fs2) = 2,
          (case find_host dir ''10.0.0.5'' fs2 of
             None \<Rightarrow> False
           | Some a \<Rightarrow> host_name a = ''Living Room'' \<and> serverCertPem a = ''-----CERT-A-----''),
          length (list_hosts dir fs2) = 2,
          again,
          length (list_hosts dir fs3) = 2,
          (case find_host dir ''10.0.0.5'' fs3 of
             None \<Rightarrow> False
           | Some a \<Rightarrow> host_name a = ''Den'' \<and> serverCertPem a = ''-----CERT-A2-----''),
          removed_a, \<not> removed_again,
          length (list_hosts dir fs5) = 1,
          \<not> bad])"

definition main_identity_store :: "client_identity option \<Rightarrow> 64 word option \<Rightarrow> client_identity option \<Rightarrow> 64 word option \<Rightarrow> int" where
  "main_identity_store made1 rnd1 made2 rnd2 =
     exit_status [test_identity_is_generated_then_persisted made1 rnd1 made2 rnd2, test_host_registry_roundtrip]"

section \<open>They pass\<close>

lemma catalog_tests:
  "list_all id test_serialize_parse_roundtrip" "list_all id test_parse_tolerant" "list_all id test_read_write_file"
  "list_all id test_diff"
  by code_simp+

lemma driver_tests:
  "list_all id test_resolve_binary" "list_all id test_launch_args" "list_all id test_sunshine_work_dir"
  "list_all id test_host_launch_command"
  by code_simp+

lemma trust_tests:
  "list_all id test_trust_client_from_empty" "list_all id test_trust_client_idempotent"
  "list_all id test_trust_client_appends_and_preserves"
  by code_simp+

lemma host_apps_passes: "main_host_apps = 0"
  using catalog_tests driver_tests trust_tests by (simp add: main_host_apps_def exit_status_def)

lemma registry_test: "list_all id test_host_registry_roundtrip"
  by code_simp

text \<open>The identity of the first call is the one of the second, whatever the second would have made.\<close>

definition sample_identity :: client_identity where
  "sample_identity = \<lparr>certPem = ''BEGIN CERTIFICATE'', keyPem = ''PRIVATE KEY''\<rparr>"

lemma identity_test:
  "list_all id (test_identity_is_generated_then_persisted (Some sample_identity) (Some 0x0123456789abcdef) None None)"
  by code_simp

lemma identity_store_passes: "main_identity_store (Some sample_identity) (Some 0x0123456789abcdef) None None = 0"
  using registry_test identity_test by (simp add: main_identity_store_def exit_status_def)

end
