(* ===== verification/IpcTests.thy ===== *)
theory IpcTests
  imports Evaluation
begin

text \<open>
  The repository's unit tests of the IPC core (\<^verbatim>\<open>src/tests/test_ipc.cpp\<close>), run on the definitions of this
  development over the tests' transport in memory, which is a third instance of the contract of
  \<open>Transport\<close>.
\<close>

unbundle bit_operations_syntax

section \<open>The transport in memory\<close>

record mem =
  mem_in :: bytes
  mem_pos :: nat
  mem_out :: bytes

definition mem_of :: "bytes \<Rightarrow> mem" where
  "mem_of bs = \<lparr>mem_in = bs, mem_pos = 0, mem_out = []\<rparr>"

definition mem_read :: "mem \<Rightarrow> nat \<Rightarrow> mem \<times> bytes option" where
  "mem_read t n =
     (if length (mem_in t) < mem_pos t + n then (t, None)
      else (t\<lparr>mem_pos := mem_pos t + n\<rparr>, Some (take n (drop (mem_pos t) (mem_in t)))))"

definition mem_write :: "mem \<Rightarrow> bytes \<Rightarrow> mem \<times> bool" where
  "mem_write t bs = (t\<lparr>mem_out := mem_out t @ bs\<rparr>, True)"

definition mem_transport :: "mem itransport" where
  "mem_transport = \<lparr>read_exact = mem_read, write_all = mem_write, close_t = (\<lambda>t. t)\<rparr>"

interpretation mem: transport mem_transport "\<lambda>t. drop (mem_pos t) (mem_in t)" mem_out "\<lambda>t. mem_pos t \<le> length (mem_in t)"
  by unfold_locales
    (auto simp: mem_transport_def mem_read_def mem_write_def split: if_splits, simp_all add: add.commute flip: drop_drop)

section \<open>Frames as the launcher writes and reads them\<close>

definition framed :: "bytes \<Rightarrow> bytes" where
  "framed payload =
     (let n = of_nat (length payload) :: 32 word
      in [to_byte (n AND 0xFF), to_byte (drop_bit 8 n AND 0xFF), to_byte (drop_bit 16 n AND 0xFF), to_byte (drop_bit 24 n AND 0xFF)]
         @ payload)"

function unframe_all :: "bytes \<Rightarrow> bytes list" where
  "unframe_all buf =
     (if length buf < 4 then []
      else
        let n = unat (of_nat (byte_of (buf ! 0)) OR push_bit 8 (of_nat (byte_of (buf ! 1))) OR push_bit 16 (of_nat (byte_of (buf ! 2)))
                      OR push_bit 24 (of_nat (byte_of (buf ! 3))) :: 32 word);
            rest = drop 4 buf
        in if length rest < n then [] else take n rest # unframe_all (drop n rest))"
  by pat_completeness auto
termination
  by (relation "measure length") auto

declare unframe_all.simps [simp del]

section \<open>The tests\<close>

definition json_src :: string where
  \<open>json_src =
     ''{"kind":"req","id":7,"method":"client.start","params":{"host":"10.0.0.5",''
     @ ''"settings":{"width":1920,"height":1080,"fps":60,"hdr":true},"tags":["a","b"],''
     @ ''"note":"line'' @ [CHR 0x5C] @ ''nbreak '' @ [CHR 0x5C] @ ''"q'' @ [CHR 0x5C] @ ''" '' @ [CHR 0xE2, CHR 0x80, CHR 0x94]
     @ '' end","empty":null}}''\<close>

definition child_of :: "string \<Rightarrow> jvalue option \<Rightarrow> jvalue option" where
  "child_of k v = (case v of None \<Rightarrow> None | Some j \<Rightarrow> jfind k j)"

definition holds :: "jvalue option \<Rightarrow> (jvalue \<Rightarrow> bool) \<Rightarrow> bool" where
  "holds v p \<longleftrightarrow> (case v of None \<Rightarrow> False | Some j \<Rightarrow> p j)"

definition array_of :: "nat \<Rightarrow> jvalue \<Rightarrow> bool" where
  "array_of n v \<longleftrightarrow> (case v of JArr vs \<Rightarrow> length vs = n | _ \<Rightarrow> False)"

definition get_int :: "string \<Rightarrow> jvalue \<Rightarrow> int" where
  "get_int k v = cast_int (get_num k (Fin 0) v)"

definition test_json_roundtrip :: "bool list" where
  \<open>test_json_roundtrip =
     (let v = parse json_src
      in [v \<noteq> None]
         @ (case v of
              None \<Rightarrow> []
            | Some j \<Rightarrow>
                (let params = jfind ''params'' j;
                     settings = child_of ''settings'' params;
                     tags = child_of ''tags'' params;
                     empty = child_of ''empty'' params;
                     rev = parse (dump j)
                 in [get_str ''kind'' [] j = ''req'',
                     get_int ''id'' j = 7,
                     get_str ''method'' [] j = ''client.start'',
                     holds params is_object,
                     holds params (\<lambda>p. get_str ''host'' [] p = ''10.0.0.5''),
                     holds settings (\<lambda>s. get_int ''width'' s = 1920),
                     holds settings (\<lambda>s. get_bool ''hdr'' False s),
                     holds tags (array_of 2),
                     holds params (\<lambda>p. get_str ''note'' [] p
                       = ''line'' @ [CHR 0x0A] @ ''break "q" '' @ [CHR 0xE2, CHR 0x80, CHR 0x94] @ '' end''),
                     holds empty is_null,
                     rev \<noteq> None,
                     holds rev (\<lambda>r. get_int ''id'' r = 7),
                     dump (JNum (double_of_int 42)) = ''42'',
                     parse ''{bad}'' = None,
                     parse ''{"a":1} trailing'' = None,
                     parse ''[1,2,'' = None])))\<close>

definition test_frame_roundtrip :: "bool list" where
  "test_frame_roundtrip =
     (let (w, werr) = write_frame mem_transport (mem_of []) ''hello world'';
          (r, got) = read_frame mem_transport (mem_of (mem_out w));
          (e, none) = read_frame mem_transport (mem_of [])
      in [werr = None, (case got of Frame p \<Rightarrow> True | _ \<Rightarrow> False), got = Frame ''hello world'', none = Eof])"

definition status_handler :: "unit handler" where
  "status_handler params s =
     ((obj [(''installed'', JBool False), (''appsCount'', JNum (double_of_int 0))], [], []), s)"

definition dispatch_in :: bytes where
  \<open>dispatch_in =
     framed ''{"kind":"hello","protocolVersion":1,"launcherVersion":"x"}''
     @ framed ''{"kind":"req","id":1,"method":"host.status"}''
     @ framed ''{"kind":"req","id":2,"method":"host.nope"}''\<close>

definition test_dispatch :: "string \<Rightarrow> bool list" where
  "test_dispatch version =
     (let (t1, herr) = handshake version mem_transport (mem_of dispatch_in)
      in (herr = None)
         # (case Server.run mem_transport (on ''host.status'' status_handler []) t1 () of
              None \<Rightarrow> [False]
            | Some (t2, u, rerr) \<Rightarrow>
                (let frames = unframe_all (mem_out t2)
                 in [rerr = None, length frames = 3]
                    @ (if length frames \<noteq> 3 then []
                       else
                         let h = parse (frames ! 0);
                             r1 = parse (frames ! 1);
                             r2 = parse (frames ! 2)
                         in [holds h (\<lambda>j. get_str ''kind'' [] j = ''hello''),
                             holds h (\<lambda>j. get_int ''protocolVersion'' j = kProtocolVersion),
                             holds r1 (\<lambda>j. get_str ''kind'' [] j = ''res''),
                             holds r1 (\<lambda>j. get_int ''id'' j = 1),
                             holds r1 (\<lambda>j. get_bool ''ok'' False j),
                             holds (child_of ''result'' r1) (\<lambda>j. \<not> get_bool ''installed'' False j),
                             holds r2 (\<lambda>j. get_int ''id'' j = 2),
                             holds r2 (\<lambda>j. \<not> get_bool ''ok'' False j),
                             holds (child_of ''error'' r2) (\<lambda>j. get_str ''code'' [] j = ''unsupported_method'')]))))"

definition test_handshake_version_mismatch :: "string \<Rightarrow> bool list" where
  \<open>test_handshake_version_mismatch version =
     (let (t, err) = handshake version mem_transport (mem_of (framed ''{"kind":"hello","protocolVersion":999}''))
      in [err \<noteq> None, err \<noteq> Some []])\<close>

definition main_ipc :: "string \<Rightarrow> int" where
  "main_ipc version =
     exit_status [test_json_roundtrip, test_frame_roundtrip, test_dispatch version, test_handshake_version_mismatch version]"

section \<open>They pass\<close>

lemma ipc_tests:
  "list_all id test_json_roundtrip" "list_all id test_frame_roundtrip" "list_all id (test_dispatch ''0.3.9'')"
  "list_all id (test_handshake_version_mismatch ''0.3.9'')"
  by code_simp+

lemma ipc_passes: "main_ipc ''0.3.9'' = 0"
  using ipc_tests by (simp add: main_ipc_def exit_status_def)

end
