(* ===== verification/PairingTests.thy ===== *)
theory PairingTests
  imports NetTests Pairing IdentityStore
begin

text \<open>
  The repository's tests of the pairing (\<^verbatim>\<open>src/tests/test_nv_pairing.cpp\<close>) with their simulated GameStream host,
  and of the cryptographic wrappers (\<^verbatim>\<open>src/tests/test_pairing_crypto.cpp\<close>).  OpenSSL is an argument, the identities it
  generates for the tests among it: what the tests' runs end with is shown for every cryptography with the laws assumed of
  OpenSSL.  Where a run must be computed, with a wrong PIN, it is done with a keyed toy cryptography.
\<close>

unbundle bit_operations_syntax

section \<open>The simulated host\<close>

definition param :: "string \<Rightarrow> string \<Rightarrow> string" where
  "param args name =
     (case str_find args (name @ ''='') 0 of
        None \<Rightarrow> []
      | Some i \<Rightarrow>
          let pos = i + length name + 1
          in case str_find args ''&'' pos of None \<Rightarrow> drop pos args | Some stop \<Rightarrow> substr args pos (stop - pos))"

definition root200 :: "string \<Rightarrow> string" where
  \<open>root200 inner = ''<?xml version="1.0"?><root status_code="200">'' @ inner @ ''</root>''\<close>

text \<open>The host with the other things the tests' lambdas capture: the counter of the byte source and the
  pinned certificate.\<close>

record sim_server =
  sim_pin :: string
  sim_gen7 :: bool
  offerCert :: bool
  sim_id :: client_identity
  sim_aesKey :: bytes
  serverSecret :: bytes
  counter :: nat
  pinned :: string

definition new_sim :: "string \<Rightarrow> int \<Rightarrow> bool \<Rightarrow> client_identity \<Rightarrow> nat \<Rightarrow> sim_server" where
  "new_sim pin gen offer ident n =
     \<lparr>sim_pin = pin, sim_gen7 = (7 \<le> gen), offerCert = offer, sim_id = ident, sim_aesKey = [], serverSecret = [],
      counter = n, pinned = []\<rparr>"

definition respond :: "crypto \<Rightarrow> string \<Rightarrow> string \<Rightarrow> sim_server \<Rightarrow> string \<times> sim_server" where
  "respond c command args s =
     (if command = ''unpair'' then (root200 [], s)
      else if command \<noteq> ''pair'' then ([], s)
      else if contains args ''phrase=getservercert''
      then
        let salt = from_hex (param args ''salt'');
            s1 = s\<lparr>sim_aesKey := derive_aes_key c salt (sim_pin s) (sim_gen7 s)\<rparr>;
            cert = (if offerCert s then to_hex (certPem (sim_id s)) else [])
        in (root200 (''<paired>1</paired><plaincert>'' @ cert @ ''</plaincert>''), s1)
      else if contains args ''clientchallenge=''
      then
        let clientChallenge = aes_ecb_decrypt c (from_hex (param args ''clientchallenge'')) (sim_aesKey s);
            s1 = s\<lparr>serverSecret := replicate 16 (CHR 0x5A)\<rparr>;
            serverChallenge = replicate 16 (CHR 0x33);
            serverResponse = gen_hash c (clientChallenge @ signature_from_pem_cert c (certPem (sim_id s)) @ serverSecret s1) (sim_gen7 s);
            blob = aes_ecb_encrypt c (serverResponse @ serverChallenge) (sim_aesKey s)
        in (root200 (''<paired>1</paired><challengeresponse>'' @ to_hex blob @ ''</challengeresponse>''), s1)
      else if contains args ''serverchallengeresp=''
      then
        let secret = serverSecret s @ sign_message c (serverSecret s) (keyPem (sim_id s))
        in (root200 (''<paired>1</paired><pairingsecret>'' @ to_hex secret @ ''</pairingsecret>''), s)
      else if contains args ''clientpairingsecret='' \<or> contains args ''phrase=pairchallenge''
      then (root200 ''<paired>1</paired>'', s)
      else ([], s))"

definition seq_bytes :: "int \<Rightarrow> sim_server \<Rightarrow> bytes \<times> sim_server" where
  "seq_bytes n s =
     (map (\<lambda>i. char_of ((counter s + i) mod 256)) [0..<nat n], s\<lparr>counter := (counter s + nat n) mod 256\<rparr>)"

definition sim_env :: "crypto \<Rightarrow> sim_server pair_env" where
  "sim_env c =
     \<lparr>transport = (\<lambda>https command args s. Some (respond c command args s)),
      set_pinned = (\<lambda>pem s. s\<lparr>pinned := pem\<rparr>), random_fn = seq_bytes\<rparr>"

definition dead_env :: "sim_server pair_env" where
  "dead_env =
     \<lparr>transport = (\<lambda>https command args s. Some ([], s)), set_pinned = (\<lambda>pem s. s), random_fn = seq_bytes\<rparr>"

section \<open>The tests of the handshake\<close>

definition test_pair_success :: "crypto \<Rightarrow> client_identity \<Rightarrow> client_identity \<Rightarrow> bool list" where
  "test_pair_success c ident client =
     (case nv_pair c (sim_env c) client ''4321'' 7 (new_sim ''4321'' 7 True ident 1) of
        None \<Rightarrow> [False]
      | Some ((state, cert), s) \<Rightarrow> [state = Paired, cert = certPem ident, pinned s = certPem ident])"

definition test_pair_wrong_pin :: "crypto \<Rightarrow> client_identity \<Rightarrow> client_identity \<Rightarrow> bool list" where
  "test_pair_wrong_pin c ident client =
     (case nv_pair c (sim_env c) client ''0000'' 7 (new_sim ''4321'' 7 True ident 49) of
        None \<Rightarrow> [False]
      | Some ((state, cert), s) \<Rightarrow> [state = PinWrong])"

definition test_pair_already_in_progress :: "crypto \<Rightarrow> client_identity \<Rightarrow> client_identity \<Rightarrow> bool list" where
  "test_pair_already_in_progress c ident client =
     (case nv_pair c (sim_env c) client ''4321'' 7 (new_sim ''4321'' 7 False ident 97) of
        None \<Rightarrow> [False]
      | Some ((state, cert), s) \<Rightarrow> [state = AlreadyInProgress])"

definition test_pair_transport_failure :: "crypto \<Rightarrow> client_identity \<Rightarrow> bool list" where
  "test_pair_transport_failure c client =
     (case nv_pair c dead_env client ''4321'' 7 (new_sim [] 7 True client 113) of
        None \<Rightarrow> [False]
      | Some ((state, cert), s) \<Rightarrow> [state = PairFailed])"

definition test_identity :: "crypto \<Rightarrow> client_identity option \<Rightarrow> 64 word option \<Rightarrow> bool list" where
  "test_identity c made rnd =
     (case generate_identity made of
        None \<Rightarrow> [False]
      | Some i \<Rightarrow>
          (let sig = sign_message c ''hello'' (keyPem i);
               uid = generate_unique_id rnd
           in [True,
               contains (certPem i) ''BEGIN CERTIFICATE'',
               contains (keyPem i) ''PRIVATE KEY'',
               sig \<noteq> [] \<and> verify_signature c ''hello'' sig (certPem i),
               signature_from_pem_cert c (certPem i) \<noteq> [],
               length uid = 16,
               list_all (\<lambda>x. x \<in> set ''0123456789abcdef'') uid]))"

section \<open>The tests of the wrappers\<close>

text \<open>The tests read digits with a function of their own, which checks nothing.\<close>

definition digit_or_minus :: "char \<Rightarrow> int" where
  "digit_or_minus ch = (case hex_digit ch of Some d \<Rightarrow> int d | None \<Rightarrow> - 1)"

fun from_hex_unchecked :: "string \<Rightarrow> bytes" where
  "from_hex_unchecked (a # b # h) = to_byte (word_of_int (push_bit 4 (digit_or_minus a) OR digit_or_minus b)) # from_hex_unchecked h"
| "from_hex_unchecked h = []"

definition test_sha :: "crypto \<Rightarrow> bool list" where
  "test_sha c =
     [to_hex (sha256 c ''abc'') = ''ba7816bf8f01cfea414140de5dae2223b00361a396177a9cb410ff61f20015ad'',
      to_hex (sha1 c ''abc'') = ''a9993e364706816aba3e25717850c26c9cd0d89d'']"

definition kat_key :: bytes where
  "kat_key = from_hex_unchecked ''000102030405060708090a0b0c0d0e0f''"

definition kat_pt :: bytes where
  "kat_pt = from_hex_unchecked ''00112233445566778899aabbccddeeff''"

definition kat_ct :: bytes where
  "kat_ct = from_hex_unchecked ''69c4e0d86a7b0430d8cdb78070b4c55a''"

definition test_aes_kat :: "crypto \<Rightarrow> bool list" where
  "test_aes_kat c = [aes_ecb_encrypt c kat_pt kat_key = kat_ct, aes_ecb_decrypt c kat_ct kat_key = kat_pt]"

definition test_aes_roundtrip_and_misuse :: "crypto \<Rightarrow> (nat \<Rightarrow> char) \<Rightarrow> bool list" where
  "test_aes_roundtrip_and_misuse c rnd =
     (let key = random_bytes 16 (Some rnd);
          pt = ''sixteen bytes!!!''
      in [aes_ecb_decrypt c (aes_ecb_encrypt c pt key) key = pt,
          aes_ecb_encrypt c ''short'' key = [],
          aes_ecb_encrypt c pt ''badkey'' = [],
          aes_ecb_encrypt c [] key = []])"

definition test_derive_aes_key :: "crypto \<Rightarrow> bool list" where
  "test_derive_aes_key c =
     (let salt = from_hex_unchecked ''00112233445566778899aabbccddeeff'';
          pin = ''1234''
      in [derive_aes_key c salt pin True = take 16 (sha256 c (salt @ pin)),
          derive_aes_key c salt pin False = take 16 (sha1 c (salt @ pin)),
          length (derive_aes_key c salt pin True) = 16])"

definition test_random_bytes :: "(nat \<Rightarrow> char) \<Rightarrow> (nat \<Rightarrow> char) \<Rightarrow> (nat \<Rightarrow> char) \<Rightarrow> bool list" where
  "test_random_bytes r1 r2 r3 =
     [length (random_bytes 16 (Some r1)) = 16,
      random_bytes 0 (Some r1) = [] \<and> random_bytes (- 1) (Some r1) = [],
      random_bytes 32 (Some r2) \<noteq> random_bytes 32 (Some r3)]"

definition test_sign_verify_and_cert_signature :: "crypto \<Rightarrow> client_identity option \<Rightarrow> bool list" where
  "test_sign_verify_and_cert_signature c made =
     (case made of
        None \<Rightarrow> [False]
      | Some i \<Rightarrow>
          (let msg = ''client pairing secret bytes'';
               sig = sign_message c msg (keyPem i)
           in [signature_from_pem_cert c (certPem i) \<noteq> [],
               signature_from_pem_cert c ''not a cert'' = [],
               sig \<noteq> [],
               verify_signature c msg sig (certPem i),
               \<not> verify_signature c ''tampered'' sig (certPem i),
               \<not> verify_signature c msg sig ''not a cert'',
               sign_message c msg ''not a key'' = []]))"

definition main_pairing_crypto ::
  "crypto \<Rightarrow> client_identity option \<Rightarrow> (nat \<Rightarrow> char) \<Rightarrow> (nat \<Rightarrow> char) \<Rightarrow> (nat \<Rightarrow> char) \<Rightarrow> int" where
  "main_pairing_crypto c made r1 r2 r3 =
     exit_status [test_sha c, test_aes_kat c, test_aes_roundtrip_and_misuse c r1, test_derive_aes_key c,
       test_random_bytes r1 r2 r3, test_sign_verify_and_cert_signature c made]"

text \<open>They hold for every cryptography with the laws assumed of OpenSSL, and two draws that differ.\<close>

lemma wrapper_tests:
  assumes "crypto_laws c"
  shows "list_all id (test_aes_roundtrip_and_misuse c rnd)" "list_all id (test_derive_aes_key c)"
    "random_bytes 32 (Some r2) \<noteq> random_bytes 32 (Some r3) \<Longrightarrow> list_all id (test_random_bytes r1 r2 r3)"
proof -
  have "length (random_bytes 16 (Some rnd)) = 16" by (simp add: random_bytes_def)
  then show "list_all id (test_aes_roundtrip_and_misuse c rnd)"
    using aes_roundtrip [OF assms, of "random_bytes 16 (Some rnd)" "''sixteen bytes!!!''"]
    by (simp add: test_aes_roundtrip_and_misuse_def Let_def) (simp add: aes_ecb_encrypt_def aes_ecb_def)
  have "length (sha256 c d) = 32" "length (sha1 c d) = 20" for d
    using gen_hash_length [OF assms, of d True] gen_hash_length [OF assms, of d False] by (simp_all add: gen_hash_def)
  then show "list_all id (test_derive_aes_key c)" by (simp add: test_derive_aes_key_def derive_aes_key_def Let_def)
  show "random_bytes 32 (Some r2) \<noteq> random_bytes 32 (Some r3) \<Longrightarrow> list_all id (test_random_bytes r1 r2 r3)"
    by (simp add: test_random_bytes_def) (simp add: random_bytes_def)
qed

section \<open>A keyed cryptography\<close>

text \<open>The digest turns its input round, and the cipher exchanges one byte of the key, which comes from the
  PIN, with another; so another PIN gives another cipher.\<close>

definition exchange_byte :: "bytes \<Rightarrow> bytes \<Rightarrow> bytes" where
  "exchange_byte k = map (\<lambda>b. if b = k ! 2 then CHR 0x5A else if b = CHR 0x5A then k ! 2 else b)"

definition keyed_crypto :: crypto where
  "keyed_crypto =
     \<lparr>evp_sha256 = (\<lambda>d. Some (take 32 (rev d @ replicate 32 (CHR ''#'')))),
      evp_sha1 = (\<lambda>d. Some (take 20 (rev d @ replicate 20 (CHR ''#'')))),
      evp_aes_enc = (\<lambda>k d. Some (exchange_byte k d)), evp_aes_dec = (\<lambda>k d. Some (exchange_byte k d)),
      x509_signature = (\<lambda>pem. if take 5 pem = ''BEGIN'' then Some (''sig'' @ pem) else None),
      evp_verify = (\<lambda>pem m s. take 5 pem = ''BEGIN'' \<and> s = ''s'' @ m),
      evp_sign = (\<lambda>key m. if take 7 key = ''PRIVATE'' then Some (''s'' @ m) else None)\<rparr>"

definition pem_identity :: client_identity where
  "pem_identity = \<lparr>certPem = ''BEGIN CERTIFICATE'', keyPem = ''PRIVATE KEY''\<rparr>"

section \<open>What the simulated host answers\<close>

lemma hex_set: "set (to_hex bs) \<subseteq> set ''0123456789abcdef''"
proof -
  have d: "hex_char d \<in> set ''0123456789abcdef''" if "d < 16" for d
  proof -
    have "\<forall>d \<in> set [0..<16]. hex_char d \<in> set ''0123456789abcdef''" by code_simp
    then show ?thesis using that by simp
  qed
  show ?thesis
  proof (induction bs)
    case (Cons b bs)
    have "byte_of b div 16 < 16" "byte_of b mod 16 < 16" using byte_of_div_16 [of b] by simp_all
    then show ?case using Cons d by (simp only: to_hex_Cons list.set insert_subset)
  qed (simp add: to_hex_def)
qed

lemma find_in_hex:
  assumes "\<not> set n \<subseteq> set ''0123456789abcdef''"
  shows "find_sub n (to_hex bs) = None"
  unfolding find_sub_None_iff
proof (intro allI impI notI)
  fix j assume "prefix n (drop j (to_hex bs))"
  then have "set n \<subseteq> set (to_hex bs)" by (meson set_drop_subset set_mono_prefix subset_trans)
  then show False using assms hex_set [of bs] by blast
qed

lemma find_before_hex:
  assumes "find_sub n pre = None" "list_all (\<lambda>i. \<not> prefix (drop i pre) n) [0..<length pre]"
    "\<not> set n \<subseteq> set ''0123456789abcdef''"
  shows "find_sub n (pre @ to_hex bs) = None"
  by (simp add: find_sub_past [OF assms(1,2)] find_in_hex [OF assms(3)])

lemma root200_paired: "paired_ok (root200 (''<paired>1</paired>'' @ r))"
proof -
  let ?pre = \<open>''<?xml version="1.0"?>''\<close>
  let ?head = \<open>?pre @ ''<root status_code="200">''\<close>
  have n: "find_start_tag ?pre ''root'' = None" "find_start_tag ?head ''paired'' = None" by code_simp+
  have e: "encode_entities ''200'' = ''200''" "encode_entities ''1'' = ''1''" by (simp_all add: encode_entities_def entity_def)
  have f: "find_sub (''status_code'' @ ''='') (''<'' @ ''root'' @ '' '' @ ''status_code'' @ ''='')
      = Some (Suc (length ''root'' + length '' ''))" by code_simp
  have "xml_attr (root200 (''<paired>1</paired>'' @ r)) ''root'' ''status_code'' = ''200''"
    using xml_attr_value [OF n(1) _ _ _ _ _ f, of "[]" "CHR 0x22" "''200''" "''<paired>1</paired>'' @ r @ ''</root>''"]
    by (simp add: e root200_def is_space_def byte_of_def)
  moreover have "xml_text (root200 (''<paired>1</paired>'' @ r)) ''paired'' = ''1''"
    using xml_text_value [OF n(2), of "[]" "''1''" "''>'' @ r @ ''</root>''"] by (simp add: e root200_def)
  ultimately show ?thesis by (simp add: paired_ok_def) (simp add: root200_def)
qed

lemma root200_value:
  assumes "tag \<in> {''plaincert'', ''challengeresponse'', ''pairingsecret''}"
  shows "xml_text_hex (root200 (''<paired>1</paired>'' @ ''<'' @ tag @ ''>'' @ to_hex bs @ ''</'' @ tag @ ''>'')) tag = bs"
proof -
  let ?pre = \<open>''<?xml version="1.0"?><root status_code="200"><paired>1</paired>''\<close>
  have "find_start_tag ?pre ''plaincert'' = None" "find_start_tag ?pre ''challengeresponse'' = None"
    "find_start_tag ?pre ''pairingsecret'' = None" by code_simp+
  then have n: "find_start_tag ?pre tag = None" using assms by (elim insertE) (simp_all only: empty_iff)
  have t: "CHR ''<'' \<notin> set tag" "CHR ''>'' \<notin> set (tag @ [])" "last (''<'' @ tag @ []) \<noteq> CHR ''/''" using assms by auto
  have "xml_text (?pre @ ''<'' @ tag @ [] @ ''>'' @ encode_entities (to_hex bs) @ ''</'' @ tag @ ''></root>'') tag = to_hex bs"
    by (rule xml_text_value [OF n t(1,2) _ t(3)]) simp
  then show ?thesis by (simp add: xml_text_hex_def root200_def hex_plain from_hex_to_hex)
qed

lemma param_hex:
  assumes "find_sub (name @ ''='') pre = Some k" "k + length name + 1 = length pre" "post = [] \<or> hd post = CHR ''&''"
  shows "param (pre @ to_hex v @ post) name = to_hex v"
proof -
  have "CHR ''&'' \<notin> set ''0123456789abcdef''" by simp
  then have amp: "CHR ''&'' \<notin> set (to_hex v)" using hex_set [of v] by blast
  have "find_sub ''&'' (to_hex v @ post) = (if post = [] then None else Some (length (to_hex v)))"
    using find_sub_skip [of "''&''" "to_hex v" post] find_sub_absent [of "''&''" "to_hex v"] amp assms(3) by (cases post) auto
  then show ?thesis
    using assms(2) str_find_append [of pre "to_hex v @ post" "''&''"] find_sub_stays [OF assms(1)]
    by (simp add: param_def Let_def str_find_zero substr_append)
qed

lemma request_is: "find_sub n pre = Some k \<Longrightarrow> contains (pre @ r) n"
  using find_sub_stays by (simp add: contains_def str_find_zero)

lemma respond_getservercert:
  "respond c ''pair'' (kPairPrefix @ ''phrase=getservercert&salt='' @ to_hex salt @ ''&clientcert='' @ to_hex cc) s
     = (root200 (''<paired>1</paired>'' @ ''<'' @ ''plaincert'' @ ''>'' @ to_hex (if offerCert s then certPem (sim_id s) else []) @ ''</'' @ ''plaincert'' @ ''>''),
        s\<lparr>sim_aesKey := derive_aes_key c salt (sim_pin s) (sim_gen7 s)\<rparr>)"
proof -
  let ?pre = "kPairPrefix @ ''phrase=getservercert&salt=''"
  have f: "find_sub ''phrase=getservercert'' ?pre = Some 30" "find_sub (''salt'' @ ''='') ?pre = Some 51" by code_simp+
  have "30 + length ''phrase=getservercert&'' = 51" "51 + length ''salt'' + 1 = length ?pre" by (simp_all add: kPairPrefix_def)
  then have "param (?pre @ to_hex salt @ (''&clientcert='' @ to_hex cc)) ''salt'' = to_hex salt"
    by (intro param_hex [OF f(2)]) simp_all
  moreover have "contains (?pre @ to_hex salt @ (''&clientcert='' @ to_hex cc)) ''phrase=getservercert''"
    by (rule request_is [OF f(1)])
  moreover have "to_hex [] = []" by (simp add: to_hex_def)
  ultimately show ?thesis by (simp add: respond_def Let_def from_hex_to_hex)
qed

text \<open>The other requests end in digits: what a request is not, no digits make it.\<close>

lemma not_in_request:
  assumes "find_sub n pre = None" "list_all (\<lambda>i. \<not> prefix (drop i pre) n) [0..<length pre]"
    "\<not> set n \<subseteq> set ''0123456789abcdef''"
  shows "\<not> contains (pre @ to_hex bs) n"
  using find_before_hex [OF assms] by (simp add: contains_def str_find_zero)

lemma respond_clientchallenge:
  "respond c ''pair'' (kPairPrefix @ ''clientchallenge='' @ to_hex enc) s
     = (root200 (''<paired>1</paired>'' @ ''<'' @ ''challengeresponse'' @ ''>''
          @ to_hex (aes_ecb_encrypt c
              (gen_hash c (aes_ecb_decrypt c enc (sim_aesKey s) @ signature_from_pem_cert c (certPem (sim_id s)) @ replicate 16 (CHR 0x5A)) (sim_gen7 s)
                @ replicate 16 (CHR 0x33)) (sim_aesKey s))
          @ ''</'' @ ''challengeresponse'' @ ''>''),
        s\<lparr>serverSecret := replicate 16 (CHR 0x5A)\<rparr>)"
proof -
  let ?pre = "kPairPrefix @ ''clientchallenge=''"
  have "\<not> contains (?pre @ to_hex enc) ''phrase=getservercert''" by (rule not_in_request; code_simp)
  moreover have f: "find_sub ''clientchallenge='' ?pre = Some 30" "find_sub (''clientchallenge'' @ ''='') ?pre = Some 30"
    by code_simp+
  have "30 + length ''clientchallenge'' + 1 = length ?pre" by (simp add: kPairPrefix_def)
  then have "param (?pre @ to_hex enc @ []) ''clientchallenge'' = to_hex enc"
    by (intro param_hex [OF f(2)]) simp_all
  moreover have "contains (?pre @ to_hex enc) ''clientchallenge=''"
    by (rule request_is [OF f(1)])
  ultimately show ?thesis by (simp add: respond_def Let_def from_hex_to_hex)
qed

lemma respond_serverchallengeresp:
  "respond c ''pair'' (kPairPrefix @ ''serverchallengeresp='' @ to_hex enc) s
     = (root200 (''<paired>1</paired>'' @ ''<'' @ ''pairingsecret'' @ ''>''
          @ to_hex (serverSecret s @ sign_message c (serverSecret s) (keyPem (sim_id s))) @ ''</'' @ ''pairingsecret'' @ ''>''), s)"
proof -
  let ?pre = "kPairPrefix @ ''serverchallengeresp=''"
  have "\<not> contains (?pre @ to_hex enc) ''phrase=getservercert''" "\<not> contains (?pre @ to_hex enc) ''clientchallenge=''"
    by (rule not_in_request; code_simp)+
  moreover have "find_sub ''serverchallengeresp='' ?pre = Some 30" by code_simp
  then have "contains (?pre @ to_hex enc) ''serverchallengeresp=''"
    by (rule request_is)
  ultimately show ?thesis by (simp add: respond_def Let_def)
qed

lemma respond_clientpairingsecret:
  "respond c ''pair'' (kPairPrefix @ ''clientpairingsecret='' @ to_hex bs) s = (root200 (''<paired>1</paired>'' @ []), s)"
proof -
  let ?pre = "kPairPrefix @ ''clientpairingsecret=''"
  have "\<not> contains (?pre @ to_hex bs) ''phrase=getservercert''" "\<not> contains (?pre @ to_hex bs) ''clientchallenge=''"
    "\<not> contains (?pre @ to_hex bs) ''serverchallengeresp=''"
    by (rule not_in_request; code_simp)+
  moreover have "find_sub ''clientpairingsecret='' ?pre = Some 30" by code_simp
  then have "contains (?pre @ to_hex bs) ''clientpairingsecret=''"
    by (rule request_is)
  ultimately show ?thesis by (simp add: respond_def)
qed

lemma respond_pairchallenge:
  "respond c ''pair'' (kPairPrefix @ ''phrase=pairchallenge'') s = (root200 (''<paired>1</paired>'' @ []), s)"
proof -
  let ?a = "kPairPrefix @ ''phrase=pairchallenge''"
  have "\<not> contains ?a ''phrase=getservercert''" "\<not> contains ?a ''clientchallenge=''" "\<not> contains ?a ''serverchallengeresp=''"
    "contains ?a ''phrase=pairchallenge''"
    by code_simp+
  then show ?thesis by (simp add: respond_def)
qed

lemma respond_unpair: "respond c ''unpair'' args s = (root200 [], s)"
  by (simp add: respond_def)

lemmas respond_answers = respond_getservercert respond_clientchallenge respond_serverchallengeresp
  respond_clientpairingsecret respond_pairchallenge respond_unpair

lemma sim_transport: "transport (sim_env c) https command args s = Some (respond c command args s)"
  by (simp add: sim_env_def)

lemma sim_pinned: "set_pinned (sim_env c) pem s = s\<lparr>pinned := pem\<rparr>"
  by (simp add: sim_env_def)

lemma sim_random: "random_fn (sim_env c) n s = seq_bytes n s"
  by (simp add: sim_env_def)

lemma sim_unpair: "unpair (sim_env c) st s = Some ((st, []), s)"
  by (simp add: unpair_def sim_transport respond_unpair)

lemmas sim_lemmas = sim_transport sim_pinned sim_random sim_unpair

section \<open>A run against it\<close>

text \<open>The engine draws three times from the counter; the rest of a run is decided by the host's answer to
  the challenge, as the engine's key reads it.\<close>

definition draw_bytes :: "nat \<Rightarrow> bytes" where
  "draw_bytes n = map (\<lambda>i. char_of ((n + i) mod 256)) [0..<16]"

lemma seq_draw: "seq_bytes 16 s = (draw_bytes (counter s), s\<lparr>counter := (counter s + 16) mod 256\<rparr>)"
  by (simp add: seq_bytes_def draw_bytes_def)

definition sim_secret :: bytes where
  "sim_secret = replicate 16 (CHR 0x5A)"

definition sim_answer :: "crypto \<Rightarrow> bool \<Rightarrow> string \<Rightarrow> bytes \<Rightarrow> bytes \<Rightarrow> bytes \<Rightarrow> bytes" where
  "sim_answer c g cert k k' ch =
     aes_ecb_decrypt c
       (aes_ecb_encrypt c
         (gen_hash c (aes_ecb_decrypt c (aes_ecb_encrypt c ch k) k' @ signature_from_pem_cert c cert @ sim_secret) g
           @ replicate 16 (CHR 0x33)) k') k"

definition sim_outcome :: "crypto \<Rightarrow> bool \<Rightarrow> string \<Rightarrow> bytes \<Rightarrow> bytes \<Rightarrow> pair_result" where
  "sim_outcome c g cert ch resp =
     (let h = (if g then 32 else 20)
      in if length resp < h + 16 then (PairFailed, [])
         else if gen_hash c (ch @ signature_from_pem_cert c cert @ sim_secret) g \<noteq> take h resp then (PinWrong, [])
         else (Paired, cert))"

lemma sim_stage4: "pair_stage4 c (sim_env c) client cert secret s = Some ((Paired, cert), s)"
  unfolding pair_stage4_def pair_stage5_def Let_def sim_lemmas respond_answers
  by (simp only: option.case prod.case root200_paired if_True simp_thms if_False)

lemma sim_checks:
  assumes "key_pair c (certPem (sim_id s)) (keyPem (sim_id s))" "serverSecret s = sim_secret"
    "xml_text_hex x ''pairingsecret'' = serverSecret s @ sign_message c (serverSecret s) (keyPem (sim_id s))"
  shows "pair_checks c (sim_env c) client g (certPem (sim_id s)) ch resp secret x s
    = Some (if gen_hash c (ch @ signature_from_pem_cert c (certPem (sim_id s)) @ sim_secret) g \<noteq> resp then (PinWrong, [])
            else (Paired, certPem (sim_id s)), s)"
  using key_pair_signs [OF assms(1), of sim_secret] assms(2)
  unfolding pair_checks_def assms(3) Let_def by (simp add: substr_def sim_unpair sim_stage4) (simp add: sim_secret_def)

lemma sim_stage3:
  assumes "key_pair c (certPem (sim_id s)) (keyPem (sim_id s))" "serverSecret s = sim_secret"
    "(if g then 32 else 20) + 16 \<le> length resp"
  shows "\<exists>s'. pair_stage3 c (sim_env c) client g key (certPem (sim_id s)) ch resp s
      = Some (sim_outcome c g (certPem (sim_id s)) ch resp, s') \<and> pinned s' = pinned s"
proof -
  let ?x = "root200 (''<paired>1</paired>'' @ ''<'' @ ''pairingsecret'' @ ''>''
    @ to_hex (serverSecret s @ sign_message c (serverSecret s) (keyPem (sim_id s))) @ ''</'' @ ''pairingsecret'' @ ''>'')"
  let ?s1 = "s\<lparr>counter := (counter s + 16) mod 256\<rparr>"
  have x: "xml_text_hex ?x ''pairingsecret'' = serverSecret ?s1 @ sign_message c (serverSecret ?s1) (keyPem (sim_id ?s1))"
    using root200_value [of "''pairingsecret''"] by simp
  show ?thesis
    unfolding pair_stage3_def Let_def sim_lemmas seq_draw prod.case respond_answers option.case
    using sim_checks [OF _ _ x, of client g ch "substr resp 0 (if g then 32 else 20)" "draw_bytes (counter s)"] assms
    by (simp add: root200_paired [simplified] sim_outcome_def substr_def)
qed

lemma sim_stage2:
  assumes "key_pair c (certPem (sim_id s)) (keyPem (sim_id s))"
  shows "\<exists>s'. pair_stage2 c (sim_env c) client (sim_gen7 s) key (certPem (sim_id s)) s
      = Some (sim_outcome c (sim_gen7 s) (certPem (sim_id s)) (draw_bytes (counter s))
           (sim_answer c (sim_gen7 s) (certPem (sim_id s)) key (sim_aesKey s) (draw_bytes (counter s))), s') \<and> pinned s' = pinned s"
proof -
  let ?s1 = "s\<lparr>counter := (counter s + 16) mod 256, serverSecret := sim_secret\<rparr>"
  let ?resp = "sim_answer c (sim_gen7 s) (certPem (sim_id s)) key (sim_aesKey s) (draw_bytes (counter s))"
  show ?thesis
  proof (cases "length ?resp < (if sim_gen7 s then 32 else 20) + 16")
    case True
    then show ?thesis
      unfolding pair_stage2_def Let_def sim_lemmas seq_draw prod.case respond_answers option.case
      using root200_value [of "''challengeresponse''"]
      by (simp add: root200_paired [simplified] sim_outcome_def sim_answer_def sim_secret_def)
  next
    case False
    then show ?thesis
      unfolding pair_stage2_def Let_def sim_lemmas seq_draw prod.case respond_answers option.case
      using root200_value [of "''challengeresponse''"]
        sim_stage3 [of c ?s1 "sim_gen7 s" ?resp client key "draw_bytes (counter s)"] assms
      by (simp add: root200_paired [simplified] sim_answer_def sim_secret_def)
  qed
qed

lemma sim_pairs:
  assumes "crypto_laws c" "key_pair c (certPem ident) (keyPem ident)" "certPem ident \<noteq> []"
  shows "\<exists>s'. nv_pair c (sim_env c) client pin gen (new_sim spin gen True ident n)
      = Some (sim_outcome c (7 \<le> gen) (certPem ident) (draw_bytes ((n + 16) mod 256))
           (sim_answer c (7 \<le> gen) (certPem ident) (derive_aes_key c (draw_bytes n) pin (7 \<le> gen))
             (derive_aes_key c (draw_bytes n) spin (7 \<le> gen)) (draw_bytes ((n + 16) mod 256))), s') \<and> pinned s' = certPem ident"
proof -
  let ?s0 = "new_sim spin gen True ident n"
  let ?key = "derive_aes_key c (draw_bytes n) pin (7 \<le> gen)"
  let ?s1 = "?s0\<lparr>counter := (n + 16) mod 256, sim_aesKey := derive_aes_key c (draw_bytes n) spin (7 \<le> gen), pinned := certPem ident\<rparr>"
  have "?key \<noteq> []" using derive_length [OF assms(1), of "draw_bytes n" pin "7 \<le> gen"] by auto
  then show ?thesis
    unfolding nv_pair_def Let_def sim_lemmas seq_draw prod.case
    using root200_value [of "''plaincert''"] sim_stage2 [of c ?s1 client ?key] assms(2,3)
    by (simp add: new_sim_def respond_getservercert [simplified] root200_paired [simplified])
qed

text \<open>With the same PIN the engine reads what the host wrote.\<close>

lemma sim_same_key:
  assumes "crypto_laws c" "length k = 16" "length ch = 16"
  shows "sim_outcome c True cert ch (sim_answer c True cert k k ch) = (Paired, cert)"
proof -
  let ?hash = "gen_hash c (ch @ signature_from_pem_cert c cert @ sim_secret) True"
  let ?body = "?hash @ replicate 16 (CHR 0x33)"
  have h: "length ?hash = 32" using gen_hash_length [OF assms(1)] by simp
  have ch: "aes_ecb_decrypt c (aes_ecb_encrypt c ch k) k = ch"
    using assms(3) by (intro aes_roundtrip [OF assms(1,2)]) auto
  have "aes_ecb_decrypt c (aes_ecb_encrypt c ?body k) k = ?body"
    using h by (intro aes_roundtrip [OF assms(1,2)]) auto
  then show ?thesis using h by (simp add: sim_outcome_def sim_answer_def ch)
qed

text \<open>Without the certificate nothing is pinned; and before generation 7 the host's answer is no
  multiple of the block length, so it cannot be encrypted.\<close>

lemma sim_refuses:
  assumes "crypto_laws c"
  shows "\<exists>s'. nv_pair c (sim_env c) client pin gen (new_sim spin gen False ident n) = Some ((AlreadyInProgress, []), s') \<and> pinned s' = []"
proof -
  have "derive_aes_key c (draw_bytes n) pin (7 \<le> gen) \<noteq> []" using derive_length [OF assms, of "draw_bytes n" pin "7 \<le> gen"] by auto
  then show ?thesis
    unfolding nv_pair_def Let_def sim_lemmas seq_draw prod.case
    using root200_value [of "''plaincert''" "[]"]
    by (simp add: new_sim_def respond_getservercert [simplified] root200_paired [simplified])
qed

lemma sim_old_generation:
  assumes "crypto_laws c" shows "sim_outcome c False cert ch (sim_answer c False cert k k' ch) = (PairFailed, [])"
  using gen_hash_length [OF assms]
  by (simp add: sim_outcome_def sim_answer_def aes_ecb_decrypt_def aes_ecb_encrypt_def aes_ecb_def)

text \<open>
  C35. What the engine makes of the simulated host of the repository's tests, for every cryptography with
  the laws assumed of OpenSSL, every identity, PIN, generation and state of the byte source.  Without a
  certificate on offer the run ends as already in progress, and nothing is pinned.  With one, the
  certificate is pinned and stays so however the run ends; from generation 7 on it pairs with the same PIN, and
  pairs with another only if the digests agree all the same; before generation 7 it always fails, since this
  host's answer cannot be encrypted; and a certificate is returned exactly with success.
\<close>

theorem simulated_host_outcome:
  assumes "crypto_laws c" "key_pair c (certPem ident) (keyPem ident)" "certPem ident \<noteq> []"
  shows "\<exists>s1 s2 result.
           nv_pair c (sim_env c) client pin gen (new_sim spin gen False ident n) = Some ((AlreadyInProgress, []), s1) \<and> pinned s1 = []
         \<and> nv_pair c (sim_env c) client pin gen (new_sim spin gen True ident n) = Some (result, s2) \<and> pinned s2 = certPem ident
         \<and> (7 \<le> gen \<and> pin = spin \<longrightarrow> fst result = Paired)
         \<and> (gen < 7 \<longrightarrow> fst result = PairFailed)
         \<and> (fst result = Paired \<longrightarrow>
              (let key = derive_aes_key c (draw_bytes n) pin True; key' = derive_aes_key c (draw_bytes n) spin True;
                   ch = draw_bytes ((n + 16) mod 256)
               in gen_hash c (ch @ signature_from_pem_cert c (certPem ident) @ replicate 16 (CHR 0x5A)) True
                  = take 32 (sim_answer c True (certPem ident) key key' ch)))
         \<and> snd result = (if fst result = Paired then certPem ident else [])"
proof -
  let ?ch = "draw_bytes ((n + 16) mod 256)"
  let ?key = "derive_aes_key c (draw_bytes n) pin (7 \<le> gen)" and ?key' = "derive_aes_key c (draw_bytes n) spin (7 \<le> gen)"
  let ?result = "sim_outcome c (7 \<le> gen) (certPem ident) ?ch (sim_answer c (7 \<le> gen) (certPem ident) ?key ?key' ?ch)"
  obtain s1 where s1: "nv_pair c (sim_env c) client pin gen (new_sim spin gen False ident n) = Some ((AlreadyInProgress, []), s1)" "pinned s1 = []"
    using sim_refuses [OF assms(1)] by blast
  obtain s2 where s2: "nv_pair c (sim_env c) client pin gen (new_sim spin gen True ident n) = Some (?result, s2)" "pinned s2 = certPem ident"
    using sim_pairs [OF assms] by blast
  have same: "fst ?result = Paired" if "7 \<le> gen" "pin = spin"
    using that sim_same_key [OF assms(1) derive_length [OF assms(1)], of ?ch] by (simp add: draw_bytes_def)
  have old: "fst ?result = PairFailed" if "gen < 7"
    using that sim_old_generation [OF assms(1)] by (simp add: not_le [symmetric])
  have won: "gen_hash c (?ch @ signature_from_pem_cert c (certPem ident) @ replicate 16 (CHR 0x5A)) True
      = take 32 (sim_answer c True (certPem ident) (derive_aes_key c (draw_bytes n) pin True) (derive_aes_key c (draw_bytes n) spin True) ?ch)"
    if p: "fst ?result = Paired"
  proof -
    have "7 \<le> gen" using p old by fastforce
    then show ?thesis using p by (auto simp: sim_outcome_def sim_secret_def Let_def split: if_splits)
  qed
  have cert: "snd ?result = (if fst ?result = Paired then certPem ident else [])" by (simp add: sim_outcome_def Let_def)
  show ?thesis
    using s1 s2 same old won cert unfolding Let_def by (intro exI [of _ s1] exI [of _ s2] exI [of _ ?result] conjI impI) blast+
qed

lemma success_test:
  assumes "crypto_laws c" "key_pair c (certPem ident) (keyPem ident)" "certPem ident \<noteq> []"
  shows "list_all id (test_pair_success c ident client)"
proof -
  have "sim_outcome c True (certPem ident) (draw_bytes 17)
      (sim_answer c True (certPem ident) (derive_aes_key c (draw_bytes 1) ''4321'' True) (derive_aes_key c (draw_bytes 1) ''4321'' True) (draw_bytes 17))
    = (Paired, certPem ident)"
    by (rule sim_same_key [OF assms(1) derive_length [OF assms(1)]]) (simp add: draw_bytes_def)
  then show ?thesis
    using sim_pairs [OF assms, of client "''4321''" 7 "''4321''" 1] by (auto simp: test_pair_success_def)
qed

lemma exchange_byte_twice: "exchange_byte k (exchange_byte k d) = d" "length (exchange_byte k d) = length d"
  by (auto simp: exchange_byte_def intro!: map_idI)

lemma keyed_laws: "crypto_laws keyed_crypto"
  by (simp add: crypto_laws_def keyed_crypto_def exchange_byte_twice min_def)

lemma keyed_pair: "key_pair keyed_crypto (certPem pem_identity) (keyPem pem_identity)"
  by (simp add: key_pair_def keyed_crypto_def pem_identity_def)

lemma wrong_pin_test: "list_all id (test_pair_wrong_pin keyed_crypto pem_identity client)"
proof -
  have "certPem pem_identity \<noteq> []" by (simp add: pem_identity_def)
  moreover have "sim_outcome keyed_crypto True (certPem pem_identity) (draw_bytes 65)
      (sim_answer keyed_crypto True (certPem pem_identity) (derive_aes_key keyed_crypto (draw_bytes 49) ''0000'' True)
         (derive_aes_key keyed_crypto (draw_bytes 49) ''4321'' True) (draw_bytes 65)) = (PinWrong, [])"
    by code_simp
  ultimately show ?thesis
    using sim_pairs [OF keyed_laws keyed_pair, of client "''0000''" 7 "''4321''" 49] by (auto simp: test_pair_wrong_pin_def)
qed

lemma other_pair_tests:
  "list_all id (test_pair_already_in_progress keyed_crypto pem_identity pem_identity)"
  "list_all id (test_pair_transport_failure keyed_crypto pem_identity)"
  "list_all id (test_identity keyed_crypto (Some pem_identity) (Some 0x0123456789abcdef))"
  by code_simp+

definition main_nv_pairing :: "crypto \<Rightarrow> client_identity \<Rightarrow> client_identity option \<Rightarrow> 64 word option \<Rightarrow> int" where
  "main_nv_pairing c ident made rnd =
     exit_status [test_identity c made rnd, test_http_helpers, test_pair_success c ident ident, test_pair_wrong_pin c ident ident,
       test_pair_already_in_progress c ident ident, test_pair_transport_failure c ident]"

lemma nv_pairing_passes: "main_nv_pairing keyed_crypto pem_identity (Some pem_identity) (Some 0x0123456789abcdef) = 0"
proof -
  have "list_all id (test_pair_success keyed_crypto pem_identity pem_identity)"
    by (rule success_test [OF keyed_laws keyed_pair]) (simp add: pem_identity_def)
  then show ?thesis
    using http_helpers_pass wrong_pin_test other_pair_tests by (simp add: main_nv_pairing_def exit_status_def)
qed

text \<open>The wrapper tests pass with every cryptography that has the laws and gives the published answers, for every
  identity that signs and verifies, and two draws that differ.\<close>

lemma pairing_crypto_passes:
  assumes "crypto_laws c" "list_all id (test_sha c)" "list_all id (test_aes_kat c)"
    "list_all id (test_sign_verify_and_cert_signature c made)" "random_bytes 32 (Some r2) \<noteq> random_bytes 32 (Some r3)"
  shows "main_pairing_crypto c made r1 r2 r3 = 0"
  using wrapper_tests(1,2) [OF assms(1)] wrapper_tests(3) [OF assms(1,5)] assms(2-4) by (simp add: main_pairing_crypto_def exit_status_def)

theorem simulated_host_outcome_witness:
  "\<exists>s1 result s2. nv_pair keyed_crypto (sim_env keyed_crypto) pem_identity ''4321'' 7 (new_sim ''4321'' 7 True pem_identity 1)
       = Some (result, s2) \<and> fst result = Paired \<and> snd result = certPem pem_identity \<and> pinned s2 = certPem pem_identity
     \<and> nv_pair keyed_crypto (sim_env keyed_crypto) pem_identity ''4321'' 7 (new_sim ''4321'' 7 False pem_identity 1)
       = Some ((AlreadyInProgress, []), s1)"
proof -
  have "certPem pem_identity \<noteq> []" by (simp add: pem_identity_def)
  then obtain s1 s2 result where
    r: "nv_pair keyed_crypto (sim_env keyed_crypto) pem_identity ''4321'' 7 (new_sim ''4321'' 7 False pem_identity 1) = Some ((AlreadyInProgress, []), s1)"
    "nv_pair keyed_crypto (sim_env keyed_crypto) pem_identity ''4321'' 7 (new_sim ''4321'' 7 True pem_identity 1) = Some (result, s2)"
    "pinned s2 = certPem pem_identity" "(7 :: int) \<le> 7 \<and> ''4321'' = ''4321'' \<longrightarrow> fst result = Paired"
    "snd result = (if fst result = Paired then certPem pem_identity else [])"
    using simulated_host_outcome [OF keyed_laws keyed_pair, of pem_identity "''4321''" 7 "''4321''" 1] by blast
  then have "fst result = Paired" "snd result = certPem pem_identity" by simp_all
  then show ?thesis using r(1-3) by blast
qed

end
