(* ===== verification/Spec2Isabelle.thy ===== *)
theory Spec2Isabelle
  imports EngineMain ClientBuilds HeadlessSession WindowsHost JsonGrammar NetTests HostTests IpcTests PairingTests
begin

text \<open>
  A verification development of the ArcadeLauncher stream engine (the C++ sources under \<^verbatim>\<open>src/src/\<close> and their
  unit tests under \<^verbatim>\<open>src/tests/\<close>).

  \<^bold>\<open>The program.\<close>  The engine is one executable with two modes, each a server for the launcher on a local
  socket.  Host mode drives a Sunshine process that shares this PC: it publishes the launcher's
  library as Sunshine's catalog, seeds trusted clients into Sunshine's state file and starts and stops
  the child.  Client mode plays a remote host: it keeps an identity and a registry of paired hosts,
  pairs by PIN, lists apps, negotiates a launch over HTTPS with a pinned certificate, and runs the
  stream on a worker thread with a window, a video and an audio renderer.

  \<^bold>\<open>The theories,\<close> from the bottom up, with the sources each one follows.

  \<^item> \<^verbatim>\<open>Prelude\<close>: bytes and characters, generic list and map lemmas, the shared names and collections,
    and the locales of the machines: \<^verbatim>\<open>step_invariant\<close> (interpreted on the server's writers, both drivers of the
    Sunshine child, the sessions and the renderer threads) and \<^verbatim>\<open>resource_owner\<close> (the video renderer, the window,
    the audio renderer).
  \<^item> \<^verbatim>\<open>Numbers\<close>: what the code uses of the C and C++ number conversions (\<^verbatim>\<open>to_string\<close>, \<^verbatim>\<open>atoi\<close>, \<^verbatim>\<open>strtod\<close>,
    \<^verbatim>\<open>%.17g\<close>, casts between doubles and integers), with doubles as exact binary fractions.
  \<^item> \<^verbatim>\<open>Json\<close> (\<^verbatim>\<open>ipc/json.h\<close>, \<^verbatim>\<open>ipc/json.cpp\<close>): values, printer and parser.  Printing and parsing are inverse on
    well-formed values, escapes decode to UTF-8.  \<^verbatim>\<open>JsonGrammar\<close> states the language the parser reads as a grammar of
    texts and values, and shows that the parser accepts exactly it.
  \<^item> \<^verbatim>\<open>Transport\<close> (\<^verbatim>\<open>ipc/transport.h\<close>, \<^verbatim>\<open>transport_posix.cpp\<close>, \<^verbatim>\<open>transport_win.cpp\<close>): the loops over a scripted socket
    or pipe, connecting, and the locale \<^verbatim>\<open>transport\<close>: the contract the layers above rely on, interpreted on the
    socket and on the pipe.
  \<^item> \<^verbatim>\<open>Frame\<close> (\<^verbatim>\<open>ipc/frame.h\<close>, \<^verbatim>\<open>ipc/frame.cpp\<close>): length-prefixed frames, against a specification on byte streams.
  \<^item> \<^verbatim>\<open>Server\<close> (\<^verbatim>\<open>ipc/server.h\<close>, \<^verbatim>\<open>ipc/server.cpp\<close>, \<^verbatim>\<open>ipc/ipc.cpp\<close>): handshake, dispatch, the request loop as a partial
    function with its specification \<^verbatim>\<open>serve\<close>, and the write mutex as a step relation over any number of writers.
  \<^item> \<^verbatim>\<open>Xml\<close> (\<^verbatim>\<open>net/gamestream_xml.cpp\<close>), \<^verbatim>\<open>Http\<close> (\<^verbatim>\<open>net/http_client.cpp\<close>): reading the host's answers; requests over TCP
    and TLS with the pinned certificate; the chunked decoder at 64 bits.
  \<^item> \<^verbatim>\<open>FileSystem\<close>, \<^verbatim>\<open>IdentityStore\<close> (\<^verbatim>\<open>net/identity.cpp\<close>, \<^verbatim>\<open>net/identity_store.cpp\<close>): files whose calls may fail, also
    late, the persistent identity, and the registry of hosts, which refines a map (locale \<^verbatim>\<open>host_registry\<close>).
  \<^item> \<^verbatim>\<open>Pairing\<close> (\<^verbatim>\<open>net/pairing_crypto.cpp\<close>, \<^verbatim>\<open>net/nv_pairing.cpp\<close>): the five-stage handshake over an injected transport
    and over a live client: authenticity, cancellation, completeness.
  \<^item> \<^verbatim>\<open>AppList\<close> (\<^verbatim>\<open>net/nv_applist.cpp\<close>), \<^verbatim>\<open>Launch\<close> (\<^verbatim>\<open>net/nv_launch.cpp\<close>): the host's apps and the launch query.
  \<^item> \<^verbatim>\<open>HostApps\<close> (\<^verbatim>\<open>host/host_apps.cpp\<close>), \<^verbatim>\<open>ClientTrust\<close> (\<^verbatim>\<open>host/client_trust.cpp\<close>): the catalog and the state document.
  \<^item> \<^verbatim>\<open>SunshineBackend\<close> (\<^verbatim>\<open>host/sunshine_backend.cpp\<close>): the child process over a process table: at most one child, always
    the one tracked.  The locale \<^verbatim>\<open>child_driver\<close> states what enabling and disabling a child promises.
  \<^item> \<^verbatim>\<open>WindowsHost\<close> (the Windows branches of \<^verbatim>\<open>host/\<close> and \<^verbatim>\<open>net/identity_store.cpp\<close>): paths, the command line as one
    string under the documented splitting rules (locale \<^verbatim>\<open>command_line_rules\<close>), and the child with its
    handles, a second driver of the same contract.
  \<^item> \<^verbatim>\<open>HostMain\<close> (\<^verbatim>\<open>host/host_main.cpp\<close>): the \<^verbatim>\<open>host.*\<close> handlers over backend, processes and files; \<^verbatim>\<open>host_main\<close>.
  \<^item> \<^verbatim>\<open>StreamConfig\<close> (\<^verbatim>\<open>client/stream_config.cpp\<close>): settings and their validation.
  \<^item> \<^verbatim>\<open>StreamSession\<close> (\<^verbatim>\<open>client/stream_session.cpp\<close>): the session as a machine of the IPC thread, the worker and the
    library's callbacks; its invariant relates the flags, the thread and the resources.  The locale
    \<^verbatim>\<open>stream_driver\<close> states what every build of the session promises.
  \<^item> \<^verbatim>\<open>HeadlessSession\<close> (the same file without a renderer): the worker that only connects, a second instance.
  \<^item> \<^verbatim>\<open>VideoRenderer\<close>, \<^verbatim>\<open>StreamWindow\<close>, \<^verbatim>\<open>AudioRenderer\<close> (the files of these names in \<^verbatim>\<open>client/\<close>): resources counted as
    they are allocated and freed, the hand-over of frames between two threads, controller reports and
    buffer sizes at their machine widths.
  \<^item> \<^verbatim>\<open>StreamRun\<close> (\<^verbatim>\<open>StreamSession::run\<close> once more): the worker with the window and the renderers it owns, step by step
    from their construction to their destructors, with the library's callbacks between.  It refines
    \<open>StreamSession\<close>; nothing is used after it was released and nothing is left when the worker returns.
  \<^item> \<^verbatim>\<open>StreamMain\<close> (\<^verbatim>\<open>client/stream_main.cpp\<close>): the \<^verbatim>\<open>client.*\<close> handlers over files, connections and session.
  \<^item> \<^verbatim>\<open>EngineMain\<close> (the rest of \<^verbatim>\<open>client/stream_main.cpp\<close>, \<^verbatim>\<open>main.cpp\<close>): events, registration, \<^verbatim>\<open>stream_main\<close>, \<^verbatim>\<open>main\<close>.
  \<^item> \<^verbatim>\<open>ClientBuilds\<close> (\<^verbatim>\<open>client/stream_main.cpp\<close> without OpenSSL or the streaming library): the methods of the reduced
    builds; that the two with OpenSSL agree up to the launch, and what the third shares with them.
  \<^item> \<^verbatim>\<open>NetTests\<close>, \<^verbatim>\<open>HostTests\<close>, \<^verbatim>\<open>IpcTests\<close>, \<^verbatim>\<open>PairingTests\<close> (\<^verbatim>\<open>src/tests/\<close>): the repository's nine test programs over
    the definitions, with their transport in memory (a third instance of \<^verbatim>\<open>transport\<close>) and their simulated
    GameStream host; \<^verbatim>\<open>Evaluation\<close> has the code equations that run them inside the kernel.  The
    lemmas ending in \<^verbatim>\<open>_passes\<close> say that a program exits with 0 (the one of the wrappers for a cryptography that gives the published
    answers); what a run against the simulated host ends with is shown for every cryptography with the laws assumed.

  This theory holds the property that spans both modes.

  \<^bold>\<open>How state and effects correspond.\<close>  A class is a record, its methods are functions on it; a handler
  maps its parameters and the world to a result, an error code, a message and the new world.  What
  lies outside is either scripted (the segments a socket delivers, the answers of \<^verbatim>\<open>fork\<close>, the disk's
  room, the frames a decoder returns) or a parameter with stated laws (OpenSSL, \<^verbatim>\<open>std::hash\<close>, the button flags of the
  streaming library).  Threads are step relations, with one step per point where another thread can
  come between; a schedule connects them to the sequential request loop.  Strings are byte lists,
  machine integers have their widths wherever a result depends on them.

  \<^bold>\<open>Termination.\<close>  Loops that may not end are partial functions with \<^term>\<open>None\<close> as the value of not returning, never
  fuel: the request loop (shown to return once the peer has closed), the chunked decoder (shown to
  return on all but wrapping sizes, and to hang on such a one) and the audio buffer size (shown to
  return for every configuration Opus allows).  A handler that does not return has the value \<^term>\<open>None\<close>.

  \<^bold>\<open>What the proofs found.\<close>  The chunked decoder can hang; a second start after a stream that ended by
  itself aborts the process; client mode can return while its session still refers to the server; a
  late write error truncates a stored file; on Windows a blank in the catalog's path cuts the arguments
  of Sunshine, which are joined without quotes.  Each is a theorem on the model of the code.

  \<^bold>\<open>Not modelled.\<close>  The Windows branches that only choose a header, a socket type or a window handle; the build
  with a renderer but without audio; the texts written to the error stream; socket timeouts beyond their
  outcomes; the memory model below the mutex and the atomics; OpenSSL, FFmpeg, SDL, Opus, Sunshine and
  the streaming library themselves; of the tests, the making of throw-away identities with OpenSSL,
  which are arguments, and the removal of temporary directories.
\<close>

section \<open>The engine as a whole\<close>

text \<open>
  C7. Whatever the command line, the engine cleans up: when it exits no child process is left, the
  stream's worker has been joined and the connection, the window and the callbacks' target are gone;
  the exit code is one of five, and it is 2 exactly when no command or an unknown one was given.
  Outside the two modes nothing is sent, started or written.
\<close>

theorem engine_exits_clean:
  assumes "main version sys boot hash env sch argv s w = Some (code, std, out, s', w')"
    "cw_session w = new_session" "admissible graceful sch" "children s = Map.empty" "forks_ok s"
  shows "children s' = Map.empty
         \<and> ses_worker (cw_session w') = NoThread \<and> \<not> ses_running (cw_session w') \<and> \<not> connected (cw_session w')
         \<and> \<not> window_up (cw_session w') \<and> \<not> g_video (cw_session w') \<and> \<not> g_sink (cw_session w')
         \<and> code \<in> {0, 2, 64, 69, 70}
         \<and> (code = 2 \<longleftrightarrow> length argv < 2
              \<or> argv ! 1 \<notin> {''--version'', ''version'', ''--help'', ''-h'', ''help'', ''host'', ''stream''})
         \<and> (length argv < 2 \<or> argv ! 1 \<notin> {''host'', ''stream''} \<longrightarrow> out = [] \<and> s' = s \<and> w' = w)"
proof -
  have new: "session_ok (cw_session w)" "ses_worker (cw_session w) = NoThread"
    using assms(2) by (simp_all add: new_session_def session_ok_def session_inv_def busy_def listening_def)
  have idle: "ses_worker t = NoThread \<and> \<not> ses_running t \<and> \<not> connected t \<and> \<not> window_up t \<and> \<not> g_video t \<and> \<not> g_sink t"
    if "session_ok t" "ses_worker t = NoThread" for t
    using that by (auto simp: session_ok_def session_inv_def busy_def listening_def)
  show ?thesis
  proof (cases "\<exists>prog rest. argv = prog # ''host'' # rest")
    case True
    then obtain prog rest fs' where a: "argv = prog # ''host'' # rest"
      "host_main version sys boot hash (''host'' # rest) s (cw_fs w) = Some (code, out, s', fs')" "w' = w\<lparr>cw_fs := fs'\<rparr>"
      using assms(1) by (auto simp: main_def)
    with host_main_result [OF a(2) assms(4,5)] idle [OF new] show ?thesis by auto
  next
    case nohost: False
    show ?thesis
    proof (cases "\<exists>prog rest. argv = prog # ''stream'' # rest")
      case True
      then obtain prog rest w1 where a: "argv = prog # ''stream'' # rest"
        "stream_main version sys env sch (''stream'' # rest) w = Some (code, out, w1)" "s' = s"
        "cw_session w' = stop_session (finish sch) (cw_session w1)"
        using assms(1) by (auto simp: main_def)
      with stream_main_result [OF a(2) assms(3) new(1)] stop_session_ok [OF assms(3)] idle assms(4) show ?thesis by auto
    next
      case False
      with nohost have "(code, out, s', w') = (code, [], s, w) \<and> code \<in> {0, 2}
          \<and> (code = 2 \<longleftrightarrow> length argv < 2 \<or> argv ! 1 \<notin> {''--version'', ''version'', ''--help'', ''-h'', ''help''})"
        using assms(1) by (auto simp: main_def split: list.splits if_splits)
      with nohost False idle [OF new] assms(4) show ?thesis by (cases argv; cases "tl argv") auto
    qed
  qed
qed

theorem engine_exits_clean_witness:
  "\<exists>out s' w'. main ''1'' demo_sys \<lparr>self_exe = None, path_exists = (\<lambda>_. False)\<rparr> (\<lambda>_. 0) demo_env idle_schedule
       [''engine'', ''stream'', ''--ipc'', ''tok''] fresh_os demo_client_world = Some (0, [], out, s', w')
     \<and> ses_worker (cw_session w') = NoThread \<and> \<not> window_up (cw_session w')"
proof -
  let ?boot = "\<lparr>self_exe = None, path_exists = (\<lambda>_. False)\<rparr>"
  obtain out w' where "stream_main ''1'' demo_sys demo_env idle_schedule [''stream'', ''--ipc'', ''tok''] demo_client_world = Some (0, out, w')"
    using demo_stream_main by blast
  then obtain w2 where m: "main ''1'' demo_sys ?boot (\<lambda>_. 0) demo_env idle_schedule [''engine'', ''stream'', ''--ipc'', ''tok''] fresh_os demo_client_world
      = Some (0, [], out, fresh_os, w2)"
    by (simp add: main_def)
  have "cw_session demo_client_world = new_session" "children fresh_os = Map.empty" "forks_ok fresh_os"
    by (simp_all add: demo_client_world_def fresh_os_def forks_ok_def)
  from engine_exits_clean [OF m this(1) idle_admissible this(2,3)] m show ?thesis by blast
qed

end
